(* ===== verification/Prelude.thy ===== *)
theory Prelude
  imports Main "HOL-Library.Word" "HOL-Library.List_Lexorder" "HOL-Library.Sublist"
begin

text \<open>
  The vocabulary shared by every component: Go's byte slices with their nil value, results
  of calls that may panic, the functions of Go's packages \<open>bytes\<close> and \<open>fmt\<close> that the
  sources use, and the lemmas that connect \<open>bytes.Compare\<close> with the lexicographic order of
  HOL-Library.
\<close>

section \<open>Collections of rewrite rules\<close>

named_theorems slice_simps \<open>nil-aware reading of byte slices\<close>
named_theorems kv_simps \<open>laws of ordered key-value lists\<close>
named_theorems op_defs \<open>definitions of the operations of a component\<close>

section \<open>Go values\<close>

text \<open>
  A Go \<open>[]byte\<close> is either nil or a sequence of bytes, possibly empty; the sources tell
  \<open>nil\<close> from \<open>[]byte{}\<close> in several places, so a slice is an option.
\<close>

type_synonym byte = "8 word"
type_synonym slice = "byte list option"

text \<open>A map from Go strings to Go strings (\<open>map[string]string\<close>).\<close>

type_synonym strmap = "string \<rightharpoonup> string"

definition sl :: "slice \<Rightarrow> byte list" where
  "sl s = (case s of None \<Rightarrow> [] | Some xs \<Rightarrow> xs)"

definition len :: "slice \<Rightarrow> nat" where
  "len s = length (sl s)"

text \<open>
  The result of a call: \<open>None\<close> if it never returns, \<open>Some (Inl m)\<close> if it panics with message
  \<open>m\<close>, \<open>Some (Inr a)\<close> if it returns \<open>a\<close>. A panic unwinds the calling goroutine; what the
  callee had changed before it is not followed further.
\<close>

type_synonym 'a res = "(string + 'a) option"

abbreviation Ret :: "'a \<Rightarrow> 'a res" where
  "Ret a \<equiv> Some (Inr a)"

abbreviation Panic :: "string \<Rightarrow> 'a res" where
  "Panic m \<equiv> Some (Inl m)"

definition bindR :: "'a res \<Rightarrow> ('a \<Rightarrow> 'b res) \<Rightarrow> 'b res" where
  "bindR m f = Option.bind m (\<lambda>x. case x of Inl e \<Rightarrow> Panic e | Inr a \<Rightarrow> f a)"

text \<open>
  A slice argument that is present but empty, as in \<open>start != nil && len(start) == 0\<close>.
\<close>

definition blank :: "slice \<Rightarrow> bool" where
  "blank s \<longleftrightarrow> s \<noteq> None \<and> len s = 0"

section \<open>Package bytes\<close>

fun compare_bytes :: "byte list \<Rightarrow> byte list \<Rightarrow> int" where
  "compare_bytes [] [] = 0"
| "compare_bytes [] (y # ys) = -1"
| "compare_bytes (x # xs) [] = 1"
| "compare_bytes (x # xs) (y # ys) =
     (if x < y then -1 else if y < x then 1 else compare_bytes xs ys)"

text \<open>\<open>bytes.Compare\<close>, \<open>bytes.Equal\<close> and \<open>bytes.HasPrefix\<close> read nil as the empty slice.\<close>

definition bytes_Compare :: "slice \<Rightarrow> slice \<Rightarrow> int" where
  "bytes_Compare a b = compare_bytes (sl a) (sl b)"

definition bytes_Equal :: "slice \<Rightarrow> slice \<Rightarrow> bool" where
  "bytes_Equal a b \<longleftrightarrow> sl a = sl b"

definition bytes_HasPrefix :: "slice \<Rightarrow> slice \<Rightarrow> bool" where
  "bytes_HasPrefix s p \<longleftrightarrow> len p \<le> len s \<and> take (len p) (sl s) = sl p"

section \<open>Package fmt\<close>

text \<open>The verbs the sources use: \<open>%d\<close> on numbers, \<open>%X\<close> and \<open>%x\<close> on byte slices, and \<open>%v\<close> on numbers and byte slices.\<close>

definition digit_chr :: "nat \<Rightarrow> char" where
  "digit_chr d = (if d < 10 then char_of (48 + d) else char_of (55 + d))"

fun fmt_d :: "nat \<Rightarrow> string" where
  "fmt_d n = (if n < 10 then [digit_chr n] else fmt_d (n div 10) @ [digit_chr (n mod 10)])"

declare fmt_d.simps [simp del]

definition hex_byte :: "byte \<Rightarrow> string" where
  "hex_byte b = [digit_chr (unat b div 16), digit_chr (unat b mod 16)]"

definition fmt_X :: "slice \<Rightarrow> string" where
  "fmt_X s = concat (map hex_byte (sl s))"

definition lower_hex :: "char \<Rightarrow> char" where
  "lower_hex c = (if c \<in> set ''ABCDEF'' then char_of (of_char c + 32 :: nat) else c)"

definition fmt_x :: "slice \<Rightarrow> string" where
  "fmt_x s = map lower_hex (fmt_X s)"

definition fmt_v_int :: "int \<Rightarrow> string" where
  "fmt_v_int n = (if n < 0 then ''-'' else []) @ fmt_d (nat \<bar>n\<bar>)"

text \<open>\<open>string(bz)\<close>: the bytes of a slice as a string.\<close>

definition string_of :: "slice \<Rightarrow> string" where
  "string_of s = map (\<lambda>b. char_of (unat b)) (sl s)"

section \<open>Packages strings and path/filepath\<close>

fun strings_Join :: "string list \<Rightarrow> string \<Rightarrow> string" where
  "strings_Join [] sep = []"
| "strings_Join [w] sep = w"
| "strings_Join (w # ws) sep = w @ sep @ strings_Join ws sep"

definition fmt_v_bytes :: "slice \<Rightarrow> string" where
  "fmt_v_bytes s = ''['' @ strings_Join (map (\<lambda>b. fmt_d (unat b)) (sl s)) '' '' @ '']''"

text \<open>
  \<open>filepath.Clean\<close> and \<open>filepath.Join\<close> on a system whose separator is the slash: the path is
  read component by component; the result so far is kept with its last component first.
\<close>

fun path_split :: "string \<Rightarrow> string list" where
  "path_split [] = [[]]"
| "path_split (c # cs) =
     (if c = CHR ''/'' then [] # path_split cs
      else case path_split cs of [] \<Rightarrow> [[c]] | w # ws \<Rightarrow> (c # w) # ws)"

definition path_step :: "bool \<Rightarrow> string \<Rightarrow> string list \<Rightarrow> string list" where
  "path_step rooted w out =
     (if w = [] \<or> w = ''.'' then out
      else if w = ''..'' then
        (case out of [] \<Rightarrow> if rooted then [] else [w] | v # rest \<Rightarrow> if v = ''..'' then w # out else rest)
      else w # out)"

definition filepath_Clean :: "string \<Rightarrow> string" where
  "filepath_Clean path =
     (if path = [] then ''.''
      else let rooted = (hd path = CHR ''/'');
               body = strings_Join (rev (fold (path_step rooted) (path_split path) [])) ''/''
        in if rooted then CHR ''/'' # body else if body = [] then ''.'' else body)"

definition filepath_Join :: "string list \<Rightarrow> string" where
  "filepath_Join elems =
     (let ws = dropWhile (\<lambda>w. w = []) elems in if ws = [] then [] else filepath_Clean (strings_Join ws ''/''))"

section \<open>Lemmas on results\<close>

lemma bindR_simps [simp]:
  "bindR (Ret a) f = f a" "bindR (Panic e) f = Panic e" "bindR None f = None"
  by (simp_all add: bindR_def)

lemma bindR_assoc: "bindR (bindR r f) g = bindR r (\<lambda>x. bindR (f x) g)"
  by (cases r; cases "the r") simp_all

lemma bindR_Ret: "bindR r Ret = r"
  by (cases r; cases "the r") simp_all

lemma bindR_mono [partial_function_mono]:
  assumes "mono_option B" and "\<And>y. mono_option (\<lambda>f. C y f)"
  shows "mono_option (\<lambda>f. bindR (B f) (\<lambda>y. C y f))"
proof -
  have "mono_option (\<lambda>f. case x of Inl e \<Rightarrow> Panic e | Inr a \<Rightarrow> C a f)" for x
    by (cases x) (simp_all add: assms(2) option.const_mono)
  then show ?thesis unfolding bindR_def by (rule bind_mono [OF assms(1)])
qed

section \<open>Lemmas on slices\<close>

lemma sl_None [simp, slice_simps]: "sl None = []"
  by (simp add: sl_def)

lemma sl_Some [simp, slice_simps]: "sl (Some xs) = xs"
  by (simp add: sl_def)

lemma len_None [simp, slice_simps]: "len None = 0"
  by (simp add: len_def)

lemma len_Some [simp, slice_simps]: "len (Some xs) = length xs"
  by (simp add: len_def)

lemma blank_None [simp, slice_simps]: "\<not> blank None"
  by (simp add: blank_def)

lemma blank_Some [simp, slice_simps]: "blank (Some xs) \<longleftrightarrow> xs = []"
  by (simp add: blank_def)

lemma len_pos_Some: "len s \<noteq> 0 \<Longrightarrow> \<exists>xs. s = Some xs \<and> xs \<noteq> []"
  by (cases s) auto

lemma len_0_sl [slice_simps]: "len s = 0 \<longleftrightarrow> sl s = []"
  by (simp add: len_def)

section \<open>bytes.Compare is the lexicographic order\<close>

lemma compare_bytes_range: "compare_bytes xs ys \<in> {-1, 0, 1}"
  by (induction xs ys rule: compare_bytes.induct) auto

lemma compare_bytes_less: "compare_bytes xs ys = -1 \<longleftrightarrow> xs < ys"
  by (induction xs ys rule: compare_bytes.induct) (auto simp: not_less_iff_gr_or_eq)

lemma compare_bytes_eq: "compare_bytes xs ys = 0 \<longleftrightarrow> xs = ys"
  by (induction xs ys rule: compare_bytes.induct) auto

lemma compare_bytes_neg: "compare_bytes xs ys < 0 \<longleftrightarrow> xs < ys"
  using compare_bytes_range [of xs ys] compare_bytes_less [of xs ys] by auto

lemma compare_bytes_le: "compare_bytes xs ys \<le> 0 \<longleftrightarrow> xs \<le> ys"
  using compare_bytes_neg [of xs ys] compare_bytes_eq [of xs ys] by (auto simp: le_less)

lemma bytes_Compare_less [slice_simps]: "bytes_Compare a b = -1 \<longleftrightarrow> sl a < sl b"
  by (simp add: bytes_Compare_def compare_bytes_less)

lemma bytes_Compare_neg [slice_simps]: "bytes_Compare a b < 0 \<longleftrightarrow> sl a < sl b"
  by (simp add: bytes_Compare_def compare_bytes_neg)

lemma bytes_Compare_le [slice_simps]: "bytes_Compare a b \<le> 0 \<longleftrightarrow> sl a \<le> sl b"
  by (simp add: bytes_Compare_def compare_bytes_le)

lemma bytes_Compare_ge [slice_simps]: "0 \<le> bytes_Compare a b \<longleftrightarrow> sl b \<le> sl a"
  using bytes_Compare_neg [of a b] by (simp add: linorder_not_less [symmetric])

lemma bytes_Equal_iff [slice_simps]: "bytes_Equal a b \<longleftrightarrow> sl a = sl b"
  by (simp add: bytes_Equal_def)

lemma bytes_HasPrefix_iff [slice_simps]: "bytes_HasPrefix s p \<longleftrightarrow> prefix (sl p) (sl s)"
  by (auto simp: bytes_HasPrefix_def len_def prefix_def) (metis append_take_drop_id)

section \<open>Prefixes and the lexicographic order\<close>

lemma append_less_append [simp]: "(p @ xs < p @ ys) \<longleftrightarrow> (xs :: 'a::linorder list) < ys"
  by (induction p) auto

lemma append_le_append [simp]: "(p @ xs \<le> p @ ys) \<longleftrightarrow> (xs :: 'a::linorder list) \<le> ys"
  by (auto simp: le_less)

lemma prefix_le: "prefix (p :: 'a::linorder list) k \<Longrightarrow> p \<le> k"
  by (auto simp: prefix_def) (metis append_Nil2 append_le_append Nil_le_Cons)

text \<open>Everything between a prefix and an extension of it carries the prefix.\<close>

lemma prefix_between:
  "(p :: 'a::linorder list) \<le> k \<Longrightarrow> k < p @ e \<Longrightarrow> prefix p k"
proof (induction p arbitrary: k)
  case (Cons x p)
  then show ?case by (cases k) auto
qed simp

lemma Nil_less [simp]: "([] :: 'a::linorder list) < xs \<longleftrightarrow> xs \<noteq> []"
  by (cases xs) auto

section \<open>Lists sorted by a strict order\<close>

lemma takeWhile_filter_sorted:
  assumes "sorted_wrt R xs" and "\<And>x y. R x y \<Longrightarrow> P y \<Longrightarrow> P x"
  shows "takeWhile P xs = filter P xs"
  using assms(1)
proof (induction xs)
  case (Cons x xs)
  show ?case
  proof (cases "P x")
    case False
    then have "\<not> P y" if "y \<in> set xs" for y
      using that Cons.prems assms(2) [of x y] by auto
    then have "filter P xs = []" by (simp add: filter_empty_conv)
    then show ?thesis using False by simp
  qed (use Cons in auto)
qed simp

end
