(* ===== verification/Util.thy ===== *)
theory Util
  imports Prelude
begin

text \<open>
  \<open>util.go\<close>: copying and incrementing byte slices and the test whether a key lies in an
  iteration domain. The main results are the arithmetic meaning of \<open>cpIncr\<close> and the exact
  set of keys in the half-open range from a prefix to its increment, which
  \<open>IteratePrefix\<close> and \<open>PrefixDB\<close> use as the range of the keys that carry the prefix.
\<close>

section \<open>Definitions\<close>

text \<open>\<open>cp\<close> never returns nil: \<open>make\<close> gives a slice even for length 0.\<close>

definition cp :: "slice \<Rightarrow> slice" where
  "cp bz = Some (sl bz)"

text \<open>
  The loop of \<open>cpIncr\<close>. The second argument is the index \<open>i\<close> plus one, so that the exit
  of the loop at \<open>i < 0\<close> is the argument 0.
\<close>

fun cpIncr_loop :: "byte list \<Rightarrow> nat \<Rightarrow> slice" where
  "cpIncr_loop ret 0 = None"
| "cpIncr_loop ret (Suc i) =
     (if ret ! i < 0xFF then Some (ret[i := ret ! i + 1])
      else let ret' = ret[i := 0x00] in
        if i = 0 then None else cpIncr_loop ret' i)"

definition cpIncr :: "slice \<Rightarrow> slice res" where
  "cpIncr bz =
     (if len bz = 0 then Panic ''cpIncr expects non-zero bz length''
      else Ret (cpIncr_loop (sl (cp bz)) (len bz)))"

definition IsKeyInDomain :: "slice \<Rightarrow> slice \<Rightarrow> slice \<Rightarrow> bool" where
  "IsKeyInDomain key start end' =
     (if bytes_Compare key start < 0 then False
      else if end' \<noteq> None \<and> bytes_Compare end' key \<le> 0 then False
      else True)"

text \<open>
  \<open>FileExists\<close>: the file system is an argument, \<open>os_Stat\<close> giving the error of \<open>os.Stat\<close> and
  \<open>os_IsNotExist\<close> the classification of errors that package \<open>os\<close> defines.
\<close>

definition FileExists :: "(string \<Rightarrow> 'e option) \<Rightarrow> ('e option \<Rightarrow> bool) \<Rightarrow> string \<Rightarrow> bool" where
  "FileExists os_Stat os_IsNotExist filePath = (\<not> os_IsNotExist (os_Stat filePath))"

text \<open>Big-endian value of a byte list, the reference for \<open>cpIncr\<close>.\<close>

fun be_val :: "byte list \<Rightarrow> nat" where
  "be_val [] = 0"
| "be_val (b # bs) = unat b * 256 ^ length bs + be_val bs"

text \<open>
  The shape of an increment: the last byte below 0xFF is raised and the 0xFF bytes after it
  become 0. \<open>trail\<close> counts these bytes.
\<close>

definition trail :: "byte list \<Rightarrow> nat" where
  "trail p = length (takeWhile (\<lambda>b. b = 0xFF) (rev p))"

definition incr_head :: "byte list \<Rightarrow> byte list" where
  "incr_head p = (let q = take (length p - trail p) p in butlast q @ [last q + 1])"

text \<open>
  A key that lies below the increment without carrying the prefix: the raised head followed
  by fewer zeros than the increment has. There is none when the increment overflows.
\<close>

definition gap_key :: "byte list \<Rightarrow> byte list \<Rightarrow> bool" where
  "gap_key p k \<longleftrightarrow> (\<exists>b\<in>set p. b \<noteq> 0xFF) \<and>
     k \<in> set (map (\<lambda>j. incr_head p @ replicate j 0) [0..<trail p])"

section \<open>Lemmas\<close>

lemma cp_simps [simp]: "cp bz = Some (sl bz)"
  by (simp add: cp_def)

lemma byte_le_max: "(b :: byte) \<le> 0xFF"
proof -
  have "unat b < 256" using unsigned_less [of b] by simp
  then show ?thesis by (simp add: word_le_nat_alt)
qed

lemma byte_less_max: "(b :: byte) < 0xFF \<longleftrightarrow> b \<noteq> 0xFF"
  using byte_le_max [of b] by (auto simp: le_less)

lemma unat_byte_incr: "b \<noteq> 0xFF \<Longrightarrow> unat (b + 1 :: byte) = unat b + 1"
proof -
  assume "b \<noteq> 0xFF"
  then have "unat b < 255"
    using byte_less_max [of b] by (simp add: word_less_nat_alt)
  then show ?thesis by (simp add: unat_word_ariths)
qed

lemma byte_less_incr: "b \<noteq> 0xFF \<Longrightarrow> ((c :: byte) < b + 1 \<longleftrightarrow> c \<le> b)"
  by (auto simp: word_less_nat_alt word_le_nat_alt unat_byte_incr)

subsection \<open>The increment of a byte list\<close>

lemma trail_Nil [simp]: "trail [] = 0"
  by (simp add: trail_def)

lemma trail_snoc [simp]: "trail (xs @ [b]) = (if b = 0xFF then Suc (trail xs) else 0)"
  by (simp add: trail_def)

lemma trail_le: "trail xs \<le> length xs"
  by (metis length_rev length_takeWhile_le trail_def)

lemma incr_head_snoc [simp]:
  "incr_head (xs @ [b]) = (if b = 0xFF then incr_head xs else xs @ [b + 1])"
proof (cases "b = 0xFF")
  case True
  then have "take (length (xs @ [b]) - trail (xs @ [b])) (xs @ [b]) = take (length xs - trail xs) xs"
    by simp
  then show ?thesis using True by (simp add: incr_head_def Let_def)
qed (simp add: incr_head_def)

lemma decompose_trail:
  "\<exists>b\<in>set p. b \<noteq> 0xFF \<Longrightarrow>
     \<exists>q b. b \<noteq> 0xFF \<and> p = q @ b # replicate (trail p) 0xFF \<and> incr_head p = q @ [b + 1]"
proof (induction p rule: rev_induct)
  case (snoc c p)
  show ?case
  proof (cases "c = 0xFF")
    case True
    with snoc obtain q b where "b \<noteq> 0xFF" "p = q @ b # replicate (trail p) 0xFF"
      "incr_head p = q @ [b + 1]" by auto
    then have "p @ [c] = q @ b # replicate (trail (p @ [c])) 0xFF"
      using True by (metis append_Cons append_assoc replicate_append_same trail_snoc replicate_Suc)
    moreover have "incr_head (p @ [c]) = q @ [b + 1]"
      using True \<open>incr_head p = q @ [b + 1]\<close> by simp
    ultimately show ?thesis using \<open>b \<noteq> 0xFF\<close> by blast
  qed auto
qed simp

lemma cpIncr_loop_eq:
  "cpIncr_loop (xs @ zs) (length xs) =
     (if \<forall>b\<in>set xs. b = 0xFF then None
      else Some (incr_head xs @ replicate (trail xs) 0 @ zs))"
proof (induction xs arbitrary: zs rule: rev_induct)
  case (snoc b xs)
  show ?case
  proof (cases "b = 0xFF")
    case True
    have "cpIncr_loop ((xs @ [b]) @ zs) (length (xs @ [b])) =
        (if xs = [] then None else cpIncr_loop (xs @ 0 # zs) (length xs))"
      using True by (simp add: list_update_append byte_less_max Let_def)
    then show ?thesis using snoc.IH [of "0 # zs"] True
      by (simp add: replicate_append_same replicate_app_Cons_same)
  qed (simp add: byte_less_max list_update_append)
qed simp

lemma cpIncr_eq:
  "p \<noteq> [] \<Longrightarrow> cpIncr (Some p) =
     Ret (if \<forall>b\<in>set p. b = 0xFF then None else Some (incr_head p @ replicate (trail p) 0))"
  using cpIncr_loop_eq [of p "[]"] by (auto simp: cpIncr_def)

lemma cpIncr_sl: "len s \<noteq> 0 \<Longrightarrow> cpIncr s = cpIncr (Some (sl s))"
  by (cases s) auto

lemma cpIncr_empty [simp]: "len s = 0 \<Longrightarrow> cpIncr s = Panic ''cpIncr expects non-zero bz length''"
  by (simp add: cpIncr_def)

subsection \<open>The keys between a prefix and its increment\<close>

lemma replicate_max_le: "replicate n (0xFF :: byte) \<le> ks \<longleftrightarrow> prefix (replicate n 0xFF) ks"
proof (induction n arbitrary: ks)
  case (Suc n)
  show ?case
  proof (cases ks)
    case (Cons c cs)
    then show ?thesis using Suc [of cs] byte_le_max [of c]
      by (auto simp: le_less not_less)
  qed simp
qed simp

lemma less_replicate_zero:
  "ks < replicate n (0 :: byte) \<longleftrightarrow> (\<exists>j<n. ks = replicate j 0)"
proof (induction n arbitrary: ks)
  case (Suc n)
  show ?case
  proof (cases ks)
    case Nil
    then show ?thesis by (auto intro: exI [of _ 0])
  next
    case (Cons c cs)
    have "(\<exists>j<Suc n. c # cs = replicate j 0) \<longleftrightarrow> c = 0 \<and> (\<exists>j<n. cs = replicate j 0)"
      by (auto simp: Cons_replicate_eq)
    then show ?thesis using Cons Suc [of cs] by simp
  qed
qed simp

lemma incr_range_aux:
  assumes "(b :: byte) \<noteq> 0xFF"
  shows "q @ b # replicate n 0xFF \<le> k \<and> k < q @ (b + 1) # replicate n 0 \<longleftrightarrow>
     prefix (q @ b # replicate n 0xFF) k \<or> (\<exists>j<n. k = q @ (b + 1) # replicate j 0)"
proof (induction q arbitrary: k)
  case Nil
  show ?case
  proof (cases k)
    case (Cons c cs)
    have "b < b + 1" using byte_less_incr [OF assms, of b] by simp
    then show ?thesis
      using Cons byte_less_incr [OF assms, of c] replicate_max_le [of n cs] less_replicate_zero [of cs n]
      by (auto simp: le_less)
  qed simp
next
  case (Cons x q)
  then show ?case by (cases k) auto
qed

lemma incr_range:
  assumes "\<exists>b\<in>set p. b \<noteq> 0xFF"
  shows "p \<le> k \<and> k < incr_head p @ replicate (trail p) 0 \<longleftrightarrow> prefix p k \<or> gap_key p k"
proof -
  obtain q b where qb: "b \<noteq> 0xFF" "p = q @ b # replicate (trail p) 0xFF" "incr_head p = q @ [b + 1]"
    using decompose_trail [OF assms] by blast
  show ?thesis
    using incr_range_aux [OF qb(1), of q "trail p" k] qb(2,3) assms
    by (auto simp: gap_key_def)
qed

lemma all_max_range:
  assumes "\<forall>b\<in>set p. b = (0xFF :: byte)"
  shows "p \<le> k \<longleftrightarrow> prefix p k"
  using replicate_max_le [of "length p" k] assms by (metis replicate_eqI)

lemma gap_key_trail: "trail p = 0 \<Longrightarrow> \<not> gap_key p k"
  by (simp add: gap_key_def)

lemma gap_key_all_max: "\<forall>b\<in>set p. b = 0xFF \<Longrightarrow> \<not> gap_key p k"
  by (auto simp: gap_key_def)

lemma gap_key_not_prefix: "gap_key p k \<Longrightarrow> \<not> prefix p k"
proof
  assume g: "gap_key p k" and "prefix p k"
  then have "\<exists>b\<in>set p. b \<noteq> 0xFF" by (simp add: gap_key_def)
  then obtain q b where qb: "b \<noteq> 0xFF" "p = q @ b # replicate (trail p) 0xFF"
      "incr_head p = q @ [b + 1]"
    using decompose_trail by blast
  from g qb(3) obtain j where "k = q @ (b + 1) # replicate j 0"
    by (auto simp: gap_key_def)
  with \<open>prefix p k\<close> qb(2) have "b = b + 1"
    by (metis Cons_prefix_Cons same_prefix_prefix)
  then show False by simp
qed

subsection \<open>Domains\<close>

lemma IsKeyInDomain_iff [slice_simps]:
  "IsKeyInDomain key start end' \<longleftrightarrow>
     sl start \<le> sl key \<and> (case end' of None \<Rightarrow> True | Some e \<Rightarrow> sl key < e)"
  by (auto simp: IsKeyInDomain_def bytes_Compare_neg bytes_Compare_le not_less not_le
      split: option.splits)

lemma cpIncr_range:
  assumes "p \<noteq> []" and "cpIncr (Some p) = Ret e"
  shows "IsKeyInDomain (Some k) (Some p) e \<longleftrightarrow> prefix p k \<or> gap_key p k"
proof (cases "\<forall>b\<in>set p. b = 0xFF")
  case True
  then have "e = None" using assms cpIncr_eq [of p] by simp
  then show ?thesis
    using all_max_range [OF True] gap_key_all_max [OF True] by (simp add: IsKeyInDomain_iff)
next
  case False
  then have "e = Some (incr_head p @ replicate (trail p) 0)" using assms cpIncr_eq [of p] by auto
  then show ?thesis using incr_range [of p k] False by (auto simp: IsKeyInDomain_iff)
qed

lemma be_val_append: "be_val (xs @ ys) = be_val xs * 256 ^ length ys + be_val ys"
  by (induction xs) (simp_all add: algebra_simps power_add)

lemma be_val_zeros: "be_val (replicate n 0) = 0"
  by (induction n) auto

lemma be_val_maxs: "be_val (replicate n 0xFF) + 1 = 256 ^ n"
  by (induction n) auto

lemma be_val_incr:
  assumes "\<exists>b\<in>set p. b \<noteq> 0xFF"
  shows "be_val (incr_head p @ replicate (trail p) 0) = be_val p + 1"
proof -
  obtain q b where qb: "b \<noteq> 0xFF" "p = q @ b # replicate (trail p) 0xFF" "incr_head p = q @ [b + 1]"
    using decompose_trail [OF assms] by blast
  let ?n = "trail p"
  have "be_val p + 1 = be_val q * 256 ^ Suc ?n + unat b * 256 ^ ?n + (be_val (replicate ?n 0xFF) + 1)"
    by (subst qb(2)) (simp add: be_val_append)
  also have "\<dots> = be_val q * 256 ^ Suc ?n + (unat b + 1) * 256 ^ ?n"
    by (simp only: be_val_maxs) (simp add: algebra_simps)
  also have "\<dots> = be_val (incr_head p @ replicate ?n 0)"
    unfolding qb(3) be_val_append be_val_zeros by (simp add: unat_byte_incr [OF qb(1)] add_mult_distrib)
  finally show ?thesis by simp
qed

lemma length_incr:
  assumes "\<exists>b\<in>set p. b \<noteq> 0xFF"
  shows "length (incr_head p @ replicate (trail p) 0) = length p"
  using decompose_trail [OF assms]
  by (metis length_append length_Cons length_replicate list.size(3) add_Suc_right add_Suc
      add.right_neutral append.assoc)

section \<open>Properties\<close>

text \<open>
  C15. On every non-empty slice \<open>cpIncr\<close> returns: either a slice of the same length whose
  big-endian value is one more, or nil, and nil exactly when the value is the largest of that
  length.
\<close>

theorem cpIncr_is_increment:
  assumes "bz \<noteq> []"
  shows "(\<exists>q. cpIncr (Some bz) = Ret (Some q) \<and> length q = length bz \<and> be_val q = be_val bz + 1)
    \<or> (cpIncr (Some bz) = Ret None \<and> be_val bz + 1 = 256 ^ length bz)"
proof (cases "\<forall>b\<in>set bz. b = 0xFF")
  case True
  then have "bz = replicate (length bz) 0xFF" by (metis replicate_eqI)
  then have "be_val bz + 1 = 256 ^ length bz" by (metis be_val_maxs)
  then show ?thesis using True cpIncr_eq [OF assms] by simp
next
  case False
  then show ?thesis using cpIncr_eq [OF assms] be_val_incr [of bz] length_incr [of bz] by auto
qed

theorem cpIncr_is_increment_witness:
  "(\<exists>q. cpIncr (Some [1, 0xFF]) = Ret (Some q) \<and> length q = length [1, 0xFF :: byte]
      \<and> be_val q = be_val [1, 0xFF] + 1)
    \<or> (cpIncr (Some [1, 0xFF]) = Ret None \<and> be_val [1, 0xFF] + 1 = 256 ^ length [1, 0xFF :: byte])"
  by (rule cpIncr_is_increment) simp

text \<open>
  C16. The keys of the domain from a non-empty prefix to its increment are the keys that carry
  the prefix and, when the prefix ends in 0xFF bytes, the gap keys, which do not carry it.
\<close>

theorem cpIncr_domain_exact:
  assumes "p \<noteq> []" and "cpIncr (Some p) = Ret e"
  shows "(IsKeyInDomain (Some k) (Some p) e \<longleftrightarrow> prefix p k \<or> gap_key p k)
    \<and> (gap_key p k \<longrightarrow> \<not> prefix p k \<and> last p = 0xFF)"
proof -
  have "last p = 0xFF" if "gap_key p k"
  proof -
    have "trail p \<noteq> 0" using that gap_key_trail by blast
    then show ?thesis using assms(1) by (cases p rule: rev_cases) (auto split: if_splits)
  qed
  then show ?thesis using cpIncr_range [OF assms] gap_key_not_prefix by blast
qed

theorem cpIncr_domain_exact_witness:
  "IsKeyInDomain (Some [2]) (Some [1, 0xFF]) (Some [2, 0]) \<and> gap_key [1, 0xFF] [2]
    \<and> \<not> prefix [1, 0xFF] [2 :: byte] \<and> last [1, 0xFF :: byte] = 0xFF"
proof -
  have "cpIncr (Some [1, 0xFF]) = Ret (Some [2, 0])" by (simp add: cpIncr_def Let_def)
  moreover have "gap_key [1, 0xFF] [2]"
    by (simp add: gap_key_def trail_def incr_head_def)
  ultimately show ?thesis using cpIncr_domain_exact [of "[1, 0xFF]" "Some [2, 0]" "[2]"] by simp
qed

end
