(* ===== verification/Ordered_KV.thy ===== *)
theory Ordered_KV
  imports Util
begin

text \<open>
  The abstract content of a database: the key-value pairs in ascending key order, without
  duplicate keys. The interface contracts and the refinement lemmas of all components are
  stated over these lists; \<open>map_of\<close> turns one into the finite map that the documentation of
  \<open>types.go\<close> describes.
\<close>

section \<open>Definitions\<close>

type_synonym kv = "byte list \<times> byte list"

definition kv_sorted :: "kv list \<Rightarrow> bool" where
  "kv_sorted xs \<longleftrightarrow> sorted_wrt (<) (map fst xs)"

definition kv_set :: "byte list \<Rightarrow> byte list \<Rightarrow> kv list \<Rightarrow> kv list" where
  "kv_set k v xs = filter (\<lambda>x. fst x < k) xs @ (k, v) # filter (\<lambda>x. k < fst x) xs"

definition kv_del :: "byte list \<Rightarrow> kv list \<Rightarrow> kv list" where
  "kv_del k xs = filter (\<lambda>x. fst x \<noteq> k) xs"

text \<open>The pairs of an iteration domain, ascending or descending.\<close>

definition kv_range :: "slice \<Rightarrow> slice \<Rightarrow> kv list \<Rightarrow> kv list" where
  "kv_range start end' xs = filter (\<lambda>x. IsKeyInDomain (Some (fst x)) start end') xs"

definition kv_scan :: "bool \<Rightarrow> slice \<Rightarrow> slice \<Rightarrow> kv list \<Rightarrow> kv list" where
  "kv_scan reverse start end' xs =
     (if reverse then rev (kv_range start end' xs) else kv_range start end' xs)"

text \<open>The writes a batch collects.\<close>

datatype kvop = Put "byte list" "byte list" | Del "byte list"

fun kv_apply :: "kvop \<Rightarrow> kv list \<Rightarrow> kv list" where
  "kv_apply (Put k v) xs = kv_set k v xs"
| "kv_apply (Del k) xs = kv_del k xs"

definition kv_apply_all :: "kvop list \<Rightarrow> kv list \<Rightarrow> kv list" where
  "kv_apply_all ops xs = fold kv_apply ops xs"

fun kvop_key :: "kvop \<Rightarrow> byte list" where
  "kvop_key (Put k v) = k"
| "kvop_key (Del k) = k"

text \<open>A store holds no empty keys.\<close>

definition kv_wf :: "kv list \<Rightarrow> bool" where
  "kv_wf xs \<longleftrightarrow> kv_sorted xs \<and> (\<forall>x\<in>set xs. fst x \<noteq> [])"

section \<open>Lemmas\<close>

lemma kv_sorted_Nil [simp]: "kv_sorted []"
  by (simp add: kv_sorted_def)

lemma kv_sorted_Cons [simp]:
  "kv_sorted (x # xs) \<longleftrightarrow> (\<forall>y\<in>set xs. fst x < fst y) \<and> kv_sorted xs"
  by (auto simp: kv_sorted_def)

lemma kv_sorted_append:
  "kv_sorted (xs @ ys) \<longleftrightarrow> kv_sorted xs \<and> kv_sorted ys \<and> (\<forall>x\<in>set xs. \<forall>y\<in>set ys. fst x < fst y)"
  by (auto simp: kv_sorted_def sorted_wrt_append)

lemma kv_sorted_filter: "kv_sorted xs \<Longrightarrow> kv_sorted (filter P xs)"
  by (induction xs) auto

lemma kv_sorted_distinct: "kv_sorted xs \<Longrightarrow> distinct (map fst xs)"
  by (induction xs) (auto simp: image_iff)

lemma kv_sorted_set [kv_simps]: "kv_sorted xs \<Longrightarrow> kv_sorted (kv_set k v xs)"
  by (auto simp: kv_set_def kv_sorted_append kv_sorted_filter intro: less_trans)

lemma kv_sorted_del [kv_simps]: "kv_sorted xs \<Longrightarrow> kv_sorted (kv_del k xs)"
  by (simp add: kv_del_def kv_sorted_filter)

lemma kv_wf_set [kv_simps]: "kv_wf xs \<Longrightarrow> k \<noteq> [] \<Longrightarrow> kv_wf (kv_set k v xs)"
  by (auto simp: kv_wf_def kv_sorted_set) (auto simp: kv_set_def)

lemma kv_wf_del [kv_simps]: "kv_wf xs \<Longrightarrow> kv_wf (kv_del k xs)"
  by (auto simp: kv_wf_def kv_sorted_del) (auto simp: kv_del_def)

lemma kv_wf_apply_all:
  "kv_wf xs \<Longrightarrow> \<forall>p\<in>set ops. kvop_key p \<noteq> [] \<Longrightarrow> kv_wf (kv_apply_all ops xs)"
proof (induction ops arbitrary: xs)
  case (Cons p ops)
  then have "kv_wf (kv_apply p xs)" by (cases p) (auto simp: kv_simps)
  then show ?case using Cons by (simp add: kv_apply_all_def)
qed (simp add: kv_apply_all_def)

lemma kv_apply_all_Nil [simp]: "kv_apply_all [] xs = xs"
  by (simp add: kv_apply_all_def)

lemma kv_apply_all_Cons [simp]: "kv_apply_all (p # ops) xs = kv_apply_all ops (kv_apply p xs)"
  by (simp add: kv_apply_all_def)

lemma kv_apply_all_append [simp]:
  "kv_apply_all (ops @ ps) xs = kv_apply_all ps (kv_apply_all ops xs)"
  by (simp add: kv_apply_all_def)

lemma map_of_eq_Some_iff_kv: "kv_sorted xs \<Longrightarrow> map_of xs k = Some v \<longleftrightarrow> (k, v) \<in> set xs"
  by (simp add: kv_sorted_distinct map_of_eq_Some_iff)

lemma map_of_set [kv_simps]: "map_of (kv_set k v xs) = (map_of xs)(k \<mapsto> v)"
  if "kv_sorted xs" for xs
proof
  fix a
  have "map_of (kv_set k v xs) a = Some b \<longleftrightarrow> ((map_of xs)(k \<mapsto> v)) a = Some b" for b
    using that kv_sorted_set [OF that, of k v]
    by (auto simp: map_of_eq_Some_iff_kv) (auto simp: kv_set_def map_of_eq_Some_iff_kv)
  then show "map_of (kv_set k v xs) a = ((map_of xs)(k \<mapsto> v)) a"
    by (metis not_Some_eq)
qed

lemma map_of_del [kv_simps]: "map_of (kv_del k xs) = (map_of xs)(k := None)"
  by (induction xs) (auto simp: kv_del_def fun_eq_iff)

lemma set_kv_scan:
  "set (kv_scan r start end' xs) = {x \<in> set xs. IsKeyInDomain (Some (fst x)) start end'}"
  by (auto simp: kv_scan_def kv_range_def)

text \<open>Two sorted lists with the same map are equal: the list is a canonical form.\<close>

lemma kv_sorted_unique:
  assumes "kv_sorted xs" and "kv_sorted ys" and "map_of xs = map_of ys"
  shows "xs = ys"
proof -
  have "set xs = set ys" using assms
    by (auto simp flip: map_of_eq_Some_iff_kv)
  then show ?thesis using assms(1,2)
  proof (induction xs arbitrary: ys)
    case (Cons x xs)
    then obtain y ys' where ys: "ys = y # ys'" by (cases ys) auto
    have "x = y"
    proof (rule ccontr)
      assume "x \<noteq> y"
      then have "fst y < fst x" "fst x < fst y"
        using Cons.prems ys by (metis insert_iff kv_sorted_Cons list.simps(15))+
      then show False by simp
    qed
    moreover have "x \<notin> set xs" "y \<notin> set ys'" using Cons.prems ys by auto
    ultimately have "set xs = set ys'" using Cons.prems ys by auto
    then show ?case using Cons.IH [of ys'] Cons.prems ys \<open>x = y\<close> by simp
  qed simp
qed

end
