(* ===== verification/Interfaces.thy ===== *)
theory Interfaces
  imports Ordered_KV
begin

text \<open>
  \<open>types.go\<close>: the error values and the interfaces \<open>DB\<close>, \<open>Batch\<close> and \<open>Iterator\<close>. An
  interface is a record of its methods over the state of the implementing type; a method that
  mutates its receiver returns the new state. The documented behaviour of the interfaces is
  stated as locales, chiefly \<open>iterator_contract\<close> and \<open>kv_store\<close>; each backend interprets them
  and their clients (the iteration loop, \<open>PrefixDB\<close>, the remote server) use only the laws.
\<close>

section \<open>Errors\<close>

text \<open>
  \<open>Wrap m e\<close> is \<open>fmt.Errorf\<close> with verb \<open>%w\<close>, \<open>ErrorString m\<close> an error made from a message
  alone, \<open>Foreign m\<close> an error value of a package that is not part of the repository.
\<close>

datatype error =
    errBatchClosed
  | errKeyEmpty
  | errValueNil
  | Wrap string error
  | ErrorString string
  | Foreign string

section \<open>The interfaces\<close>

record 'i Iterator =
  I_Domain :: "'i \<Rightarrow> slice \<times> slice"
  I_Valid :: "'i \<Rightarrow> (bool \<times> 'i) res"
  I_Next :: "'i \<Rightarrow> 'i res"
  I_Key :: "'i \<Rightarrow> (slice \<times> 'i) res"
  I_Value :: "'i \<Rightarrow> (slice \<times> 'i) res"
  I_Error :: "'i \<Rightarrow> error option"
  I_Close :: "'i \<Rightarrow> 'i \<times> error option"

text \<open>A batch holds a reference to its database, so the write methods take both states.\<close>

record ('s, 'b) Batch =
  B_Set :: "'b \<Rightarrow> slice \<Rightarrow> slice \<Rightarrow> 'b \<times> error option"
  B_Delete :: "'b \<Rightarrow> slice \<Rightarrow> 'b \<times> error option"
  B_Write :: "'b \<Rightarrow> 's \<Rightarrow> 'b \<times> 's \<times> error option"
  B_WriteSync :: "'b \<Rightarrow> 's \<Rightarrow> 'b \<times> 's \<times> error option"
  B_Close :: "'b \<Rightarrow> 'b \<times> error option"

text \<open>
  \<open>Print\<close> returns the text it writes to standard output. The last two fields are the method
  tables of the iterator and batch types that the database hands out.
\<close>

record ('s, 'i, 'b) DB =
  D_Get :: "'s \<Rightarrow> slice \<Rightarrow> slice \<times> error option"
  D_Has :: "'s \<Rightarrow> slice \<Rightarrow> bool \<times> error option"
  D_Set :: "'s \<Rightarrow> slice \<Rightarrow> slice \<Rightarrow> 's \<times> error option"
  D_SetSync :: "'s \<Rightarrow> slice \<Rightarrow> slice \<Rightarrow> 's \<times> error option"
  D_Delete :: "'s \<Rightarrow> slice \<Rightarrow> 's \<times> error option"
  D_DeleteSync :: "'s \<Rightarrow> slice \<Rightarrow> 's \<times> error option"
  D_Iterator :: "'s \<Rightarrow> slice \<Rightarrow> slice \<Rightarrow> ('i option \<times> error option) res"
  D_ReverseIterator :: "'s \<Rightarrow> slice \<Rightarrow> slice \<Rightarrow> ('i option \<times> error option) res"
  D_Close :: "'s \<Rightarrow> 's \<times> error option"
  D_NewBatch :: "'s \<Rightarrow> 'b"
  D_Print :: "'s \<Rightarrow> (string \<times> error option) res"
  D_Stats :: "'s \<Rightarrow> strmap"
  D_itr :: "'i Iterator"
  D_bat :: "('s, 'b) Batch"

text \<open>
  The loop of the documented usage of an iterator:
  \<^verbatim>\<open>for ; itr.Valid(); itr.Next() { k, v := itr.Key(), itr.Value(); ... }\<close>.
  It may run for ever on an iterator that breaks its contract.
\<close>

partial_function (option) iter_loop ::
  "'i Iterator \<Rightarrow> 'i \<Rightarrow> (slice \<times> slice) list \<Rightarrow> ((slice \<times> slice) list \<times> 'i) res" where
  "iter_loop it i acc =
     bindR (I_Valid it i) (\<lambda>(valid, i).
       if \<not> valid then Ret (acc, i)
       else bindR (I_Key it i) (\<lambda>(k, i).
         bindR (I_Value it i) (\<lambda>(v, i).
           bindR (I_Next it i) (\<lambda>i. iter_loop it i (acc @ [(k, v)])))))"

text \<open>
  A call of a client, for statements about arbitrary sequences of calls: reads, writes, a
  whole scan by the loop above, and the life of a batch from its creation to its write.
\<close>

datatype bcall = BSet slice slice | BDelete slice

datatype call =
    CGet slice
  | CHas slice
  | CSet bool slice slice
  | CDelete bool slice
  | CScan bool slice slice
  | CBatch bool "bcall list"

datatype answer =
    AGet slice "error option"
  | AHas bool "error option"
  | AErr "error option"
  | AScan "(slice \<times> slice) list" "error option"
  | ABatch "error option list" "error option"

fun batch_call :: "('s, 'b) Batch \<Rightarrow> 'b \<Rightarrow> bcall \<Rightarrow> 'b \<times> error option" where
  "batch_call bat b (BSet k v) = B_Set bat b k v"
| "batch_call bat b (BDelete k) = B_Delete bat b k"

fun batch_calls :: "('s, 'b) Batch \<Rightarrow> 'b \<Rightarrow> bcall list \<Rightarrow> 'b \<times> error option list" where
  "batch_calls bat b [] = (b, [])"
| "batch_calls bat b (c # cs) =
     (let (b1, e) = batch_call bat b c; (b2, es) = batch_calls bat b1 cs in (b2, e # es))"

fun db_call :: "('s, 'i, 'b) DB \<Rightarrow> 's \<Rightarrow> call \<Rightarrow> ('s \<times> answer) res" where
  "db_call db s (CGet k) = (let (v, e) = D_Get db s k in Ret (s, AGet v e))"
| "db_call db s (CHas k) = (let (b, e) = D_Has db s k in Ret (s, AHas b e))"
| "db_call db s (CSet sync k v) =
     (let (s', e) = (if sync then D_SetSync db s k v else D_Set db s k v) in Ret (s', AErr e))"
| "db_call db s (CDelete sync k) =
     (let (s', e) = (if sync then D_DeleteSync db s k else D_Delete db s k) in Ret (s', AErr e))"
| "db_call db s (CScan reverse start end') =
     bindR (if reverse then D_ReverseIterator db s start end' else D_Iterator db s start end')
       (\<lambda>(itr, e). case itr of
          None \<Rightarrow> Ret (s, AScan [] e)
        | Some i \<Rightarrow> bindR (iter_loop (D_itr db) i [])
            (\<lambda>(xs, i). Ret (s, AScan xs (I_Error (D_itr db) i))))"
| "db_call db s (CBatch sync cs) =
     (let (b, es) = batch_calls (D_bat db) (D_NewBatch db s) cs;
          (b', s', e) = (if sync then B_WriteSync (D_bat db) b s else B_Write (D_bat db) b s)
      in Ret (s', ABatch es e))"

fun db_calls :: "('s, 'i, 'b) DB \<Rightarrow> 's \<Rightarrow> call list \<Rightarrow> ('s \<times> answer list) res" where
  "db_calls db s [] = Ret (s, [])"
| "db_calls db s (c # cs) =
     bindR (db_call db s c) (\<lambda>(s, a). bindR (db_calls db s cs) (\<lambda>(s, as). Ret (s, a # as)))"

text \<open>The line that the \<open>Print\<close> methods write for a pair: \<^verbatim>\<open>"[%X]:\t[%X]\n"\<close>.\<close>

definition print_pair :: "slice \<times> slice \<Rightarrow> string" where
  "print_pair p = ''['' @ fmt_X (fst p) @ '']:'' @ [CHR 0x09] @ ''['' @ fmt_X (snd p) @ '']'' @ [CHR 0x0A]"

section \<open>The documented behaviour\<close>

text \<open>
  What a write with these arguments answers: keys cannot be empty, values cannot be nil.
\<close>

definition set_error :: "slice \<Rightarrow> slice \<Rightarrow> error option" where
  "set_error key value' =
     (if len key = 0 then Some errKeyEmpty else if value' = None then Some errValueNil else None)"

definition key_error :: "slice \<Rightarrow> error option" where
  "key_error key = (if len key = 0 then Some errKeyEmpty else None)"

definition domain_error :: "slice \<Rightarrow> slice \<Rightarrow> error option" where
  "domain_error start end' = (if blank start \<or> blank end' then Some errKeyEmpty else None)"

text \<open>
  A batch answers the argument errors first, then \<open>errBatchClosed\<close>. The state of a batch is
  the list of its writes, \<open>None\<close> once written or closed.
\<close>

definition batch_error :: "error option \<Rightarrow> kvop list option \<Rightarrow> error option" where
  "batch_error arg ops =
     (if arg \<noteq> None then arg else if ops = None then Some errBatchClosed else None)"

definition batch_add :: "kvop list option \<Rightarrow> kvop \<Rightarrow> kvop list option" where
  "batch_add ops p = map_option (\<lambda>xs. xs @ [p]) ops"

text \<open>
  The reference: what each call answers and does on the ordered list of pairs alone.
\<close>

fun spec_batch_call :: "bcall \<Rightarrow> error option \<times> kvop" where
  "spec_batch_call (BSet k v) = (set_error k v, Put (sl k) (sl v))"
| "spec_batch_call (BDelete k) = (key_error k, Del (sl k))"

text \<open>The writes that a batch accepts of a sequence of calls.\<close>

definition accepted :: "bcall list \<Rightarrow> kvop list" where
  "accepted cs = map snd (filter (\<lambda>r. fst r = None) (map spec_batch_call cs))"

fun spec_call :: "kv list \<Rightarrow> call \<Rightarrow> kv list \<times> answer" where
  "spec_call m (CGet k) =
     (m, if len k = 0 then AGet None (Some errKeyEmpty) else AGet (map_of m (sl k)) None)"
| "spec_call m (CHas k) =
     (m, if len k = 0 then AHas False (Some errKeyEmpty) else AHas (map_of m (sl k) \<noteq> None) None)"
| "spec_call m (CSet sync k v) =
     (if set_error k v = None then kv_set (sl k) (sl v) m else m, AErr (set_error k v))"
| "spec_call m (CDelete sync k) =
     (if key_error k = None then kv_del (sl k) m else m, AErr (key_error k))"
| "spec_call m (CScan reverse start end') =
     (m, if domain_error start end' \<noteq> None then AScan [] (domain_error start end')
         else AScan (map (\<lambda>(k, v). (Some k, Some v)) (kv_scan reverse start end' m)) None)"
| "spec_call m (CBatch sync cs) =
     (kv_apply_all (accepted cs) m, ABatch (map (fst \<circ> spec_batch_call) cs) None)"

fun spec_calls :: "kv list \<Rightarrow> call list \<Rightarrow> kv list \<times> answer list" where
  "spec_calls m [] = (m, [])"
| "spec_calls m (c # cs) =
     (let (m1, a) = spec_call m c; (m2, as) = spec_calls m1 cs in (m2, a # as))"

text \<open>
  A backend may bound the size of what it stores: \<open>fits k v\<close> says that it takes the pair. The
  contract speaks about calls whose accepted writes fit; a deletion is a write without a value.
\<close>

definition any_size :: "byte list \<Rightarrow> byte list \<Rightarrow> bool" where
  "any_size k v = True"

definition set_fits :: "(byte list \<Rightarrow> byte list \<Rightarrow> bool) \<Rightarrow> slice \<Rightarrow> slice \<Rightarrow> bool" where
  "set_fits fits key value' \<longleftrightarrow> set_error key value' \<noteq> None \<or> fits (sl key) (sl value')"

definition key_fits :: "(byte list \<Rightarrow> byte list \<Rightarrow> bool) \<Rightarrow> slice \<Rightarrow> bool" where
  "key_fits fits key \<longleftrightarrow> key_error key \<noteq> None \<or> fits (sl key) []"

fun op_fits :: "(byte list \<Rightarrow> byte list \<Rightarrow> bool) \<Rightarrow> kvop \<Rightarrow> bool" where
  "op_fits fits (Put k v) = fits k v"
| "op_fits fits (Del k) = fits k []"

fun call_fits :: "(byte list \<Rightarrow> byte list \<Rightarrow> bool) \<Rightarrow> call \<Rightarrow> bool" where
  "call_fits fits (CSet sync k v) = set_fits fits k v"
| "call_fits fits (CDelete sync k) = key_fits fits k"
| "call_fits fits (CBatch sync cs) = list_all (op_fits fits) (accepted cs)"
| "call_fits fits c = True"

text \<open>
  An iterator that moved from \<open>i\<close> to \<open>i'\<close>, with the pairs \<open>xs\<close> still to come, keeps its
  domain.
\<close>

definition it_moved ::
  "'i Iterator \<Rightarrow> ('i \<Rightarrow> bool) \<Rightarrow> ('i \<Rightarrow> kv list) \<Rightarrow> 'i \<Rightarrow> kv list \<Rightarrow> 'i \<Rightarrow> bool" where
  "it_moved it iok rest i xs i' \<longleftrightarrow> iok i' \<and> rest i' = xs \<and> I_Domain it i' = I_Domain it i"

lemma sorted_scan_pairs:
  assumes "kv_sorted xs"
  shows "sorted_wrt (\<lambda>a b. if r then sl (fst b) < sl (fst a) else sl (fst a) < sl (fst b))
    (map (\<lambda>(k, v). (Some k, Some v)) (kv_scan r start end' xs))"
  using kv_sorted_filter [OF assms]
  by (cases r) (auto simp: kv_scan_def kv_range_def sorted_wrt_map split_beta kv_sorted_def sorted_wrt_rev)

lemma any_size_simps [simp]:
  "any_size k v" "set_fits any_size key value'" "key_fits any_size key" "op_fits any_size p" "call_fits any_size c"
proof -
  show op: "op_fits any_size p" for p by (cases p) (simp_all add: any_size_def)
  show "call_fits any_size c"
    by (cases c) (simp_all add: any_size_def set_fits_def key_fits_def list_all_iff op)
qed (simp_all add: any_size_def set_fits_def key_fits_def)

lemma list_all_any_size [simp]: "list_all (op_fits any_size) ops" "list_all (call_fits any_size) cs"
  by (simp_all add: list_all_iff)

lemma batch_error_open [simp]: "batch_error a (Some ops) = a"
  by (cases a) (simp_all add: batch_error_def)

lemma batch_error_closed [simp]: "batch_error None None = Some errBatchClosed"
  by (simp add: batch_error_def)

lemma batch_add_simps [simp]: "batch_add (Some xs) p = Some (xs @ [p])" "batch_add None p = None"
  by (simp_all add: batch_add_def)

text \<open>
  What the loop needs of an iterator: it stands before the pairs \<open>rest\<close>, and a value with the
  bytes \<open>v\<close> is handed out as the slice \<open>enc v\<close>.
\<close>

locale iterator_walk =
  fixes it :: "'i Iterator"
    and iok :: "'i \<Rightarrow> bool"
    and rest :: "'i \<Rightarrow> kv list"
    and enc :: "byte list \<Rightarrow> slice"
  assumes it_valid: "iok i \<Longrightarrow>
      \<exists>i'. I_Valid it i = Ret (rest i \<noteq> [], i') \<and> it_moved it iok rest i (rest i) i'"
    and it_key: "iok i \<Longrightarrow> rest i = (k, v) # xs \<Longrightarrow>
      \<exists>i'. I_Key it i = Ret (Some k, i') \<and> it_moved it iok rest i (rest i) i'"
    and it_value: "iok i \<Longrightarrow> rest i = (k, v) # xs \<Longrightarrow>
      \<exists>i'. I_Value it i = Ret (enc v, i') \<and> it_moved it iok rest i (rest i) i'"
    and it_next: "iok i \<Longrightarrow> rest i = x # xs \<Longrightarrow>
      \<exists>i'. I_Next it i = Ret i' \<and> it_moved it iok rest i xs i'"
begin

text \<open>The documented loop visits exactly the remaining pairs, in order, and returns.\<close>

lemma iter_loop_rest:
  "iok i \<Longrightarrow> \<exists>i'. iter_loop it i acc =
     Ret (acc @ map (\<lambda>(k, v). (Some k, enc v)) (rest i), i') \<and> it_moved it iok rest i [] i'"
proof (induction "rest i" arbitrary: i acc)
  case Nil
  then show ?case using it_valid [of i] by (auto simp: iter_loop.simps)
next
  case (Cons x xs)
  obtain k v where x: "x = (k, v)" by (cases x)
  have r: "rest i = x # xs" using Cons.hyps(2) by simp
  from Cons.prems r obtain i1 where 1: "I_Valid it i = Ret (True, i1)"
    "it_moved it iok rest i (rest i) i1" using it_valid [of i] by auto
  with r x obtain i2 where 2: "I_Key it i1 = Ret (Some k, i2)"
    "it_moved it iok rest i (rest i) i2" using it_key [of i1 k v xs] by (auto simp: it_moved_def)
  with r x obtain i3 where 3: "I_Value it i2 = Ret (enc v, i3)"
    "it_moved it iok rest i (rest i) i3" using it_value [of i2 k v xs] by (auto simp: it_moved_def)
  with r x obtain i4 where 4: "I_Next it i3 = Ret i4" "it_moved it iok rest i xs i4"
    using it_next [of i3 x xs] by (auto simp: it_moved_def)
  have step: "iter_loop it i acc = iter_loop it i4 (acc @ [(Some k, enc v)])"
    by (subst iter_loop.simps) (simp add: 1 2 3 4)
  from Cons.hyps(1) [of i4 "acc @ [(Some k, enc v)]"] 4(2) obtain i5 where
    "iter_loop it i4 (acc @ [(Some k, enc v)]) =
       Ret ((acc @ [(Some k, enc v)]) @ map (\<lambda>(k, v). (Some k, enc v)) (rest i4), i5)"
    "it_moved it iok rest i4 [] i5"
    by (auto simp: it_moved_def)
  then show ?case using step 4(2) r x by (auto simp: it_moved_def)
qed

end

locale iterator_contract = iterator_walk it iok rest Some
  for it :: "'i Iterator" and iok :: "'i \<Rightarrow> bool" and rest :: "'i \<Rightarrow> kv list" +
  assumes it_key_panics: "iok i \<Longrightarrow> rest i = [] \<Longrightarrow> \<exists>m. I_Key it i = Panic m"
    and it_value_panics: "iok i \<Longrightarrow> rest i = [] \<Longrightarrow> \<exists>m. I_Value it i = Panic m"
    and it_next_panics: "iok i \<Longrightarrow> rest i = [] \<Longrightarrow> \<exists>m. I_Next it i = Panic m"
    and it_error: "iok i \<Longrightarrow> I_Error it i = None"
    and it_close: "iok i \<Longrightarrow> snd (I_Close it i) = None"

text \<open>
  A database that answers each single call as the ordered list does answers every sequence of
  calls so. The calls are those that \<open>call_ok\<close> admits and answers are compared under \<open>view\<close>,
  for the databases that keep less than the whole contract.
\<close>

locale kv_calls =
  fixes db :: "('s, 'i, 'b) DB"
    and ok :: "'s \<Rightarrow> bool"
    and ents :: "'s \<Rightarrow> kv list"
    and call_ok :: "call \<Rightarrow> bool"
    and view :: "answer \<Rightarrow> answer"
  assumes one_call: "ok s \<Longrightarrow> call_ok c \<Longrightarrow>
      \<exists>s' a. db_call db s c = Ret (s', a) \<and> view a = view (snd (spec_call (ents s) c)) \<and> ok s' \<and>
        ents s' = fst (spec_call (ents s) c)"
begin

lemma all_calls:
  "ok s \<Longrightarrow> list_all call_ok cs \<Longrightarrow>
     \<exists>s' as. db_calls db s cs = Ret (s', as) \<and> map view as = map view (snd (spec_calls (ents s) cs)) \<and> ok s' \<and>
       ents s' = fst (spec_calls (ents s) cs)"
proof (induction cs arbitrary: s)
  case (Cons c cs)
  obtain s1 a where 1: "db_call db s c = Ret (s1, a)" "view a = view (snd (spec_call (ents s) c))" "ok s1"
    "ents s1 = fst (spec_call (ents s) c)"
    using one_call [of s c] Cons.prems by auto
  with Cons.IH [OF 1(3)] Cons.prems(2) show ?case by (auto simp: Let_def split_beta)
qed simp

end

text \<open>
  The contract of \<open>DB\<close> has three parts: the calls on the database and the iterators it hands out
  (\<open>kv_db\<close>), the batches (\<open>kv_batch\<close>), and the two together on one content (\<open>kv_store\<close>).
\<close>

locale kv_db = iterator_contract "D_itr db" iok rest
  for db :: "('s, 'i, 'b) DB" and iok :: "'i \<Rightarrow> bool" and rest :: "'i \<Rightarrow> kv list" +
  fixes ok :: "'s \<Rightarrow> bool"
    and ents :: "'s \<Rightarrow> kv list"
    and fits :: "byte list \<Rightarrow> byte list \<Rightarrow> bool"
  assumes ents_wf: "ok s \<Longrightarrow> kv_wf (ents s)"
    and get: "ok s \<Longrightarrow> D_Get db s key =
      (if len key = 0 then (None, Some errKeyEmpty) else (map_of (ents s) (sl key), None))"
    and has: "ok s \<Longrightarrow> D_Has db s key =
      (if len key = 0 then (False, Some errKeyEmpty) else (map_of (ents s) (sl key) \<noteq> None, None))"
    and set: "ok s \<Longrightarrow> set_fits fits key value' \<Longrightarrow> D_Set db s key value' = (s', e) \<Longrightarrow>
      e = set_error key value' \<and> ok s' \<and>
      ents s' = (if e = None then kv_set (sl key) (sl value') (ents s) else ents s)"
    and set_sync: "ok s \<Longrightarrow> set_fits fits key value' \<Longrightarrow> D_SetSync db s key value' = (s', e) \<Longrightarrow>
      e = set_error key value' \<and> ok s' \<and>
      ents s' = (if e = None then kv_set (sl key) (sl value') (ents s) else ents s)"
    and delete: "ok s \<Longrightarrow> key_fits fits key \<Longrightarrow> D_Delete db s key = (s', e) \<Longrightarrow>
      e = key_error key \<and> ok s' \<and>
      ents s' = (if e = None then kv_del (sl key) (ents s) else ents s)"
    and delete_sync: "ok s \<Longrightarrow> key_fits fits key \<Longrightarrow> D_DeleteSync db s key = (s', e) \<Longrightarrow>
      e = key_error key \<and> ok s' \<and>
      ents s' = (if e = None then kv_del (sl key) (ents s) else ents s)"
    and iterator_error: "ok s \<Longrightarrow> domain_error start end' = Some err \<Longrightarrow>
      D_Iterator db s start end' = Ret (None, Some err)"
    and iterator: "ok s \<Longrightarrow> domain_error start end' = None \<Longrightarrow>
      \<exists>i. D_Iterator db s start end' = Ret (Some i, None) \<and> iok i \<and>
        rest i = kv_scan False start end' (ents s) \<and> I_Domain (D_itr db) i = (start, end')"
    and reverse_error: "ok s \<Longrightarrow> domain_error start end' = Some err \<Longrightarrow>
      D_ReverseIterator db s start end' = Ret (None, Some err)"
    and reverse: "ok s \<Longrightarrow> domain_error start end' = None \<Longrightarrow>
      \<exists>i. D_ReverseIterator db s start end' = Ret (Some i, None) \<and> iok i \<and>
        rest i = kv_scan True start end' (ents s) \<and> I_Domain (D_itr db) i = (start, end')"

locale kv_batch =
  fixes bat :: "('s, 'b) Batch"
    and new :: "'s \<Rightarrow> 'b"
    and ok :: "'s \<Rightarrow> bool"
    and ents :: "'s \<Rightarrow> kv list"
    and bok :: "'b \<Rightarrow> bool"
    and bops :: "'b \<Rightarrow> kvop list option"
    and fits :: "byte list \<Rightarrow> byte list \<Rightarrow> bool"
  assumes new_batch: "ok s \<Longrightarrow> bok (new s) \<and> bops (new s) = Some []"
    and batch_set: "bok b \<Longrightarrow> B_Set bat b key value' = (b', e) \<Longrightarrow>
      e = batch_error (set_error key value') (bops b) \<and> bok b' \<and>
      bops b' = (if e = None then batch_add (bops b) (Put (sl key) (sl value')) else bops b)"
    and batch_delete: "bok b \<Longrightarrow> B_Delete bat b key = (b', e) \<Longrightarrow>
      e = batch_error (key_error key) (bops b) \<and> bok b' \<and>
      bops b' = (if e = None then batch_add (bops b) (Del (sl key)) else bops b)"
    and batch_write: "bok b \<Longrightarrow> ok s \<Longrightarrow> pred_option (list_all (op_fits fits)) (bops b) \<Longrightarrow>
      B_Write bat b s = (b', s', e) \<Longrightarrow>
      e = batch_error None (bops b) \<and> bok b' \<and> bops b' = None \<and> ok s' \<and>
      ents s' = (case bops b of None \<Rightarrow> ents s | Some ops \<Rightarrow> kv_apply_all ops (ents s))"
    and batch_write_sync: "bok b \<Longrightarrow> ok s \<Longrightarrow> pred_option (list_all (op_fits fits)) (bops b) \<Longrightarrow>
      B_WriteSync bat b s = (b', s', e) \<Longrightarrow>
      e = batch_error None (bops b) \<and> bok b' \<and> bops b' = None \<and> ok s' \<and>
      ents s' = (case bops b of None \<Rightarrow> ents s | Some ops \<Rightarrow> kv_apply_all ops (ents s))"
    and batch_close: "bok b \<Longrightarrow> B_Close bat b = (b', e) \<Longrightarrow>
      e = None \<and> bok b' \<and> bops b' = None"

locale kv_store = kv_db db iok rest ok ents fits + kv_batch "D_bat db" "D_NewBatch db" ok ents bok bops fits
  for db :: "('s, 'i, 'b) DB" and iok :: "'i \<Rightarrow> bool" and rest :: "'i \<Rightarrow> kv list"
    and ok :: "'s \<Rightarrow> bool" and ents :: "'s \<Rightarrow> kv list"
    and bok :: "'b \<Rightarrow> bool" and bops :: "'b \<Rightarrow> kvop list option"
    and fits :: "byte list \<Rightarrow> byte list \<Rightarrow> bool"
begin

text \<open>A value written is read back; other keys are unaffected.\<close>

lemma get_after_set:
  assumes "ok s" and "set_error key value' = None" and "len key' \<noteq> 0"
    and "fits (sl key) (sl value')" and "D_Set db s key value' = (s', e)"
  shows "D_Get db s' key' = (if sl key' = sl key then Some (sl value') else fst (D_Get db s key'), None)"
  using set [OF assms(1) _ assms(5)] assms(1-4) get [of s' key'] get [of s key'] ents_wf [OF assms(1)]
  by (auto simp: kv_simps kv_wf_def set_fits_def)

lemma get_after_delete:
  assumes "ok s" and "len key \<noteq> 0" and "len key' \<noteq> 0" and "fits (sl key) []"
    and "D_Delete db s key = (s', e)"
  shows "D_Get db s' key' = (if sl key' = sl key then None else fst (D_Get db s key'), None)"
  using delete [OF assms(1) _ assms(5)] assms(1-4) get [of s' key'] get [of s key']
  by (auto simp: kv_simps key_error_def key_fits_def)

lemma has_iff_get: "ok s \<Longrightarrow> fst (D_Has db s key) \<longleftrightarrow> fst (D_Get db s key) \<noteq> None"
  by (simp add: get has)

text \<open>
  The iteration loop over a fresh iterator returns the pairs of the domain, in order: exactly
  the keys that \<open>Get\<close> finds there.
\<close>

lemma scan:
  assumes "ok s" and "domain_error start end' = None"
  shows "\<exists>i i'. (if r then D_ReverseIterator db s start end' else D_Iterator db s start end')
      = Ret (Some i, None) \<and>
    iter_loop (D_itr db) i [] =
      Ret (map (\<lambda>(k, v). (Some k, Some v)) (kv_scan r start end' (ents s)), i') \<and>
    it_moved (D_itr db) iok rest i [] i' \<and> I_Domain (D_itr db) i = (start, end')"
proof -
  obtain i where i: "(if r then D_ReverseIterator db s start end' else D_Iterator db s start end')
      = Ret (Some i, None)" "iok i" "rest i = kv_scan r start end' (ents s)"
    "I_Domain (D_itr db) i = (start, end')"
    using iterator [OF assms] reverse [OF assms] by (cases r) auto
  then show ?thesis using iter_loop_rest [OF i(2), of "[]"] by auto
qed

lemma scan_get:
  assumes "ok s" and "domain_error start end' = None"
  shows "\<exists>i xs i'. (if r then D_ReverseIterator db s start end' else D_Iterator db s start end')
      = Ret (Some i, None) \<and>
    iter_loop (D_itr db) i [] = Ret (xs, i') \<and>
    sorted_wrt (\<lambda>a b. if r then sl (fst b) < sl (fst a) else sl (fst a) < sl (fst b)) xs \<and>
    (\<forall>k v. (k, v) \<in> set xs \<longleftrightarrow>
       k \<noteq> None \<and> v \<noteq> None \<and> D_Get db s k = (v, None) \<and> IsKeyInDomain k start end')"
proof -
  let ?ys = "kv_scan r start end' (ents s)" and ?pair = "\<lambda>(k, v). (Some k, Some v)"
  have wf: "kv_sorted (ents s)" "\<forall>x\<in>set (ents s). fst x \<noteq> []"
    using ents_wf [OF assms(1)] by (auto simp: kv_wf_def)
  have "(k, v) \<in> set (map ?pair ?ys) \<longleftrightarrow>
      k \<noteq> None \<and> v \<noteq> None \<and> D_Get db s k = (v, None) \<and> IsKeyInDomain k start end'" for k v
    using wf get [OF assms(1), of k]
    by (cases k; cases v)
       (force simp: set_kv_scan map_of_eq_Some_iff_kv image_iff split: if_splits)+
  then show ?thesis
    using scan [OF assms, of r] sorted_scan_pairs [OF wf(1), of r start end'] by blast
qed

text \<open>
  The life of a batch: nothing is visible before the write, the write applies the accepted
  calls in order, and afterwards every method but \<open>Close\<close> answers an error and changes
  nothing.
\<close>

lemma closed_batch:
  assumes "bok b" and "bops b = None" and "ok s"
  shows "snd (B_Set (D_bat db) b k v) \<noteq> None" and "snd (B_Delete (D_bat db) b k) \<noteq> None"
    and "B_Write (D_bat db) b s = (b', s', e) \<Longrightarrow> e = Some errBatchClosed \<and> ents s' = ents s"
    and "B_WriteSync (D_bat db) b s = (b', s', e) \<Longrightarrow> e = Some errBatchClosed \<and> ents s' = ents s"
    and "snd (B_Close (D_bat db) b) = None"
proof -
  show "snd (B_Set (D_bat db) b k v) \<noteq> None"
    using batch_set [OF assms(1), of k v] assms(2)
    by (cases "B_Set (D_bat db) b k v") (auto simp: batch_error_def)
  show "snd (B_Delete (D_bat db) b k) \<noteq> None"
    using batch_delete [OF assms(1), of k] assms(2)
    by (cases "B_Delete (D_bat db) b k") (auto simp: batch_error_def)
  show "snd (B_Close (D_bat db) b) = None"
    using batch_close [OF assms(1)] by (cases "B_Close (D_bat db) b") auto
qed (use batch_write [OF assms(1,3)] batch_write_sync [OF assms(1,3)] assms(2) in auto)

text \<open>
  A store that keeps the contract answers every sequence of calls as the ordered list does.
\<close>

lemma batch_calls_spec:
  assumes "bok b" and "bops b = Some ops" and "batch_calls (D_bat db) b cs = (b', es)"
  shows "bok b' \<and> es = map (fst \<circ> spec_batch_call) cs \<and>
    bops b' = Some (ops @ accepted cs)"
  using assms
proof (induction cs arbitrary: b ops es)
  case (Cons c cs)
  obtain b1 e where 1: "batch_call (D_bat db) b c = (b1, e)"
    by (cases "batch_call (D_bat db) b c")
  obtain es' where 2: "batch_calls (D_bat db) b1 cs = (b', es')" and es: "es = e # es'"
    using Cons.prems(3) 1 by (auto simp: Let_def split: prod.splits)
  have "bok b1 \<and> e = fst (spec_batch_call c) \<and>
      bops b1 = (if e = None then Some (ops @ [snd (spec_batch_call c)]) else Some ops)"
    using 1 Cons.prems(1,2)
    by (cases c) (auto dest!: batch_set [OF Cons.prems(1)] batch_delete [OF Cons.prems(1)])
  then show ?case using Cons.IH [of b1 _ es'] 2 es by (cases "e = None") (auto simp: accepted_def)
qed (simp add: accepted_def)

lemma batch_life:
  assumes "ok s" and "list_all (op_fits fits) (accepted cs)"
    and "batch_calls (D_bat db) (D_NewBatch db s) cs = (b, es)"
    and "(if sync then B_WriteSync (D_bat db) b s else B_Write (D_bat db) b s) = (b', s', e)"
  shows "es = map (fst \<circ> spec_batch_call) cs \<and> e = None \<and> ok s' \<and>
    ents s' = kv_apply_all (accepted cs) (ents s) \<and> bok b' \<and> bops b' = None"
  using batch_calls_spec [OF conjunct1 [OF new_batch [OF assms(1)]]
      conjunct2 [OF new_batch [OF assms(1)]] assms(3)]
    assms(1,2,4) batch_write [of b s b' s' e] batch_write_sync [of b s b' s' e]
  by (cases sync) auto

lemma db_call_spec:
  assumes "ok s" and "call_fits fits c"
  shows "\<exists>s'. db_call db s c = Ret (s', snd (spec_call (ents s) c)) \<and> ok s' \<and>
    ents s' = fst (spec_call (ents s) c)"
proof (cases c)
  case (CScan r start end')
  have err: "I_Error (D_itr db) i' = None" if "it_moved (D_itr db) iok rest i [] i'" for i i'
    using that it_error [of i'] by (simp add: it_moved_def)
  show ?thesis
  proof (cases "domain_error start end'")
    case None
    then show ?thesis using CScan assms scan [OF assms(1) None, of r] err by auto
  next
    case (Some e)
    then show ?thesis
      using CScan assms iterator_error [OF assms(1) Some] reverse_error [OF assms(1) Some] by (cases r) auto
  qed
next
  case (CBatch sync cs)
  obtain b es where 1: "batch_calls (D_bat db) (D_NewBatch db s) cs = (b, es)"
    by (cases "batch_calls (D_bat db) (D_NewBatch db s) cs")
  obtain b' s' e where 2: "(if sync then B_WriteSync (D_bat db) b s else B_Write (D_bat db) b s)
      = (b', s', e)" by (cases "if sync then B_WriteSync (D_bat db) b s else B_Write (D_bat db) b s")
  then show ?thesis
    using CBatch 1 assms(2) batch_life [OF assms(1) _ 1 2] by (auto simp: Let_def comp_def split: if_splits)
qed (use assms in \<open>auto simp: get has Let_def split: prod.splits if_splits
       dest!: set [OF assms(1), rotated] set_sync [OF assms(1), rotated] delete [OF assms(1), rotated]
         delete_sync [OF assms(1), rotated]\<close>)

end

sublocale kv_store \<subseteq> calls: kv_calls db ok ents "call_fits fits" "\<lambda>a. a"
  by unfold_locales (use db_call_spec in blast)

context kv_store
begin

lemma db_calls_spec:
  "ok s \<Longrightarrow> list_all (call_fits fits) cs \<Longrightarrow> \<exists>s'. db_calls db s cs = Ret (s', snd (spec_calls (ents s) cs)) \<and> ok s' \<and>
     ents s' = fst (spec_calls (ents s) cs)"
  using calls.all_calls [of s cs] by simp

end

end
