(* ===== verification/MemDB.thy ===== *)
theory MemDB
  imports Interfaces
begin

text \<open>
  \<open>memdb.go\<close>, \<open>memdb_iterator.go\<close> and \<open>memdb_batch.go\<close>: the in-memory database. The B-tree
  of package \<open>github.com/google/btree\<close> is an argument \<open>bt\<close> of the definitions that use it,
  and its documented behaviour is the locale \<open>btree_laws\<close>. Here the methods run one at a
  time, which the read-write mutex of the code ensures; the iterator's goroutine, its
  channel and the mutex are the subject of theory \<open>MemDB_Concurrent\<close>.
\<close>

section \<open>Items and the B-tree they are stored in\<close>

record item =
  item_key :: slice
  item_value :: slice

definition item_Less :: "item \<Rightarrow> item \<Rightarrow> bool" where
  "item_Less i other \<longleftrightarrow> bytes_Compare (item_key i) (item_key other) = -1"

definition newKey :: "slice \<Rightarrow> item" where
  "newKey k = \<lparr>item_key = k, item_value = None\<rparr>"

definition newPair :: "slice \<Rightarrow> slice \<Rightarrow> item" where
  "newPair k v = \<lparr>item_key = k, item_value = v\<rparr>"

text \<open>
  The operations of the B-tree that the code calls. A traversal is given by the items it
  offers to its visitor, in order; the visitor ends it early by answering false.
\<close>

record 't btree_ops =
  bt_New :: "nat \<Rightarrow> 't"
  bt_Get :: "'t \<Rightarrow> item \<Rightarrow> item option"
  bt_Has :: "'t \<Rightarrow> item \<Rightarrow> bool"
  bt_ReplaceOrInsert :: "'t \<Rightarrow> item \<Rightarrow> 't"
  bt_Delete :: "'t \<Rightarrow> item \<Rightarrow> 't"
  bt_Len :: "'t \<Rightarrow> nat"
  bt_Ascend :: "'t \<Rightarrow> item list"
  bt_Descend :: "'t \<Rightarrow> item list"
  bt_AscendGreaterOrEqual :: "'t \<Rightarrow> item \<Rightarrow> item list"
  bt_AscendRange :: "'t \<Rightarrow> item \<Rightarrow> item \<Rightarrow> item list"
  bt_DescendLessOrEqual :: "'t \<Rightarrow> item \<Rightarrow> item list"

section \<open>The database\<close>

record 't MemDB =
  mem_btree :: 't

definition bTreeDegree :: nat where
  "bTreeDegree = 32"

definition NewMemDB :: "'t btree_ops \<Rightarrow> 't MemDB" where
  "NewMemDB bt = \<lparr>mem_btree = bt_New bt bTreeDegree\<rparr>"

definition MemDB_Get :: "'t btree_ops \<Rightarrow> 't MemDB \<Rightarrow> slice \<Rightarrow> slice \<times> error option" where
  "MemDB_Get bt db k =
     (if len k = 0 then (None, Some errKeyEmpty)
      else case bt_Get bt (mem_btree db) (newKey k) of
             Some i \<Rightarrow> (item_value i, None)
           | None \<Rightarrow> (None, None))"

definition MemDB_Has :: "'t btree_ops \<Rightarrow> 't MemDB \<Rightarrow> slice \<Rightarrow> bool \<times> error option" where
  "MemDB_Has bt db k =
     (if len k = 0 then (False, Some errKeyEmpty)
      else (bt_Has bt (mem_btree db) (newKey k), None))"

definition MemDB_set :: "'t btree_ops \<Rightarrow> 't MemDB \<Rightarrow> slice \<Rightarrow> slice \<Rightarrow> 't MemDB" where
  "MemDB_set bt db k v = db\<lparr>mem_btree := bt_ReplaceOrInsert bt (mem_btree db) (newPair k v)\<rparr>"

definition MemDB_Set :: "'t btree_ops \<Rightarrow> 't MemDB \<Rightarrow> slice \<Rightarrow> slice \<Rightarrow> 't MemDB \<times> error option" where
  "MemDB_Set bt db k v =
     (if len k = 0 then (db, Some errKeyEmpty)
      else if v = None then (db, Some errValueNil)
      else (MemDB_set bt db k v, None))"

definition MemDB_SetSync :: "'t btree_ops \<Rightarrow> 't MemDB \<Rightarrow> slice \<Rightarrow> slice \<Rightarrow> 't MemDB \<times> error option" where
  "MemDB_SetSync bt db k v = MemDB_Set bt db k v"

definition MemDB_delete :: "'t btree_ops \<Rightarrow> 't MemDB \<Rightarrow> slice \<Rightarrow> 't MemDB" where
  "MemDB_delete bt db k = db\<lparr>mem_btree := bt_Delete bt (mem_btree db) (newKey k)\<rparr>"

definition MemDB_Delete :: "'t btree_ops \<Rightarrow> 't MemDB \<Rightarrow> slice \<Rightarrow> 't MemDB \<times> error option" where
  "MemDB_Delete bt db k =
     (if len k = 0 then (db, Some errKeyEmpty) else (MemDB_delete bt db k, None))"

definition MemDB_DeleteSync :: "'t btree_ops \<Rightarrow> 't MemDB \<Rightarrow> slice \<Rightarrow> 't MemDB \<times> error option" where
  "MemDB_DeleteSync bt db k = MemDB_Delete bt db k"

definition MemDB_Close :: "'t MemDB \<Rightarrow> 't MemDB \<times> error option" where
  "MemDB_Close db = (db, None)"

definition MemDB_Print :: "'t btree_ops \<Rightarrow> 't MemDB \<Rightarrow> (string \<times> error option) res" where
  "MemDB_Print bt db =
     Ret (concat (map (\<lambda>i. print_pair (item_key i, item_value i)) (bt_Ascend bt (mem_btree db))), None)"

definition MemDB_Stats :: "'t btree_ops \<Rightarrow> 't MemDB \<Rightarrow> strmap" where
  "MemDB_Stats bt db =
     [''database.type'' \<mapsto> ''memDB'', ''database.size'' \<mapsto> fmt_d (bt_Len bt (mem_btree db))]"

section \<open>The iterator\<close>

text \<open>
  What the traversal's visitor does with an item: \<open>Skip\<close> it (and forget \<open>skipEqual\<close>), \<open>Stop\<close>
  the traversal, or \<open>Send\<close> it on the channel.
\<close>

datatype visit = Skip | Stop | Send

definition visitor :: "slice \<Rightarrow> slice \<Rightarrow> item \<Rightarrow> visit" where
  "visitor skipEqual abortLessThan i =
     (if skipEqual \<noteq> None \<and> bytes_Equal (item_key i) skipEqual then Skip
      else if abortLessThan \<noteq> None \<and> bytes_Compare (item_key i) abortLessThan = -1 then Stop
      else Send)"

text \<open>The items that the goroutine sends when nobody cancels it.\<close>

fun visited :: "slice \<Rightarrow> slice \<Rightarrow> item list \<Rightarrow> item list" where
  "visited skipEqual abortLessThan [] = []"
| "visited skipEqual abortLessThan (i # is) =
     (case visitor skipEqual abortLessThan i of
        Skip \<Rightarrow> visited None abortLessThan is
      | Stop \<Rightarrow> []
      | Send \<Rightarrow> i # visited skipEqual abortLessThan is)"

text \<open>
  The switch of the goroutine: the traversal it starts (by the items offered) and the values
  of \<open>skipEqual\<close> and \<open>abortLessThan\<close>.
\<close>

definition traversal ::
  "'t btree_ops \<Rightarrow> 't MemDB \<Rightarrow> slice \<Rightarrow> slice \<Rightarrow> bool \<Rightarrow> item list \<times> slice \<times> slice" where
  "traversal bt db start end' reverse =
     (let t = mem_btree db in
      if start = None \<and> end' = None \<and> \<not> reverse then (bt_Ascend bt t, None, None)
      else if start = None \<and> end' = None \<and> reverse then (bt_Descend bt t, None, None)
      else if end' = None \<and> \<not> reverse then (bt_AscendGreaterOrEqual bt t (newKey start), None, None)
      else if \<not> reverse then (bt_AscendRange bt t (newKey start) (newKey end'), None, None)
      else if end' = None then (bt_Descend bt t, None, start)
      else (bt_DescendLessOrEqual bt t (newKey end'), end', start))"

text \<open>
  The channel is represented by the items still to be received before it is closed. The
  cancel function of the context has no state of its own.
\<close>

record memDBIterator =
  mi_ch :: "item list"
  mi_item :: "item option"
  mi_start :: slice
  mi_end :: slice
  mi_useMtx :: bool

definition newMemDBIteratorMtxChoice ::
  "'t btree_ops \<Rightarrow> 't MemDB \<Rightarrow> slice \<Rightarrow> slice \<Rightarrow> bool \<Rightarrow> bool \<Rightarrow> memDBIterator" where
  "newMemDBIteratorMtxChoice bt db start end' reverse useMtx =
     (let (offered, skipEqual, abortLessThan) = traversal bt db start end' reverse;
          sent = visited skipEqual abortLessThan offered;
          iter = \<lparr>mi_ch = sent, mi_item = None, mi_start = start, mi_end = end', mi_useMtx = useMtx\<rparr>
      in case mi_ch iter of
           [] \<Rightarrow> iter
         | i # is \<Rightarrow> iter\<lparr>mi_ch := is, mi_item := Some i\<rparr>)"

definition newMemDBIterator ::
  "'t btree_ops \<Rightarrow> 't MemDB \<Rightarrow> slice \<Rightarrow> slice \<Rightarrow> bool \<Rightarrow> memDBIterator" where
  "newMemDBIterator bt db start end' reverse =
     newMemDBIteratorMtxChoice bt db start end' reverse True"

definition memDBIterator_Close :: "memDBIterator \<Rightarrow> memDBIterator \<times> error option" where
  "memDBIterator_Close i = (i\<lparr>mi_ch := [], mi_item := None\<rparr>, None)"

definition memDBIterator_Domain :: "memDBIterator \<Rightarrow> slice \<times> slice" where
  "memDBIterator_Domain i = (mi_start i, mi_end i)"

definition memDBIterator_Valid :: "memDBIterator \<Rightarrow> (bool \<times> memDBIterator) res" where
  "memDBIterator_Valid i = Ret (mi_item i \<noteq> None, i)"

definition memDBIterator_assertIsValid :: "memDBIterator \<Rightarrow> memDBIterator res" where
  "memDBIterator_assertIsValid i =
     bindR (memDBIterator_Valid i) (\<lambda>(valid, i).
       if \<not> valid then Panic ''iterator is invalid'' else Ret i)"

definition memDBIterator_Next :: "memDBIterator \<Rightarrow> memDBIterator res" where
  "memDBIterator_Next i =
     bindR (memDBIterator_assertIsValid i) (\<lambda>i.
       case mi_ch i of
         x # xs \<Rightarrow> Ret (i\<lparr>mi_ch := xs, mi_item := Some x\<rparr>)
       | [] \<Rightarrow> Ret (i\<lparr>mi_item := None\<rparr>))"

definition memDBIterator_Error :: "memDBIterator \<Rightarrow> error option" where
  "memDBIterator_Error i = None"

definition memDBIterator_Key :: "memDBIterator \<Rightarrow> (slice \<times> memDBIterator) res" where
  "memDBIterator_Key i =
     bindR (memDBIterator_assertIsValid i) (\<lambda>i. Ret (item_key (the (mi_item i)), i))"

definition memDBIterator_Value :: "memDBIterator \<Rightarrow> (slice \<times> memDBIterator) res" where
  "memDBIterator_Value i =
     bindR (memDBIterator_assertIsValid i) (\<lambda>i. Ret (item_value (the (mi_item i)), i))"

definition memDBIterator_iface :: "memDBIterator Iterator" where
  "memDBIterator_iface =
     \<lparr>I_Domain = memDBIterator_Domain, I_Valid = memDBIterator_Valid, I_Next = memDBIterator_Next,
      I_Key = memDBIterator_Key, I_Value = memDBIterator_Value, I_Error = memDBIterator_Error,
      I_Close = memDBIterator_Close\<rparr>"

definition MemDB_Iterator ::
  "'t btree_ops \<Rightarrow> 't MemDB \<Rightarrow> slice \<Rightarrow> slice \<Rightarrow> (memDBIterator option \<times> error option) res" where
  "MemDB_Iterator bt db start end' =
     (if blank start \<or> blank end' then Ret (None, Some errKeyEmpty)
      else Ret (Some (newMemDBIterator bt db start end' False), None))"

definition MemDB_ReverseIterator ::
  "'t btree_ops \<Rightarrow> 't MemDB \<Rightarrow> slice \<Rightarrow> slice \<Rightarrow> (memDBIterator option \<times> error option) res" where
  "MemDB_ReverseIterator bt db start end' =
     (if blank start \<or> blank end' then Ret (None, Some errKeyEmpty)
      else Ret (Some (newMemDBIterator bt db start end' True), None))"

definition MemDB_IteratorNoMtx ::
  "'t btree_ops \<Rightarrow> 't MemDB \<Rightarrow> slice \<Rightarrow> slice \<Rightarrow> (memDBIterator option \<times> error option) res" where
  "MemDB_IteratorNoMtx bt db start end' =
     (if blank start \<or> blank end' then Ret (None, Some errKeyEmpty)
      else Ret (Some (newMemDBIteratorMtxChoice bt db start end' False False), None))"

definition MemDB_ReverseIteratorNoMtx ::
  "'t btree_ops \<Rightarrow> 't MemDB \<Rightarrow> slice \<Rightarrow> slice \<Rightarrow> (memDBIterator option \<times> error option) res" where
  "MemDB_ReverseIteratorNoMtx bt db start end' =
     (if blank start \<or> blank end' then Ret (None, Some errKeyEmpty)
      else Ret (Some (newMemDBIteratorMtxChoice bt db start end' True False), None))"

section \<open>The batch\<close>

definition opTypeSet :: int where
  "opTypeSet = 1"

definition opTypeDelete :: int where
  "opTypeDelete = 2"

record operation =
  op_opType :: int
  op_key :: slice
  op_value :: slice

record memDBBatch =
  mb_ops :: "operation list option"

definition newMemDBBatch :: "'t MemDB \<Rightarrow> memDBBatch" where
  "newMemDBBatch db = \<lparr>mb_ops = Some []\<rparr>"

definition memDBBatch_Set :: "memDBBatch \<Rightarrow> slice \<Rightarrow> slice \<Rightarrow> memDBBatch \<times> error option" where
  "memDBBatch_Set b k v =
     (if len k = 0 then (b, Some errKeyEmpty)
      else if v = None then (b, Some errValueNil)
      else case mb_ops b of
             None \<Rightarrow> (b, Some errBatchClosed)
           | Some ops \<Rightarrow>
               (b\<lparr>mb_ops := Some (ops @ [\<lparr>op_opType = opTypeSet, op_key = k, op_value = v\<rparr>])\<rparr>, None))"

definition memDBBatch_Delete :: "memDBBatch \<Rightarrow> slice \<Rightarrow> memDBBatch \<times> error option" where
  "memDBBatch_Delete b k =
     (if len k = 0 then (b, Some errKeyEmpty)
      else case mb_ops b of
             None \<Rightarrow> (b, Some errBatchClosed)
           | Some ops \<Rightarrow>
               (b\<lparr>mb_ops := Some (ops @ [\<lparr>op_opType = opTypeDelete, op_key = k, op_value = None\<rparr>])\<rparr>, None))"

definition memDBBatch_Close :: "memDBBatch \<Rightarrow> memDBBatch \<times> error option" where
  "memDBBatch_Close b = (b\<lparr>mb_ops := None\<rparr>, None)"

text \<open>The verb \<open>%v\<close> on an operation.\<close>

definition fmt_v_operation :: "operation \<Rightarrow> string" where
  "fmt_v_operation p =
     ''{'' @ fmt_v_int (op_opType p) @ '' '' @ fmt_v_bytes (op_key p) @ '' '' @ fmt_v_bytes (op_value p) @ ''}''"

text \<open>The loop of \<open>Write\<close>; an unknown operation type leaves the operations before it applied.\<close>

fun memDBBatch_write_loop ::
  "'t btree_ops \<Rightarrow> operation list \<Rightarrow> 't MemDB \<Rightarrow> 't MemDB \<times> error option" where
  "memDBBatch_write_loop bt [] db = (db, None)"
| "memDBBatch_write_loop bt (p # ops) db =
     (if op_opType p = opTypeSet then
        memDBBatch_write_loop bt ops (MemDB_set bt db (op_key p) (op_value p))
      else if op_opType p = opTypeDelete then
        memDBBatch_write_loop bt ops (MemDB_delete bt db (op_key p))
      else (db, Some (ErrorString
        (''unknown operation type '' @ fmt_v_int (op_opType p) @ '' ('' @ fmt_v_operation p @ '')''))))"

definition memDBBatch_Write ::
  "'t btree_ops \<Rightarrow> memDBBatch \<Rightarrow> 't MemDB \<Rightarrow> memDBBatch \<times> 't MemDB \<times> error option" where
  "memDBBatch_Write bt b db =
     (case mb_ops b of
        None \<Rightarrow> (b, db, Some errBatchClosed)
      | Some ops \<Rightarrow>
          (case memDBBatch_write_loop bt ops db of
             (db', Some e) \<Rightarrow> (b, db', Some e)
           | (db', None) \<Rightarrow> (case memDBBatch_Close b of (b', e) \<Rightarrow> (b', db', e))))"

definition memDBBatch_WriteSync ::
  "'t btree_ops \<Rightarrow> memDBBatch \<Rightarrow> 't MemDB \<Rightarrow> memDBBatch \<times> 't MemDB \<times> error option" where
  "memDBBatch_WriteSync bt b db = memDBBatch_Write bt b db"

definition memDBBatch_iface :: "'t btree_ops \<Rightarrow> ('t MemDB, memDBBatch) Batch" where
  "memDBBatch_iface bt =
     \<lparr>B_Set = memDBBatch_Set, B_Delete = memDBBatch_Delete, B_Write = memDBBatch_Write bt,
      B_WriteSync = memDBBatch_WriteSync bt, B_Close = memDBBatch_Close\<rparr>"

definition MemDB_NewBatch :: "'t MemDB \<Rightarrow> memDBBatch" where
  "MemDB_NewBatch db = newMemDBBatch db"

definition MemDB_iface :: "'t btree_ops \<Rightarrow> ('t MemDB, memDBIterator, memDBBatch) DB" where
  "MemDB_iface bt =
     \<lparr>D_Get = MemDB_Get bt, D_Has = MemDB_Has bt, D_Set = MemDB_Set bt, D_SetSync = MemDB_SetSync bt,
      D_Delete = MemDB_Delete bt, D_DeleteSync = MemDB_DeleteSync bt,
      D_Iterator = MemDB_Iterator bt, D_ReverseIterator = MemDB_ReverseIterator bt,
      D_Close = MemDB_Close, D_NewBatch = MemDB_NewBatch, D_Print = MemDB_Print bt,
      D_Stats = MemDB_Stats bt, D_itr = memDBIterator_iface, D_bat = memDBBatch_iface bt\<rparr>"

lemmas MemDB_defs [op_defs] =
  MemDB_Get_def MemDB_Has_def MemDB_set_def MemDB_Set_def MemDB_SetSync_def MemDB_delete_def
  MemDB_Delete_def MemDB_DeleteSync_def MemDB_Iterator_def MemDB_ReverseIterator_def
  MemDB_NewBatch_def newMemDBIterator_def newMemDBBatch_def

lemmas memDBIterator_defs [op_defs] =
  memDBIterator_iface_def memDBIterator_Domain_def memDBIterator_Valid_def
  memDBIterator_assertIsValid_def memDBIterator_Next_def memDBIterator_Key_def
  memDBIterator_Value_def memDBIterator_Error_def memDBIterator_Close_def

lemmas memDBBatch_defs [op_defs] =
  memDBBatch_iface_def memDBBatch_Set_def memDBBatch_Delete_def memDBBatch_Close_def
  memDBBatch_Write_def memDBBatch_WriteSync_def opTypeSet_def opTypeDelete_def

section \<open>Abstraction\<close>

text \<open>Items that the write methods let into the tree: a non-empty key and a value.\<close>

definition item_ok :: "item \<Rightarrow> bool" where
  "item_ok i \<longleftrightarrow> len (item_key i) \<noteq> 0 \<and> item_value i \<noteq> None"

definition item_kv :: "item \<Rightarrow> kv" where
  "item_kv i = (sl (item_key i), sl (item_value i))"

definition MemDB_ents :: "'t btree_ops \<Rightarrow> 't MemDB \<Rightarrow> kv list" where
  "MemDB_ents bt db = map item_kv (bt_Ascend bt (mem_btree db))"

definition MemDB_ok :: "'t btree_ops \<Rightarrow> ('t \<Rightarrow> bool) \<Rightarrow> 't MemDB \<Rightarrow> bool" where
  "MemDB_ok bt bwf db \<longleftrightarrow> bwf (mem_btree db) \<and> list_all item_ok (bt_Ascend bt (mem_btree db))"

definition memDBIterator_ok :: "memDBIterator \<Rightarrow> bool" where
  "memDBIterator_ok i \<longleftrightarrow> list_all item_ok (mi_ch i) \<and> pred_option item_ok (mi_item i)"

definition memDBIterator_rest :: "memDBIterator \<Rightarrow> kv list" where
  "memDBIterator_rest i = (case mi_item i of None \<Rightarrow> [] | Some x \<Rightarrow> map item_kv (x # mi_ch i))"

fun op_kvop :: "operation \<Rightarrow> kvop" where
  "op_kvop p = (if op_opType p = opTypeSet then Put (sl (op_key p)) (sl (op_value p)) else Del (sl (op_key p)))"

definition operation_ok :: "operation \<Rightarrow> bool" where
  "operation_ok p \<longleftrightarrow> len (op_key p) \<noteq> 0 \<and>
     (op_opType p = opTypeSet \<and> op_value p \<noteq> None \<or> op_opType p = opTypeDelete)"

definition memDBBatch_ok :: "memDBBatch \<Rightarrow> bool" where
  "memDBBatch_ok b \<longleftrightarrow> pred_option (list_all operation_ok) (mb_ops b)"

definition memDBBatch_kvops :: "memDBBatch \<Rightarrow> kvop list option" where
  "memDBBatch_kvops b = map_option (map op_kvop) (mb_ops b)"

section \<open>The documented behaviour of the B-tree\<close>

locale btree_laws =
  fixes bt :: "'t btree_ops"
    and bwf :: "'t \<Rightarrow> bool"
  assumes bwf_New: "bwf (bt_New bt d)"
    and bwf_ReplaceOrInsert: "bwf t \<Longrightarrow> bwf (bt_ReplaceOrInsert bt t x)"
    and bwf_Delete: "bwf t \<Longrightarrow> bwf (bt_Delete bt t x)"
    and Ascend_sorted: "bwf t \<Longrightarrow> sorted_wrt item_Less (bt_Ascend bt t)"
    and Ascend_New: "bt_Ascend bt (bt_New bt d) = []"
    and Ascend_ReplaceOrInsert: "bwf t \<Longrightarrow> bt_Ascend bt (bt_ReplaceOrInsert bt t x) =
      filter (\<lambda>i. item_Less i x) (bt_Ascend bt t) @ x # filter (\<lambda>i. item_Less x i) (bt_Ascend bt t)"
    and Ascend_Delete: "bwf t \<Longrightarrow> bt_Ascend bt (bt_Delete bt t x) =
      filter (\<lambda>i. item_Less i x \<or> item_Less x i) (bt_Ascend bt t)"
    and Get_Ascend: "bwf t \<Longrightarrow>
      bt_Get bt t x = find (\<lambda>i. \<not> item_Less i x \<and> \<not> item_Less x i) (bt_Ascend bt t)"
    and Has_Get: "bwf t \<Longrightarrow> bt_Has bt t x \<longleftrightarrow> bt_Get bt t x \<noteq> None"
    and Len_Ascend: "bwf t \<Longrightarrow> bt_Len bt t = length (bt_Ascend bt t)"
    and Descend_Ascend: "bwf t \<Longrightarrow> bt_Descend bt t = rev (bt_Ascend bt t)"
    and AscendGreaterOrEqual_Ascend: "bwf t \<Longrightarrow>
      bt_AscendGreaterOrEqual bt t a = filter (\<lambda>i. \<not> item_Less i a) (bt_Ascend bt t)"
    and AscendRange_Ascend: "bwf t \<Longrightarrow>
      bt_AscendRange bt t a b = filter (\<lambda>i. \<not> item_Less i a \<and> item_Less i b) (bt_Ascend bt t)"
    and DescendLessOrEqual_Ascend: "bwf t \<Longrightarrow>
      bt_DescendLessOrEqual bt t a = filter (\<lambda>i. \<not> item_Less a i) (rev (bt_Ascend bt t))"

section \<open>Lemmas on items and visits\<close>

lemma item_Less_iff [slice_simps]: "item_Less i j \<longleftrightarrow> sl (item_key i) < sl (item_key j)"
  by (simp add: item_Less_def bytes_Compare_less)

lemma newKey_simps [simp]: "item_key (newKey k) = k" "item_value (newKey k) = None"
  by (simp_all add: newKey_def)

lemma newPair_simps [simp]: "item_key (newPair k v) = k" "item_value (newPair k v) = v"
  by (simp_all add: newPair_def)

lemma fst_item_kv [simp]: "fst (item_kv i) = sl (item_key i)"
  by (simp add: item_kv_def)

lemma item_okD:
  "item_ok i \<Longrightarrow> item_key i = Some (sl (item_key i)) \<and> item_value i = Some (sl (item_value i)) \<and> sl (item_key i) \<noteq> []"
  by (cases "item_key i"; cases "item_value i") (auto simp: item_ok_def)

lemma kv_sorted_items [simp]:
  "kv_sorted (map item_kv xs) \<longleftrightarrow> sorted_wrt item_Less xs"
  by (induction xs) (auto simp: item_Less_iff)

text \<open>On a descending traversal the visitor drops the bound and stops below the start.\<close>

lemma visited_desc:
  assumes "sorted_wrt (\<lambda>i j. item_Less j i) xs"
  shows "visited skip abort xs =
    filter (\<lambda>i. (skip = None \<or> sl (item_key i) \<noteq> sl skip) \<and> sl abort \<le> sl (item_key i)) xs"
  using assms
proof (induction xs arbitrary: skip)
  case (Cons x xs)
  then have below: "\<And>y. y \<in> set xs \<Longrightarrow> sl (item_key y) < sl (item_key x)"
    and srt: "sorted_wrt (\<lambda>i j. item_Less j i) xs"
    by (auto simp: item_Less_iff)
  consider (skip) "visitor skip abort x = Skip" | (stop) "visitor skip abort x = Stop"
    | (send) "visitor skip abort x = Send"
    by (cases "visitor skip abort x")
  then show ?case
  proof cases
    case skip
    then have "skip \<noteq> None" "sl (item_key x) = sl skip"
      by (auto simp: visitor_def bytes_Equal_iff split: if_splits)
    then have "filter (\<lambda>i. (skip = None \<or> sl (item_key i) \<noteq> sl skip) \<and> sl abort \<le> sl (item_key i)) xs =
        filter (\<lambda>i. sl abort \<le> sl (item_key i)) xs"
      by (intro filter_cong) (auto dest: below)
    then show ?thesis using skip Cons.IH [OF srt, of None] \<open>skip \<noteq> None\<close> \<open>sl (item_key x) = sl skip\<close>
      by auto
  next
    case stop
    then have "sl (item_key x) < sl abort"
      by (auto simp: visitor_def bytes_Compare_less split: if_splits)
    then have "\<forall>y\<in>set (x # xs). \<not> sl abort \<le> sl (item_key y)"
      using below by (auto simp: not_le intro: less_trans)
    then show ?thesis using stop by (simp add: filter_empty_conv)
  next
    case send
    then have "\<not> (skip \<noteq> None \<and> sl (item_key x) = sl skip)" "sl abort \<le> sl (item_key x)"
      by (cases abort; auto simp: visitor_def bytes_Compare_less bytes_Equal_iff not_less split: if_splits)+
    then show ?thesis using send Cons.IH [OF srt] by auto
  qed
qed simp

lemma visited_None: "visited None None xs = xs"
  by (induction xs) (simp_all add: visitor_def)

lemma list_all_filter: "list_all P xs \<Longrightarrow> list_all P (filter Q xs)"
  by (induction xs) auto

lemma neither_less: "\<not> (a :: byte list) < b \<and> \<not> b < a \<longleftrightarrow> a = b"
  by auto

lemma map_of_items:
  assumes "list_all item_ok xs"
  shows "map_of (map item_kv xs) (sl k) =
    (case find (\<lambda>i. \<not> item_Less i (newKey k) \<and> \<not> item_Less (newKey k) i) xs of
       None \<Rightarrow> None | Some i \<Rightarrow> item_value i)"
  using assms
  by (induction xs) (auto simp: item_Less_iff neither_less item_kv_def dest: item_okD)

section \<open>MemDB keeps the contract\<close>

interpretation mem_it: iterator_contract memDBIterator_iface memDBIterator_ok memDBIterator_rest
proof (unfold_locales, goal_cases)
  case (4 i x xs)
  then show ?case
    by (auto simp: memDBIterator_defs memDBIterator_rest_def memDBIterator_ok_def it_moved_def
        split: option.splits list.splits)
qed (auto simp: memDBIterator_defs memDBIterator_rest_def memDBIterator_ok_def it_moved_def item_kv_def
       split: option.splits dest!: item_okD)

lemma mem_write_loop_ok:
  "list_all operation_ok ops \<Longrightarrow>
     memDBBatch_write_loop bt ops db =
       (fold (\<lambda>p db. if op_opType p = opTypeSet then MemDB_set bt db (op_key p) (op_value p)
                     else MemDB_delete bt db (op_key p)) ops db, None)"
  by (induction ops arbitrary: db) (auto simp: operation_ok_def)

context btree_laws
begin

lemma New_ok: "MemDB_ok bt bwf (NewMemDB bt)" "MemDB_ents bt (NewMemDB bt) = []"
  by (simp_all add: MemDB_ok_def MemDB_ents_def NewMemDB_def bwf_New Ascend_New)

lemma set_ok:
  assumes "MemDB_ok bt bwf db" and "len k \<noteq> 0" and "v \<noteq> None"
  shows "MemDB_ok bt bwf (MemDB_set bt db k v)"
    and "MemDB_ents bt (MemDB_set bt db k v) = kv_set (sl k) (sl v) (MemDB_ents bt db)"
  using assms
  by (auto simp: MemDB_ok_def MemDB_ents_def MemDB_set_def bwf_ReplaceOrInsert Ascend_ReplaceOrInsert
      kv_set_def item_Less_iff filter_map comp_def list_all_filter item_ok_def item_kv_def)

lemma delete_ok:
  assumes "MemDB_ok bt bwf db"
  shows "MemDB_ok bt bwf (MemDB_delete bt db k)"
    and "MemDB_ents bt (MemDB_delete bt db k) = kv_del (sl k) (MemDB_ents bt db)"
  using assms
  by (auto simp: MemDB_ok_def MemDB_ents_def MemDB_delete_def bwf_Delete Ascend_Delete
      kv_del_def item_Less_iff filter_map comp_def list_all_filter neq_iff)

lemma write_loop_ents:
  assumes "MemDB_ok bt bwf db" and "list_all operation_ok ops"
    and "memDBBatch_write_loop bt ops db = (db', e)"
  shows "e = None \<and> MemDB_ok bt bwf db' \<and>
    MemDB_ents bt db' = kv_apply_all (map op_kvop ops) (MemDB_ents bt db)"
  using assms
proof (induction ops arbitrary: db)
  case (Cons p ops)
  show ?case
  proof (cases "op_opType p = opTypeSet")
    case True
    then have "len (op_key p) \<noteq> 0" "op_value p \<noteq> None"
      using Cons.prems(2) by (auto simp: operation_ok_def opTypeSet_def opTypeDelete_def)
    then show ?thesis
      using Cons.IH [of "MemDB_set bt db (op_key p) (op_value p)"] Cons.prems True set_ok by simp
  next
    case False
    then show ?thesis
      using Cons.IH [of "MemDB_delete bt db (op_key p)"] Cons.prems delete_ok
      by (auto simp: operation_ok_def split: if_splits)
  qed
qed simp

lemma iterator_rest:
  assumes "MemDB_ok bt bwf db" and "\<not> blank start" and "\<not> blank end'"
  shows "memDBIterator_rest (newMemDBIteratorMtxChoice bt db start end' r m) =
      kv_scan r start end' (MemDB_ents bt db)"
    and "memDBIterator_ok (newMemDBIteratorMtxChoice bt db start end' r m)"
proof -
  let ?t = "mem_btree db" and ?xs = "bt_Ascend bt (mem_btree db)"
  have bwf: "bwf ?t" and items: "list_all item_ok ?xs"
    using assms(1) by (auto simp: MemDB_ok_def)
  have desc: "sorted_wrt (\<lambda>i j. item_Less j i) (rev ?xs)"
    using Ascend_sorted [OF bwf] by (simp add: sorted_wrt_rev)
  have desc': "sorted_wrt (\<lambda>i j. item_Less j i) (filter P (rev ?xs))" for P
    using desc by (rule sorted_wrt_filter)
  define tr where "tr = traversal bt db start end' r"
  let ?sent = "visited (fst (snd tr)) (snd (snd tr)) (fst tr)"
  let ?dom = "\<lambda>i. IsKeyInDomain (item_key i) start end'"
  have sent: "?sent = (if r then rev (filter ?dom ?xs) else filter ?dom ?xs)"
    using bwf
    by (cases start; cases end'; cases r)
       (auto simp: tr_def traversal_def Let_def visited_None visited_desc [OF desc]
         visited_desc [OF desc'] Descend_Ascend AscendGreaterOrEqual_Ascend AscendRange_Ascend
         DescendLessOrEqual_Ascend IsKeyInDomain_iff item_Less_iff rev_filter not_less
         intro!: filter_cong)
  have "list_all item_ok ?sent"
    unfolding sent using items by (auto simp: list_all_iff)
  moreover have dom: "IsKeyInDomain (Some (sl (item_key i))) start end' = ?dom i" for i
    by (cases end') (simp_all add: IsKeyInDomain_iff)
  have "map item_kv ?sent = kv_scan r start end' (MemDB_ents bt db)"
    unfolding sent by (simp add: kv_scan_def kv_range_def MemDB_ents_def filter_map comp_def rev_map dom)
  ultimately show "memDBIterator_rest (newMemDBIteratorMtxChoice bt db start end' r m) =
      kv_scan r start end' (MemDB_ents bt db)"
    and "memDBIterator_ok (newMemDBIteratorMtxChoice bt db start end' r m)"
    by (auto simp: newMemDBIteratorMtxChoice_def memDBIterator_rest_def memDBIterator_ok_def
        Let_def split_beta tr_def [symmetric] split: list.splits)
qed

lemma iterator_domain:
  "I_Domain memDBIterator_iface (newMemDBIteratorMtxChoice bt db start end' r m) = (start, end')"
  by (auto simp: newMemDBIteratorMtxChoice_def memDBIterator_defs Let_def split_beta
      split: list.splits)

lemma MemDB_db: "kv_db (MemDB_iface bt) memDBIterator_ok memDBIterator_rest
  (MemDB_ok bt bwf) (MemDB_ents bt) any_size"
proof (rule kv_db.intro [OF _ kv_db_axioms.intro], goal_cases)
  case 1
  show ?case by (simp add: MemDB_iface_def mem_it.iterator_contract_axioms)
next
  case (2 s)
  then show ?case
    using Ascend_sorted [of "mem_btree s"]
    by (auto simp: kv_wf_def MemDB_ents_def MemDB_ok_def list_all_iff dest: item_okD)
next
  case (3 s k)
  then show ?case
    using map_of_items [of "bt_Ascend bt (mem_btree s)" k]
    by (auto simp: MemDB_iface_def MemDB_Get_def MemDB_ents_def MemDB_ok_def Get_Ascend split: option.splits)
next
  case (4 s k)
  then have ok: "bwf (mem_btree s)" "list_all item_ok (bt_Ascend bt (mem_btree s))"
    by (auto simp: MemDB_ok_def)
  have "item_value i \<noteq> None" if "bt_Get bt (mem_btree s) (newKey k) = Some i" for i
    using that ok by (auto simp: Get_Ascend find_Some_iff list_all_length item_ok_def)
  then show ?case
    using map_of_items [OF ok(2), of k] ok
    by (auto simp: MemDB_iface_def MemDB_Has_def MemDB_ents_def Has_Get Get_Ascend split: option.splits)
next
  case (5 s k v s' e)
  then show ?case using set_ok [of s k v]
    by (auto simp: MemDB_iface_def MemDB_Set_def set_error_def split: if_splits)
next
  case (6 s k v s' e)
  then show ?case using set_ok [of s k v]
    by (auto simp: MemDB_iface_def MemDB_SetSync_def MemDB_Set_def set_error_def split: if_splits)
next
  case (7 s k s' e)
  then show ?case using delete_ok [of s k]
    by (auto simp: MemDB_iface_def MemDB_Delete_def key_error_def split: if_splits)
next
  case (8 s k s' e)
  then show ?case using delete_ok [of s k]
    by (auto simp: MemDB_iface_def MemDB_DeleteSync_def MemDB_Delete_def key_error_def split: if_splits)
next
  case (10 s start end')
  then show ?case
    using iterator_rest [OF 10(1), of start end' False True] iterator_domain [of s start end' False True]
    by (auto simp: MemDB_iface_def MemDB_Iterator_def newMemDBIterator_def domain_error_def split: if_splits)
next
  case (12 s start end')
  then show ?case
    using iterator_rest [OF 12(1), of start end' True True] iterator_domain [of s start end' True True]
    by (auto simp: MemDB_iface_def MemDB_ReverseIterator_def newMemDBIterator_def domain_error_def split: if_splits)
qed (auto simp: MemDB_iface_def MemDB_defs memDBBatch_defs domain_error_def memDBBatch_ok_def
      memDBBatch_kvops_def split: if_splits)

lemma MemDB_batch: "kv_batch (D_bat (MemDB_iface bt)) (D_NewBatch (MemDB_iface bt))
  (MemDB_ok bt bwf) (MemDB_ents bt) memDBBatch_ok memDBBatch_kvops any_size"
proof (rule kv_batch.intro, goal_cases)
  case (2 b k v b' e)
  then show ?case
    by (auto simp: MemDB_iface_def memDBBatch_defs memDBBatch_ok_def memDBBatch_kvops_def
        operation_ok_def set_error_def batch_error_def split: if_splits option.splits)
next
  case (3 b k b' e)
  then show ?case
    by (auto simp: MemDB_iface_def memDBBatch_defs memDBBatch_ok_def memDBBatch_kvops_def
        operation_ok_def key_error_def batch_error_def split: if_splits option.splits)
next
  case (4 b s b' s' e)
  then show ?case
    by (auto simp: MemDB_iface_def memDBBatch_defs memDBBatch_ok_def memDBBatch_kvops_def
        split: option.splits prod.splits dest!: write_loop_ents [OF 4(2)])
next
  case (5 b s b' s' e)
  then show ?case
    by (auto simp: MemDB_iface_def memDBBatch_defs memDBBatch_ok_def memDBBatch_kvops_def
        split: option.splits prod.splits dest!: write_loop_ents [OF 5(2)])
qed (auto simp: MemDB_iface_def MemDB_defs memDBBatch_defs domain_error_def memDBBatch_ok_def
      memDBBatch_kvops_def split: if_splits)

lemma MemDB_store:
  "kv_store (MemDB_iface bt) memDBIterator_ok memDBIterator_rest (MemDB_ok bt bwf) (MemDB_ents bt)
     memDBBatch_ok memDBBatch_kvops any_size"
  by (rule kv_store.intro [OF MemDB_db MemDB_batch])

end

sublocale btree_laws \<subseteq> mem: kv_store "MemDB_iface bt" memDBIterator_ok memDBIterator_rest
  "MemDB_ok bt bwf" "MemDB_ents bt" memDBBatch_ok memDBBatch_kvops any_size
  by (rule MemDB_store)

section \<open>An ordered list as the tree\<close>

text \<open>
  The laws can be met: the ordered list of items, with every operation the one its
  documentation describes. The witnesses of this development evaluate on it.
\<close>

definition list_btree :: "item list btree_ops" where
  "list_btree =
     \<lparr>bt_New = (\<lambda>d. []),
      bt_Get = (\<lambda>t x. find (\<lambda>i. \<not> item_Less i x \<and> \<not> item_Less x i) t),
      bt_Has = (\<lambda>t x. find (\<lambda>i. \<not> item_Less i x \<and> \<not> item_Less x i) t \<noteq> None),
      bt_ReplaceOrInsert = (\<lambda>t x. filter (\<lambda>i. item_Less i x) t @ x # filter (\<lambda>i. item_Less x i) t),
      bt_Delete = (\<lambda>t x. filter (\<lambda>i. item_Less i x \<or> item_Less x i) t),
      bt_Len = length,
      bt_Ascend = (\<lambda>t. t),
      bt_Descend = rev,
      bt_AscendGreaterOrEqual = (\<lambda>t a. filter (\<lambda>i. \<not> item_Less i a) t),
      bt_AscendRange = (\<lambda>t a b. filter (\<lambda>i. \<not> item_Less i a \<and> item_Less i b) t),
      bt_DescendLessOrEqual = (\<lambda>t a. filter (\<lambda>i. \<not> item_Less a i) (rev t))\<rparr>"

interpretation list_bt: btree_laws list_btree "sorted_wrt item_Less"
  by unfold_locales
     (auto simp: list_btree_def sorted_wrt_append sorted_wrt_filter item_Less_iff intro: less_trans)

section \<open>Properties\<close>

text \<open>
  C2. A new MemDB answers every sequence of calls (reads, writes, whole scans in both
  directions, batches) as the ordered list of pairs does, and its content afterwards is that
  of the list.
\<close>

theorem MemDB_refines_ordered_map:
  assumes "btree_laws bt bwf"
  shows "\<exists>db. db_calls (MemDB_iface bt) (NewMemDB bt) cs = Ret (db, snd (spec_calls [] cs))
    \<and> MemDB_ents bt db = fst (spec_calls [] cs)"
  using kv_store.db_calls_spec [OF btree_laws.MemDB_store [OF assms], of "NewMemDB bt" cs]
    btree_laws.New_ok [OF assms] by auto

theorem MemDB_refines_ordered_map_witness:
  "\<exists>db. db_calls (MemDB_iface list_btree) (NewMemDB list_btree)
      [CSet False (Some [2]) (Some [7]), CBatch True [BSet (Some [1]) (Some []), BDelete None],
       CScan True None (Some [9])] =
     Ret (db, [AErr None, ABatch [None, Some errKeyEmpty] None,
               AScan [(Some [2], Some [7]), (Some [1], Some [])] None])
    \<and> MemDB_ents list_btree db = [([1], []), ([2], [7])]"
  using MemDB_refines_ordered_map [OF list_bt.btree_laws_axioms,
      of "[CSet False (Some [2]) (Some [7]), CBatch True [BSet (Some [1]) (Some []), BDelete None],
           CScan True None (Some [9])]"]
  by (simp add: set_error_def key_error_def domain_error_def accepted_def kv_set_def kv_scan_def kv_range_def
      IsKeyInDomain_iff)

text \<open>
  C3. Iterating over a domain of a MemDB, forwards or backwards and with open or closed ends,
  returns, strictly ordered by key, exactly the keys of the domain that \<open>Get\<close> finds, each
  with the value \<open>Get\<close> returns.
\<close>

theorem MemDB_scan_agrees_with_Get:
  assumes "btree_laws bt bwf" and "MemDB_ok bt bwf db" and "\<not> blank start" and "\<not> blank end'"
  shows "\<exists>i xs i'. (if r then MemDB_ReverseIterator bt db start end' else MemDB_Iterator bt db start end')
        = Ret (Some i, None)
    \<and> iter_loop memDBIterator_iface i [] = Ret (xs, i')
    \<and> sorted_wrt (\<lambda>a b. if r then sl (fst b) < sl (fst a) else sl (fst a) < sl (fst b)) xs
    \<and> (\<forall>k v. (k, v) \<in> set xs \<longleftrightarrow>
         k \<noteq> None \<and> v \<noteq> None \<and> MemDB_Get bt db k = (v, None) \<and> IsKeyInDomain k start end')"
  using kv_store.scan_get [OF btree_laws.MemDB_store [OF assms(1)] assms(2), of start end' r] assms(3,4)
  by (cases r) (simp_all add: MemDB_iface_def domain_error_def)

definition mem_example :: "item list MemDB" where
  "mem_example = \<lparr>mem_btree = [newPair (Some [1]) (Some [10]), newPair (Some [1, 2]) (Some []),
     newPair (Some [3]) (Some [30])]\<rparr>"

lemma mem_example_ok: "MemDB_ok list_btree (sorted_wrt item_Less) mem_example"
  by (simp add: MemDB_ok_def mem_example_def list_btree_def item_Less_iff item_ok_def)

lemma mem_example_ents: "MemDB_ents list_btree mem_example = [([1], [10]), ([1, 2], []), ([3], [30])]"
  by (simp add: MemDB_ents_def mem_example_def list_btree_def item_kv_def)

theorem MemDB_scan_agrees_with_Get_witness:
  "\<exists>i xs i'. (if True then MemDB_ReverseIterator list_btree mem_example (Some [1, 2]) None
        else MemDB_Iterator list_btree mem_example (Some [1, 2]) None) = Ret (Some i, None)
    \<and> iter_loop memDBIterator_iface i [] = Ret (xs, i')
    \<and> sorted_wrt (\<lambda>a b. if True then sl (fst b) < sl (fst a) else sl (fst a) < sl (fst b)) xs
    \<and> (\<forall>k v. (k, v) \<in> set xs \<longleftrightarrow>
         k \<noteq> None \<and> v \<noteq> None \<and> MemDB_Get list_btree mem_example k = (v, None)
         \<and> IsKeyInDomain k (Some [1, 2]) None)"
  by (rule MemDB_scan_agrees_with_Get [OF list_bt.btree_laws_axioms mem_example_ok]) simp_all

text \<open>
  C4. The life of a MemDB batch. Every \<open>Set\<close> and \<open>Delete\<close> answers the argument errors of
  the interface; the write succeeds and applies the accepted calls in order; after it, every
  method but \<open>Close\<close> answers an error and a second write leaves the content as it is.
\<close>

theorem MemDB_batch_life:
  assumes "btree_laws bt bwf" and "MemDB_ok bt bwf db"
    and "batch_calls (memDBBatch_iface bt) (MemDB_NewBatch db) cs = (b, es)"
    and "memDBBatch_Write bt b db = (b', db', e)"
    and "MemDB_ok bt bwf db2" and "memDBBatch_Write bt b' db2 = (b2, db3, e2)"
  shows "es = map (fst \<circ> spec_batch_call) cs \<and> e = None
    \<and> MemDB_ents bt db' = kv_apply_all (accepted cs) (MemDB_ents bt db)
    \<and> snd (memDBBatch_Set b' k v) \<noteq> None \<and> snd (memDBBatch_Delete b' k) \<noteq> None
    \<and> e2 = Some errBatchClosed \<and> MemDB_ents bt db3 = MemDB_ents bt db2
    \<and> snd (memDBBatch_Close b') = None"
proof -
  note st = btree_laws.MemDB_store [OF assms(1)]
  note life = kv_store.batch_life [OF st assms(2), of cs b es False b' db' e]
  have b': "memDBBatch_ok b'" "memDBBatch_kvops b' = None"
    and 1: "es = map (fst \<circ> spec_batch_call) cs" "e = None" "MemDB_ents bt db' = kv_apply_all (accepted cs) (MemDB_ents bt db)"
    using life assms(3,4) by (simp_all add: MemDB_iface_def memDBBatch_iface_def)
  from 1 kv_store.closed_batch [OF st b' assms(5)] assms(6) show ?thesis
    by (simp add: MemDB_iface_def memDBBatch_iface_def)
qed

theorem MemDB_batch_life_witness:
  "let (b, es) = batch_calls (memDBBatch_iface list_btree) (MemDB_NewBatch mem_example)
         [BSet (Some [1]) (Some [5]), BDelete (Some [3]), BSet (Some [1]) None];
       (b', db', e) = memDBBatch_Write list_btree b mem_example;
       (b2, db3, e2) = memDBBatch_Write list_btree b' mem_example
   in es = [None, None, Some errValueNil] \<and> e = None
    \<and> MemDB_ents list_btree db' = [([1], [5]), ([1, 2], [])]
    \<and> snd (memDBBatch_Set b' (Some [7]) (Some [7])) \<noteq> None \<and> e2 = Some errBatchClosed
    \<and> MemDB_ents list_btree db3 = MemDB_ents list_btree mem_example"
proof -
  let ?cs = "[BSet (Some [1]) (Some [5]), BDelete (Some [3]), BSet (Some [1]) None]"
  obtain b es where 1: "batch_calls (memDBBatch_iface list_btree) (MemDB_NewBatch mem_example) ?cs = (b, es)"
    by (cases "batch_calls (memDBBatch_iface list_btree) (MemDB_NewBatch mem_example) ?cs")
  obtain b' db' e where 2: "memDBBatch_Write list_btree b mem_example = (b', db', e)"
    by (cases "memDBBatch_Write list_btree b mem_example")
  obtain b2 db3 e2 where 3: "memDBBatch_Write list_btree b' mem_example = (b2, db3, e2)"
    by (cases "memDBBatch_Write list_btree b' mem_example")
  note mem_example_ents
  then show ?thesis
    using MemDB_batch_life [OF list_bt.btree_laws_axioms mem_example_ok 1 2 mem_example_ok 3,
        of "Some [7]" "Some [7]"]
    unfolding 1 by (simp add: Let_def 2 3 set_error_def key_error_def accepted_def kv_set_def kv_del_def)
qed

end
