(* ===== verification/PrefixDB.thy ===== *)
theory PrefixDB
  imports MemDB
begin

text \<open>
  \<open>prefixdb.go\<close>, \<open>prefixdb_iterator.go\<close> and \<open>prefixdb_batch.go\<close>: a namespace of another
  database as a database. The wrapped database is any value of the interface \<open>DB\<close>, so its
  method table \<open>db\<close> is an argument of every definition; the results are proved for every
  table that keeps the contract \<open>kv_store\<close>.
\<close>

section \<open>The database\<close>

record 's PrefixDB =
  p_prefix :: slice
  p_db :: 's

definition NewPrefixDB :: "'s \<Rightarrow> slice \<Rightarrow> 's PrefixDB" where
  "NewPrefixDB db pre = \<lparr>p_prefix = pre, p_db = db\<rparr>"

text \<open>\<open>append(cp(prefix), key...)\<close>\<close>

definition append_key :: "slice \<Rightarrow> slice \<Rightarrow> slice" where
  "append_key pre k = Some (sl (cp pre) @ sl k)"

definition PrefixDB_prefixed :: "'s PrefixDB \<Rightarrow> slice \<Rightarrow> slice" where
  "PrefixDB_prefixed pdb k = append_key (p_prefix pdb) k"

definition PrefixDB_Get :: "('s, 'i, 'b) DB \<Rightarrow> 's PrefixDB \<Rightarrow> slice \<Rightarrow> slice \<times> error option" where
  "PrefixDB_Get db pdb k =
     (if len k = 0 then (None, Some errKeyEmpty)
      else let pkey = PrefixDB_prefixed pdb k; (v, err) = D_Get db (p_db pdb) pkey
        in if err \<noteq> None then (None, err) else (v, None))"

definition PrefixDB_Has :: "('s, 'i, 'b) DB \<Rightarrow> 's PrefixDB \<Rightarrow> slice \<Rightarrow> bool \<times> error option" where
  "PrefixDB_Has db pdb k =
     (if len k = 0 then (False, Some errKeyEmpty)
      else let (b, err) = D_Has db (p_db pdb) (PrefixDB_prefixed pdb k)
        in if err \<noteq> None then (b, err) else (b, None))"

definition PrefixDB_Set ::
  "('s, 'i, 'b) DB \<Rightarrow> 's PrefixDB \<Rightarrow> slice \<Rightarrow> slice \<Rightarrow> 's PrefixDB \<times> error option" where
  "PrefixDB_Set db pdb k v =
     (if len k = 0 then (pdb, Some errKeyEmpty)
      else if v = None then (pdb, Some errValueNil)
      else let pkey = PrefixDB_prefixed pdb k; (s, err) = D_Set db (p_db pdb) pkey v
        in if err \<noteq> None then (pdb\<lparr>p_db := s\<rparr>, err) else (pdb\<lparr>p_db := s\<rparr>, None))"

definition PrefixDB_SetSync ::
  "('s, 'i, 'b) DB \<Rightarrow> 's PrefixDB \<Rightarrow> slice \<Rightarrow> slice \<Rightarrow> 's PrefixDB \<times> error option" where
  "PrefixDB_SetSync db pdb k v =
     (if len k = 0 then (pdb, Some errKeyEmpty)
      else if v = None then (pdb, Some errValueNil)
      else let (s, err) = D_SetSync db (p_db pdb) (PrefixDB_prefixed pdb k) v in (pdb\<lparr>p_db := s\<rparr>, err))"

definition PrefixDB_Delete ::
  "('s, 'i, 'b) DB \<Rightarrow> 's PrefixDB \<Rightarrow> slice \<Rightarrow> 's PrefixDB \<times> error option" where
  "PrefixDB_Delete db pdb k =
     (if len k = 0 then (pdb, Some errKeyEmpty)
      else let (s, err) = D_Delete db (p_db pdb) (PrefixDB_prefixed pdb k) in (pdb\<lparr>p_db := s\<rparr>, err))"

definition PrefixDB_DeleteSync ::
  "('s, 'i, 'b) DB \<Rightarrow> 's PrefixDB \<Rightarrow> slice \<Rightarrow> 's PrefixDB \<times> error option" where
  "PrefixDB_DeleteSync db pdb k =
     (if len k = 0 then (pdb, Some errKeyEmpty)
      else let (s, err) = D_DeleteSync db (p_db pdb) (PrefixDB_prefixed pdb k) in (pdb\<lparr>p_db := s\<rparr>, err))"

section \<open>The iterator\<close>

text \<open>\<open>IteratePrefix\<close> works on any database, without stripping the prefix.\<close>

definition IteratePrefix ::
  "('s, 'i, 'b) DB \<Rightarrow> 's \<Rightarrow> slice \<Rightarrow> ('i option \<times> error option) res" where
  "IteratePrefix db s pre =
     bindR (if len pre = 0 then Ret (None, None)
            else bindR (cpIncr pre) (\<lambda>end'. Ret (cp pre, end')))
       (\<lambda>(start, end'). bindR (D_Iterator db s start end')
         (\<lambda>(itr, err). if err \<noteq> None then Ret (None, err) else Ret (itr, None)))"

record 'i prefixDBIterator =
  pi_prefix :: slice
  pi_start :: slice
  pi_end :: slice
  pi_source :: 'i
  pi_valid :: bool
  pi_err :: "error option"

text \<open>The test \<open>source.Valid() && P(source.Key())\<close>, with its short circuit.\<close>

definition src_test :: "'i Iterator \<Rightarrow> (slice \<Rightarrow> bool) \<Rightarrow> 'i \<Rightarrow> (bool \<times> 'i) res" where
  "src_test it P src =
     bindR (I_Valid it src) (\<lambda>(valid, src).
       if \<not> valid then Ret (False, src)
       else bindR (I_Key it src) (\<lambda>(k, src). Ret (P k, src)))"

definition newPrefixIterator ::
  "'i Iterator \<Rightarrow> slice \<Rightarrow> slice \<Rightarrow> slice \<Rightarrow> 'i \<Rightarrow> ('i prefixDBIterator option \<times> error option) res" where
  "newPrefixIterator it pre start end' src =
     bindR (src_test it (\<lambda>k. bytes_Equal k pre) src) (\<lambda>(skip, src).
     bindR (if skip then I_Next it src else Ret src) (\<lambda>src.
     bindR (src_test it (\<lambda>k. bytes_HasPrefix k pre) src) (\<lambda>(good, src).
       Ret (Some \<lparr>pi_prefix = pre, pi_start = start, pi_end = end', pi_source = src,
                  pi_valid = good, pi_err = None\<rparr>, None))))"

definition prefixDBIterator_Domain :: "'i prefixDBIterator \<Rightarrow> slice \<times> slice" where
  "prefixDBIterator_Domain itr = (pi_start itr, pi_end itr)"

definition prefixDBIterator_Valid ::
  "'i Iterator \<Rightarrow> 'i prefixDBIterator \<Rightarrow> (bool \<times> 'i prefixDBIterator) res" where
  "prefixDBIterator_Valid it itr =
     (if \<not> pi_valid itr \<or> pi_err itr \<noteq> None then Ret (False, itr)
      else bindR (I_Valid it (pi_source itr)) (\<lambda>(valid, src).
        if \<not> valid then Ret (False, itr\<lparr>pi_source := src\<rparr>)
        else bindR (I_Key it src) (\<lambda>(k, src).
          if len k < len (pi_prefix itr) \<or> take (len (pi_prefix itr)) (sl k) \<noteq> sl (pi_prefix itr)
          then Ret (False, itr\<lparr>pi_source := src,
                 pi_err := Some (ErrorString (''received invalid key from backend: '' @ fmt_x k @
                   '' (expected prefix '' @ fmt_x (pi_prefix itr) @ '')''))\<rparr>)
          else Ret (True, itr\<lparr>pi_source := src\<rparr>))))"

definition prefixDBIterator_assertIsValid ::
  "'i Iterator \<Rightarrow> 'i prefixDBIterator \<Rightarrow> 'i prefixDBIterator res" where
  "prefixDBIterator_assertIsValid it itr =
     bindR (prefixDBIterator_Valid it itr) (\<lambda>(valid, itr).
       if \<not> valid then Panic ''iterator is invalid'' else Ret itr)"

text \<open>
  \<open>Next\<close> calls itself when the source stands on the key that equals the prefix; on a source
  that returns this key for ever it does not return.
\<close>

partial_function (option) prefixDBIterator_Next ::
  "'i Iterator \<Rightarrow> 'i prefixDBIterator \<Rightarrow> 'i prefixDBIterator res" where
  "prefixDBIterator_Next it itr =
     bindR (prefixDBIterator_assertIsValid it itr) (\<lambda>itr.
     bindR (I_Next it (pi_source itr)) (\<lambda>src.
     bindR (src_test it (\<lambda>k. bytes_HasPrefix k (pi_prefix itr)) src) (\<lambda>(good, src).
       if \<not> good then Ret (itr\<lparr>pi_source := src, pi_valid := False\<rparr>)
       else bindR (I_Key it src) (\<lambda>(k, src).
         if bytes_Equal k (pi_prefix itr) then prefixDBIterator_Next it (itr\<lparr>pi_source := src\<rparr>)
         else Ret (itr\<lparr>pi_source := src\<rparr>)))))"

definition prefixDBIterator_Key ::
  "'i Iterator \<Rightarrow> 'i prefixDBIterator \<Rightarrow> (slice \<times> 'i prefixDBIterator) res" where
  "prefixDBIterator_Key it itr =
     bindR (prefixDBIterator_assertIsValid it itr) (\<lambda>itr.
     bindR (I_Key it (pi_source itr)) (\<lambda>(k, src).
       if len k < len (pi_prefix itr) then Panic ''slice bounds out of range''
       else Ret (map_option (drop (len (pi_prefix itr))) k, itr\<lparr>pi_source := src\<rparr>)))"

definition prefixDBIterator_Value ::
  "'i Iterator \<Rightarrow> 'i prefixDBIterator \<Rightarrow> (slice \<times> 'i prefixDBIterator) res" where
  "prefixDBIterator_Value it itr =
     bindR (prefixDBIterator_assertIsValid it itr) (\<lambda>itr.
     bindR (I_Value it (pi_source itr)) (\<lambda>(v, src). Ret (v, itr\<lparr>pi_source := src\<rparr>)))"

definition prefixDBIterator_Error :: "'i Iterator \<Rightarrow> 'i prefixDBIterator \<Rightarrow> error option" where
  "prefixDBIterator_Error it itr =
     (if I_Error it (pi_source itr) \<noteq> None then I_Error it (pi_source itr) else pi_err itr)"

definition prefixDBIterator_Close ::
  "'i Iterator \<Rightarrow> 'i prefixDBIterator \<Rightarrow> 'i prefixDBIterator \<times> error option" where
  "prefixDBIterator_Close it itr =
     (let (src, err) = I_Close it (pi_source itr) in (itr\<lparr>pi_source := src\<rparr>, err))"

definition prefixDBIterator_iface :: "'i Iterator \<Rightarrow> 'i prefixDBIterator Iterator" where
  "prefixDBIterator_iface it =
     \<lparr>I_Domain = prefixDBIterator_Domain, I_Valid = prefixDBIterator_Valid it,
      I_Next = prefixDBIterator_Next it, I_Key = prefixDBIterator_Key it,
      I_Value = prefixDBIterator_Value it, I_Error = prefixDBIterator_Error it,
      I_Close = prefixDBIterator_Close it\<rparr>"

text \<open>
  The bounds and the body that \<open>Iterator\<close> and \<open>ReverseIterator\<close> share; they differ in the
  method of the wrapped database they call. A nil iterator without an error would be
  dereferenced by \<open>newPrefixIterator\<close>.
\<close>

definition PrefixDB_iterate ::
  "('s \<Rightarrow> slice \<Rightarrow> slice \<Rightarrow> ('i option \<times> error option) res) \<Rightarrow> 'i Iterator \<Rightarrow> 's PrefixDB \<Rightarrow>
     slice \<Rightarrow> slice \<Rightarrow> ('i prefixDBIterator option \<times> error option) res" where
  "PrefixDB_iterate iterate it pdb start end' =
     (if blank start \<or> blank end' then Ret (None, Some errKeyEmpty)
      else let pstart = append_key (p_prefix pdb) start in
        bindR (if end' = None then cpIncr (p_prefix pdb) else Ret (append_key (p_prefix pdb) end')) (\<lambda>pend.
        bindR (iterate (p_db pdb) pstart pend) (\<lambda>(itr, err).
          if err \<noteq> None then Ret (None, err)
          else case itr of
                 None \<Rightarrow> Panic ''nil pointer dereference''
               | Some src \<Rightarrow> newPrefixIterator it (p_prefix pdb) start end' src)))"

definition PrefixDB_Iterator ::
  "('s, 'i, 'b) DB \<Rightarrow> 's PrefixDB \<Rightarrow> slice \<Rightarrow> slice \<Rightarrow> ('i prefixDBIterator option \<times> error option) res" where
  "PrefixDB_Iterator db = PrefixDB_iterate (D_Iterator db) (D_itr db)"

definition PrefixDB_ReverseIterator ::
  "('s, 'i, 'b) DB \<Rightarrow> 's PrefixDB \<Rightarrow> slice \<Rightarrow> slice \<Rightarrow> ('i prefixDBIterator option \<times> error option) res" where
  "PrefixDB_ReverseIterator db = PrefixDB_iterate (D_ReverseIterator db) (D_itr db)"

section \<open>The batch\<close>

record 'b prefixDBBatch =
  pb_prefix :: slice
  pb_source :: 'b

definition newPrefixBatch :: "slice \<Rightarrow> 'b \<Rightarrow> 'b prefixDBBatch" where
  "newPrefixBatch pre src = \<lparr>pb_prefix = pre, pb_source = src\<rparr>"

definition prefixDBBatch_Set ::
  "('s, 'b) Batch \<Rightarrow> 'b prefixDBBatch \<Rightarrow> slice \<Rightarrow> slice \<Rightarrow> 'b prefixDBBatch \<times> error option" where
  "prefixDBBatch_Set bat pb k v =
     (if len k = 0 then (pb, Some errKeyEmpty)
      else if v = None then (pb, Some errValueNil)
      else let (src, err) = B_Set bat (pb_source pb) (append_key (pb_prefix pb) k) v
        in (pb\<lparr>pb_source := src\<rparr>, err))"

definition prefixDBBatch_Delete ::
  "('s, 'b) Batch \<Rightarrow> 'b prefixDBBatch \<Rightarrow> slice \<Rightarrow> 'b prefixDBBatch \<times> error option" where
  "prefixDBBatch_Delete bat pb k =
     (if len k = 0 then (pb, Some errKeyEmpty)
      else let (src, err) = B_Delete bat (pb_source pb) (append_key (pb_prefix pb) k)
        in (pb\<lparr>pb_source := src\<rparr>, err))"

definition prefixDBBatch_Write ::
  "('s, 'b) Batch \<Rightarrow> 'b prefixDBBatch \<Rightarrow> 's PrefixDB \<Rightarrow> 'b prefixDBBatch \<times> 's PrefixDB \<times> error option" where
  "prefixDBBatch_Write bat pb pdb =
     (let (src, s, err) = B_Write bat (pb_source pb) (p_db pdb)
      in (pb\<lparr>pb_source := src\<rparr>, pdb\<lparr>p_db := s\<rparr>, err))"

definition prefixDBBatch_WriteSync ::
  "('s, 'b) Batch \<Rightarrow> 'b prefixDBBatch \<Rightarrow> 's PrefixDB \<Rightarrow> 'b prefixDBBatch \<times> 's PrefixDB \<times> error option" where
  "prefixDBBatch_WriteSync bat pb pdb =
     (let (src, s, err) = B_WriteSync bat (pb_source pb) (p_db pdb)
      in (pb\<lparr>pb_source := src\<rparr>, pdb\<lparr>p_db := s\<rparr>, err))"

definition prefixDBBatch_Close ::
  "('s, 'b) Batch \<Rightarrow> 'b prefixDBBatch \<Rightarrow> 'b prefixDBBatch \<times> error option" where
  "prefixDBBatch_Close bat pb =
     (let (src, err) = B_Close bat (pb_source pb) in (pb\<lparr>pb_source := src\<rparr>, err))"

definition prefixDBBatch_iface :: "('s, 'b) Batch \<Rightarrow> ('s PrefixDB, 'b prefixDBBatch) Batch" where
  "prefixDBBatch_iface bat =
     \<lparr>B_Set = prefixDBBatch_Set bat, B_Delete = prefixDBBatch_Delete bat,
      B_Write = prefixDBBatch_Write bat, B_WriteSync = prefixDBBatch_WriteSync bat,
      B_Close = prefixDBBatch_Close bat\<rparr>"

definition PrefixDB_NewBatch :: "('s, 'i, 'b) DB \<Rightarrow> 's PrefixDB \<Rightarrow> 'b prefixDBBatch" where
  "PrefixDB_NewBatch db pdb = newPrefixBatch (p_prefix pdb) (D_NewBatch db (p_db pdb))"

section \<open>Close, Print and Stats\<close>

definition PrefixDB_Close :: "('s, 'i, 'b) DB \<Rightarrow> 's PrefixDB \<Rightarrow> 's PrefixDB \<times> error option" where
  "PrefixDB_Close db pdb = (let (s, err) = D_Close db (p_db pdb) in (pdb\<lparr>p_db := s\<rparr>, err))"

definition PrefixDB_Print :: "('s, 'i, 'b) DB \<Rightarrow> 's PrefixDB \<Rightarrow> (string \<times> error option) res" where
  "PrefixDB_Print db pdb =
     (let out = ''prefix: '' @ fmt_X (p_prefix pdb) @ [CHR 0x0A] in
      bindR (PrefixDB_Iterator db pdb None None) (\<lambda>(itr, err).
        if err \<noteq> None then Ret (out, err)
        else case itr of
               None \<Rightarrow> Panic ''nil pointer dereference''
             | Some i \<Rightarrow> bindR (iter_loop (prefixDBIterator_iface (D_itr db)) i [])
                 (\<lambda>(xs, i). Ret (out @ concat (map print_pair xs), None))))"

definition PrefixDB_Stats :: "('s, 'i, 'b) DB \<Rightarrow> 's PrefixDB \<Rightarrow> strmap" where
  "PrefixDB_Stats db pdb =
     (let stats = [''prefixdb.prefix.string'' \<mapsto> string_of (p_prefix pdb),
                   ''prefixdb.prefix.hex'' \<mapsto> fmt_X (p_prefix pdb)];
          source = D_Stats db (p_db pdb); tag = ''prefixdb.source.''
      in (\<lambda>k. if take (length tag) k = tag \<and> source (drop (length tag) k) \<noteq> None
              then source (drop (length tag) k) else stats k))"

definition PrefixDB_iface ::
  "('s, 'i, 'b) DB \<Rightarrow> ('s PrefixDB, 'i prefixDBIterator, 'b prefixDBBatch) DB" where
  "PrefixDB_iface db =
     \<lparr>D_Get = PrefixDB_Get db, D_Has = PrefixDB_Has db, D_Set = PrefixDB_Set db,
      D_SetSync = PrefixDB_SetSync db, D_Delete = PrefixDB_Delete db,
      D_DeleteSync = PrefixDB_DeleteSync db, D_Iterator = PrefixDB_Iterator db,
      D_ReverseIterator = PrefixDB_ReverseIterator db, D_Close = PrefixDB_Close db,
      D_NewBatch = PrefixDB_NewBatch db, D_Print = PrefixDB_Print db, D_Stats = PrefixDB_Stats db,
      D_itr = prefixDBIterator_iface (D_itr db), D_bat = prefixDBBatch_iface (D_bat db)\<rparr>"

section \<open>Abstraction\<close>

text \<open>The namespace of a prefix: the pairs below it, without the prefix.\<close>

definition strip :: "byte list \<Rightarrow> kv \<Rightarrow> kv" where
  "strip p x = (drop (length p) (fst x), snd x)"

definition namespace :: "byte list \<Rightarrow> kv list \<Rightarrow> kv list" where
  "namespace p xs = map (strip p) (filter (\<lambda>x. strict_prefix p (fst x)) xs)"

fun strip_op :: "byte list \<Rightarrow> kvop \<Rightarrow> kvop" where
  "strip_op p (Put k v) = Put (drop (length p) k) v"
| "strip_op p (Del k) = Del (drop (length p) k)"

definition no_gap :: "byte list \<Rightarrow> kv list \<Rightarrow> bool" where
  "no_gap p xs \<longleftrightarrow> (\<forall>x\<in>set xs. \<not> gap_key p (fst x))"

text \<open>
  The pairs that the iterator still has to return: those of the source up to the first key
  without the prefix, the key that equals the prefix left out.
\<close>

definition pfx_view :: "byte list \<Rightarrow> kv list \<Rightarrow> kv list" where
  "pfx_view p xs = map (strip p) (filter (\<lambda>x. fst x \<noteq> p) (takeWhile (\<lambda>x. prefix p (fst x)) xs))"

definition pfx_rest :: "('i \<Rightarrow> kv list) \<Rightarrow> 'i prefixDBIterator \<Rightarrow> kv list" where
  "pfx_rest rest itr = (if pi_valid itr then pfx_view (sl (pi_prefix itr)) (rest (pi_source itr)) else [])"

definition pfx_iok :: "('i \<Rightarrow> bool) \<Rightarrow> ('i \<Rightarrow> kv list) \<Rightarrow> 'i prefixDBIterator \<Rightarrow> bool" where
  "pfx_iok iok rest itr \<longleftrightarrow> iok (pi_source itr) \<and> pi_err itr = None \<and>
     (pi_valid itr \<longrightarrow> rest (pi_source itr) \<noteq> [] \<and>
        strict_prefix (sl (pi_prefix itr)) (fst (hd (rest (pi_source itr)))))"

text \<open>
  The invariant of a prefix database over a source that has the map \<open>out\<close> outside the
  namespace: no method changes what lies outside.
\<close>

definition pfx_ok ::
  "('s \<Rightarrow> bool) \<Rightarrow> ('s \<Rightarrow> kv list) \<Rightarrow> slice \<Rightarrow> (byte list \<rightharpoonup> byte list) \<Rightarrow> 's PrefixDB \<Rightarrow> bool" where
  "pfx_ok ok ents pre out pdb \<longleftrightarrow> p_prefix pdb = pre \<and> ok (p_db pdb) \<and> no_gap (sl pre) (ents (p_db pdb)) \<and>
     (\<forall>k. \<not> strict_prefix (sl pre) k \<longrightarrow> map_of (ents (p_db pdb)) k = out k)"

definition pfx_ents :: "('s \<Rightarrow> kv list) \<Rightarrow> 's PrefixDB \<Rightarrow> kv list" where
  "pfx_ents ents pdb = namespace (sl (p_prefix pdb)) (ents (p_db pdb))"

definition pfx_bok :: "('b \<Rightarrow> bool) \<Rightarrow> ('b \<Rightarrow> kvop list option) \<Rightarrow> slice \<Rightarrow> 'b prefixDBBatch \<Rightarrow> bool" where
  "pfx_bok bok bops pre pb \<longleftrightarrow> pb_prefix pb = pre \<and> bok (pb_source pb) \<and>
     pred_option (list_all (\<lambda>q. strict_prefix (sl pre) (kvop_key q))) (bops (pb_source pb))"

definition pfx_bops :: "('b \<Rightarrow> kvop list option) \<Rightarrow> 'b prefixDBBatch \<Rightarrow> kvop list option" where
  "pfx_bops bops pb = map_option (map (strip_op (sl (pb_prefix pb)))) (bops (pb_source pb))"

text \<open>The prefix counts towards the size limits of the source.\<close>

definition pfx_fits :: "(byte list \<Rightarrow> byte list \<Rightarrow> bool) \<Rightarrow> slice \<Rightarrow> byte list \<Rightarrow> byte list \<Rightarrow> bool" where
  "pfx_fits fits pre k v \<longleftrightarrow> fits (sl pre @ k) v"

text \<open>The upper bound that \<open>PrefixDB\<close> asks of the source.\<close>

definition pfx_pend :: "byte list \<Rightarrow> slice \<Rightarrow> slice res" where
  "pfx_pend p end' = (if end' = None then cpIncr (Some p) else Ret (append_key (Some p) end'))"

text \<open>
  A source with a pair under the prefix 01FF, the prefix itself as a key, and the key 02, which
  lies between the prefix and its increment 0200.
\<close>

definition gap_example :: "item list MemDB" where
  "gap_example = \<lparr>mem_btree = [newPair (Some [1, 0xFF]) (Some [1]), newPair (Some [1, 0xFF, 5]) (Some [7]),
     newPair (Some [2]) (Some [9])]\<rparr>"

section \<open>Lemmas on namespaces\<close>

lemma append_key_simps [simp]: "append_key pre k = Some (sl pre @ sl k)"
  by (simp add: append_key_def)

lemma strict_prefixE_app: "strict_prefix p k \<longleftrightarrow> (\<exists>z. z \<noteq> [] \<and> k = p @ z)"
  by (auto simp: strict_prefix_def prefix_def)

lemma namespace_Nil [simp]: "namespace p [] = []"
  by (simp add: namespace_def)

lemma namespace_Cons:
  "namespace p (x # xs) = (if strict_prefix p (fst x) then strip p x # namespace p xs else namespace p xs)"
  by (simp add: namespace_def)

lemma namespace_append: "namespace p (xs @ ys) = namespace p xs @ namespace p ys"
  by (simp add: namespace_def)

lemma namespace_rev: "namespace p (rev xs) = rev (namespace p xs)"
  by (simp add: namespace_def rev_filter rev_map)

lemma namespace_filter:
  assumes "\<And>z v. z \<noteq> [] \<Longrightarrow> P (p @ z, v) \<longleftrightarrow> Q (z, v)"
  shows "namespace p (filter P xs) = filter Q (namespace p xs)"
  by (induction xs) (auto simp: namespace_Cons strict_prefixE_app strip_def assms)

lemma set_namespace: "(k, v) \<in> set (namespace p xs) \<longleftrightarrow> k \<noteq> [] \<and> (p @ k, v) \<in> set xs"
  by (force simp: namespace_def strict_prefixE_app strip_def image_iff)

lemma kv_wf_namespace: "kv_wf xs \<Longrightarrow> kv_wf (namespace p xs)"
proof (induction xs)
  case (Cons x xs)
  then have "kv_wf xs" by (simp add: kv_wf_def)
  moreover have "drop (length p) (fst x) < fst y"
    if "strict_prefix p (fst x)" "y \<in> set (namespace p xs)" for y
  proof -
    obtain k v where y: "y = (k, v)" by (cases y)
    then have "(p @ k, v) \<in> set xs" using that(2) by (simp add: set_namespace)
    then have "fst x < p @ k" using Cons.prems by (fastforce simp: kv_wf_def)
    then show ?thesis using that(1) y by (auto simp: strict_prefixE_app)
  qed
  ultimately show ?case
    using Cons.IH by (auto simp: namespace_Cons kv_wf_def strip_def strict_prefixE_app)
qed (simp add: kv_wf_def)

lemma map_of_namespace: "k \<noteq> [] \<Longrightarrow> map_of (namespace p xs) k = map_of xs (p @ k)"
  by (induction xs) (auto simp: namespace_Cons strip_def strict_prefixE_app)

lemma namespace_set:
  assumes "k \<noteq> []"
  shows "namespace p (kv_set (p @ k) v xs) = kv_set k v (namespace p xs)"
proof -
  have "namespace p (filter (\<lambda>x. fst x < p @ k) xs) = filter (\<lambda>x. fst x < k) (namespace p xs)"
    by (rule namespace_filter) simp
  moreover have "namespace p (filter (\<lambda>x. p @ k < fst x) xs) = filter (\<lambda>x. k < fst x) (namespace p xs)"
    by (rule namespace_filter) simp
  ultimately show ?thesis
    using assms by (simp add: kv_set_def namespace_append namespace_Cons strip_def strict_prefixE_app)
qed

lemma namespace_del: "namespace p (kv_del (p @ k) xs) = kv_del k (namespace p xs)"
  unfolding kv_del_def by (rule namespace_filter) simp

lemma namespace_apply_all:
  "list_all (\<lambda>q. strict_prefix p (kvop_key q)) ops \<Longrightarrow>
     namespace p (kv_apply_all ops xs) = kv_apply_all (map (strip_op p) ops) (namespace p xs)"
proof (induction ops arbitrary: xs)
  case (Cons q ops)
  then show ?case
    by (cases q) (auto simp: strict_prefixE_app namespace_set namespace_del)
qed simp

text \<open>What lies outside a namespace is not touched by writes into it.\<close>

lemma map_of_apply_outside:
  assumes "kv_sorted xs" and "list_all (\<lambda>q. strict_prefix p (kvop_key q)) ops" and "\<not> strict_prefix p k"
  shows "map_of (kv_apply_all ops xs) k = map_of xs k"
  using assms
proof (induction ops arbitrary: xs)
  case (Cons q ops)
  then have "kv_sorted (kv_apply q xs)" by (cases q) (simp_all add: kv_simps)
  then have "map_of (kv_apply_all (q # ops) xs) k = map_of (kv_apply q xs) k"
    using Cons by simp
  also have "\<dots> = map_of xs k"
    using Cons.prems by (cases q) (auto simp: kv_simps)
  finally show ?case .
qed simp

lemma no_gap_subset: "no_gap p xs \<Longrightarrow> set ys \<subseteq> set xs \<Longrightarrow> no_gap p ys"
  by (auto simp: no_gap_def)

lemma no_gap_set: "no_gap p xs \<Longrightarrow> no_gap p (kv_set (p @ k) v xs)"
  using gap_key_not_prefix [of p "p @ k"] by (auto simp: no_gap_def kv_set_def)

lemma no_gap_del: "no_gap p xs \<Longrightarrow> no_gap p (kv_del k xs)"
  by (auto simp: no_gap_def kv_del_def)

lemma no_gap_apply_all:
  "list_all (\<lambda>q. strict_prefix p (kvop_key q)) ops \<Longrightarrow> no_gap p xs \<Longrightarrow> no_gap p (kv_apply_all ops xs)"
proof (induction ops arbitrary: xs)
  case (Cons q ops)
  then have "no_gap p (kv_apply q xs)"
    by (cases q) (auto simp: strict_prefixE_app no_gap_set no_gap_del)
  then show ?case using Cons by simp
qed simp

text \<open>A prefix that does not end in 0xFF, or that holds nothing else, has no gap keys.\<close>

lemma gap_key_nested:
  assumes "gap_key q k"
  shows "gap_key (p @ q) (p @ k)"
proof -
  have "trail (p @ q) = trail q \<and> incr_head (p @ q) = p @ incr_head q" if "\<exists>b\<in>set q. b \<noteq> 0xFF"
    using that
  proof (induction q rule: rev_induct)
    case (snoc b q)
    then show ?case
      using trail_snoc [of "p @ q" b] incr_head_snoc [of "p @ q" b] by (auto simp del: append_assoc simp: append_assoc [symmetric])
  qed simp
  with assms show ?thesis by (auto simp: gap_key_def)
qed

lemma no_gap_nested: "no_gap (p @ q) xs \<Longrightarrow> no_gap q (namespace p xs)"
  using gap_key_nested [of q _ p] by (fastforce simp: no_gap_def set_namespace)

lemma no_gap_exact: "trail p = 0 \<or> (\<forall>b\<in>set p. b = 0xFF) \<Longrightarrow> no_gap p xs"
  using gap_key_trail gap_key_all_max by (auto simp: no_gap_def)

section \<open>The source range of a namespace\<close>

text \<open>
  The domain that \<open>PrefixDB\<close> asks of the source: keys with the prefix in the inner domain,
  the key equal to the prefix when the inner domain is open below, and the gap keys when it
  is open above.
\<close>

lemma pfx_domain:
  assumes "p \<noteq> []" and "pfx_pend p end' = Ret pend"
  shows "IsKeyInDomain (Some k) (Some (p @ sl start)) pend \<longleftrightarrow>
    (\<exists>z. k = p @ z \<and> IsKeyInDomain (Some z) start end') \<or> (end' = None \<and> gap_key p k \<and> p @ sl start \<le> k)"
proof (cases end')
  case None
  then have c: "cpIncr (Some p) = Ret pend" using assms(2) by (simp add: pfx_pend_def)
  have "p \<le> p @ sl start" by (simp add: prefix_le)
  then have "IsKeyInDomain (Some k) (Some (p @ sl start)) pend \<longleftrightarrow>
      p @ sl start \<le> k \<and> IsKeyInDomain (Some k) (Some p) pend"
    by (auto simp: IsKeyInDomain_iff split: option.splits)
  also have "\<dots> \<longleftrightarrow> p @ sl start \<le> k \<and> (prefix p k \<or> gap_key p k)"
    by (simp add: cpIncr_range [OF assms(1) c])
  finally show ?thesis using None by (auto simp: IsKeyInDomain_iff prefix_def)
next
  case (Some e)
  then have "pend = Some (p @ e)" using assms(2) by (simp add: pfx_pend_def)
  moreover have "prefix p k" if "p @ sl start \<le> k" "k < p @ e"
    using that prefix_between [of p k e] prefix_le [of p "p @ sl start"] by auto
  ultimately show ?thesis using Some by (auto simp: IsKeyInDomain_iff prefix_def)
qed

lemma gap_key_above:
  assumes "p \<noteq> []" and "gap_key p k" and "prefix p a"
  shows "a < k"
proof -
  have ex: "\<exists>b\<in>set p. b \<noteq> 0xFF" using assms(2) by (simp add: gap_key_def)
  then obtain q b where qb: "b \<noteq> 0xFF" "p = q @ b # replicate (trail p) 0xFF" "incr_head p = q @ [b + 1]"
    using decompose_trail by blast
  then obtain j where k: "k = q @ (b + 1) # replicate j 0" using assms(2) by (auto simp: gap_key_def)
  obtain z where a: "a = q @ b # replicate (trail p) 0xFF @ z"
    using assms(3) qb(2) by (metis append_Cons append_assoc prefix_def)
  have "b < b + 1" using byte_less_incr [OF qb(1), of b] by simp
  then show ?thesis using a k by simp
qed

lemma gap_key_start: "p \<noteq> [] \<Longrightarrow> gap_key p k \<Longrightarrow> p @ s \<le> k"
  using gap_key_above [of p k "p @ s"] by (simp add: less_imp_le)

lemma pfx_view_all:
  assumes "p \<noteq> []" and "pfx_pend p end' = Ret pend"
  shows "map (strip p) (filter (\<lambda>x. fst x \<noteq> p) (filter (\<lambda>x. prefix p (fst x))
      (kv_range (Some (p @ sl start)) pend xs))) = kv_range start end' (namespace p xs)"
proof -
  have "filter (\<lambda>x. fst x \<noteq> p) (filter (\<lambda>x. prefix p (fst x)) ys) = filter (\<lambda>x. strict_prefix p (fst x)) ys"
    for ys :: "kv list"
    by (auto simp: strict_prefix_def intro!: filter_cong)
  moreover have "namespace p (kv_range (Some (p @ sl start)) pend xs) = kv_range start end' (namespace p xs)"
    unfolding kv_range_def
    by (rule namespace_filter) (auto simp: pfx_domain [OF assms] dest: gap_key_not_prefix)
  ultimately show ?thesis by (simp add: namespace_def)
qed

lemma pfx_view_forward:
  assumes "p \<noteq> []" and "pfx_pend p end' = Ret pend" and "kv_wf xs"
  shows "pfx_view p (kv_scan False (Some (p @ sl start)) pend xs) = kv_scan False start end' (namespace p xs)"
proof -
  let ?ys = "kv_range (Some (p @ sl start)) pend xs"
  have above: "\<forall>x\<in>set ?ys. p \<le> fst x"
    using prefix_le [of p "p @ sl start"] by (auto simp: kv_range_def IsKeyInDomain_iff)
  have "kv_sorted ?ys" using assms(3) by (simp add: kv_range_def kv_wf_def kv_sorted_filter)
  then have srt: "sorted_wrt (\<lambda>x y. fst x < fst y \<and> p \<le> fst x) ?ys"
    using above by (auto simp: kv_sorted_def sorted_wrt_map elim!: sorted_wrt_mono_rel [rotated])
  have "takeWhile (\<lambda>x. prefix p (fst x)) ?ys = filter (\<lambda>x. prefix p (fst x)) ?ys"
  proof (rule takeWhile_filter_sorted [OF srt])
    fix x y :: kv
    assume "fst x < fst y \<and> p \<le> fst x" and "prefix p (fst y)"
    then show "prefix p (fst x)" using prefix_between [of p "fst x"] by (auto elim: prefixE)
  qed
  then show ?thesis using pfx_view_all [OF assms(1,2), of start xs] by (simp add: pfx_view_def kv_scan_def)
qed

lemma pfx_view_reverse:
  assumes "p \<noteq> []" and "pfx_pend p end' = Ret pend" and "no_gap p xs \<or> end' \<noteq> None"
  shows "pfx_view p (kv_scan True (Some (p @ sl start)) pend xs) = kv_scan True start end' (namespace p xs)"
proof -
  let ?ys = "kv_range (Some (p @ sl start)) pend xs"
  have all: "\<forall>x\<in>set ?ys. prefix p (fst x)"
    using assms(3) by (auto simp: kv_range_def pfx_domain [OF assms(1,2)] no_gap_def)
  then have "filter (\<lambda>x. prefix p (fst x)) ?ys = ?ys" by (simp add: filter_id_conv)
  then have view: "map (strip p) (filter (\<lambda>x. fst x \<noteq> p) ?ys) = kv_range start end' (namespace p xs)"
    using pfx_view_all [OF assms(1,2), of start xs] by metis
  have "takeWhile (\<lambda>x. prefix p (fst x)) (rev ?ys) = rev ?ys"
    using all by (simp add: takeWhile_eq_all_conv)
  then show ?thesis
    unfolding pfx_view_def kv_scan_def
    by (simp only: if_True rev_filter [symmetric] rev_map [symmetric] view)
qed

text \<open>Backwards and without an upper end, the first key the source returns is a stored gap key.\<close>

lemma pfx_view_gap:
  assumes "p \<noteq> []" and "pfx_pend p None = Ret pend" and "kv_wf xs" and "g \<in> set xs" and "gap_key p (fst g)"
  shows "pfx_view p (kv_scan True (Some (p @ sl start)) pend xs) = []"
proof -
  let ?ys = "kv_range (Some (p @ sl start)) pend xs"
  have g: "g \<in> set ?ys"
    using assms(4,5) gap_key_start [OF assms(1,5)] by (simp add: kv_range_def pfx_domain [OF assms(1,2)])
  then obtain zs z where z: "?ys = zs @ [z]" by (cases ?ys rule: rev_cases) auto
  have "kv_sorted ?ys" using assms(3) by (simp add: kv_range_def kv_wf_def kv_sorted_filter)
  then have "fst g \<le> fst z" using g z by (auto simp: kv_sorted_append less_imp_le)
  then have "\<not> prefix p (fst z)" using gap_key_above [OF assms(1,5), of "fst z"] by auto
  then show ?thesis using z by (simp add: kv_scan_def pfx_view_def)
qed

section \<open>The iterator keeps the contract of its source\<close>

lemmas prefixDBIterator_defs [op_defs] =
  prefixDBIterator_iface_def prefixDBIterator_Domain_def prefixDBIterator_Key_def
  prefixDBIterator_Value_def prefixDBIterator_Error_def prefixDBIterator_Close_def
  prefixDBIterator_assertIsValid_def

lemma pfx_view_Nil [simp]: "pfx_view p [] = []"
  by (simp add: pfx_view_def)

lemma pfx_view_Cons [simp]:
  "pfx_view p (x # xs) =
     (if \<not> prefix p (fst x) then [] else if fst x = p then pfx_view p xs else strip p x # pfx_view p xs)"
  by (cases "prefix p (fst x)"; cases "fst x = p") 
     (simp_all only: pfx_view_def takeWhile.simps filter.simps list.map if_True if_False simp_thms)

context iterator_contract
begin

lemma src_test_spec:
  "iok i \<Longrightarrow> \<exists>i'. src_test it P i = Ret (case rest i of [] \<Rightarrow> False | x # _ \<Rightarrow> P (Some (fst x)), i')
     \<and> it_moved it iok rest i (rest i) i'"
proof -
  assume "iok i"
  then obtain i1 where 1: "I_Valid it i = Ret (rest i \<noteq> [], i1)" "it_moved it iok rest i (rest i) i1"
    using it_valid by blast
  show ?thesis
  proof (cases "rest i")
    case (Cons x xs)
    obtain k v where x: "x = (k, v)" by (cases x)
    with 1 Cons obtain i2 where "I_Key it i1 = Ret (Some k, i2)" "it_moved it iok rest i1 (rest i1) i2"
      using it_key [of i1 k v xs] by (auto simp: it_moved_def)
    with 1 Cons x show ?thesis by (auto simp: src_test_def it_moved_def)
  qed (use 1 in \<open>auto simp: src_test_def\<close>)
qed

lemma prefix_valid_True:
  assumes "iok (pi_source itr)" and "pi_valid itr" and "pi_err itr = None"
    and "rest (pi_source itr) = x # xs" and "prefix (sl (pi_prefix itr)) (fst x)"
  shows "\<exists>src. prefixDBIterator_Valid it itr = Ret (True, itr\<lparr>pi_source := src\<rparr>)
    \<and> it_moved it iok rest (pi_source itr) (x # xs) src"
proof -
  obtain k v where x: "x = (k, v)" by (cases x)
  obtain i1 where 1: "I_Valid it (pi_source itr) = Ret (True, i1)"
    "it_moved it iok rest (pi_source itr) (x # xs) i1" using it_valid [OF assms(1)] assms(4) by auto
  then obtain i2 where 2: "I_Key it i1 = Ret (Some k, i2)" "it_moved it iok rest i1 (x # xs) i2"
    using it_key [of i1 k v xs] x by (auto simp: it_moved_def)
  have "\<not> (len (Some k) < len (pi_prefix itr) \<or> take (len (pi_prefix itr)) k \<noteq> sl (pi_prefix itr))"
    using assms(5) x by (auto simp: len_def prefix_def)
  then show ?thesis using 1 2 assms(2,3) by (auto simp: prefixDBIterator_Valid_def it_moved_def)
qed

lemma prefix_next_source:
  assumes "iok (pi_source itr)" and "pi_valid itr" and "pi_err itr = None"
    and "rest (pi_source itr) = x # xs" and "prefix (sl (pi_prefix itr)) (fst x)"
  obtains i1 i2 i3 where "prefixDBIterator_assertIsValid it itr = Ret (itr\<lparr>pi_source := i1\<rparr>)"
    and "I_Next it i1 = Ret i2"
    and "src_test it (\<lambda>k. bytes_HasPrefix k (pi_prefix itr)) i2 =
      Ret (case xs of [] \<Rightarrow> False | y # ys \<Rightarrow> prefix (sl (pi_prefix itr)) (fst y), i3)"
    and "iok i3" and "rest i3 = xs"
proof -
  obtain i1 where 1: "prefixDBIterator_assertIsValid it itr = Ret (itr\<lparr>pi_source := i1\<rparr>)"
    "iok i1" "rest i1 = x # xs"
    using prefix_valid_True [OF assms] assms(4) by (auto simp: prefixDBIterator_assertIsValid_def it_moved_def)
  then obtain i2 where 2: "I_Next it i1 = Ret i2" "iok i2" "rest i2 = xs"
    using it_next [of i1 x xs] by (auto simp: it_moved_def)
  then show thesis
    using that [OF 1(1) 2(1)] src_test_spec [of i2 "\<lambda>k. bytes_HasPrefix k (pi_prefix itr)"]
    by (cases xs) (auto simp: it_moved_def bytes_HasPrefix_iff)
qed

lemma prefix_next:
  assumes "iok (pi_source itr)" and "pi_valid itr" and "pi_err itr = None"
    and "rest (pi_source itr) = x # xs" and "prefix (sl (pi_prefix itr)) (fst x)"
  shows "\<exists>itr'. prefixDBIterator_Next it itr = Ret itr' \<and> pfx_iok iok rest itr'
    \<and> pfx_rest rest itr' = pfx_view (sl (pi_prefix itr)) xs
    \<and> prefixDBIterator_Domain itr' = prefixDBIterator_Domain itr"
  using assms
proof (induction xs arbitrary: itr x)
  case (Cons y ys)
  let ?p = "pi_prefix itr"
  obtain i1 i2 i3 where 1: "prefixDBIterator_assertIsValid it itr = Ret (itr\<lparr>pi_source := i1\<rparr>)" "I_Next it i1 = Ret i2"
    "src_test it (\<lambda>k. bytes_HasPrefix k ?p) i2 = Ret (prefix (sl ?p) (fst y), i3)" "iok i3" "rest i3 = y # ys"
    using prefix_next_source [OF Cons.prems] unfolding list.case by metis
  then obtain i4 where 2: "I_Key it i3 = Ret (Some (fst y), i4)" "iok i4" "rest i4 = y # ys"
    using it_key [of i3 "fst y" "snd y" ys] by (auto simp: it_moved_def)
  note step = prefixDBIterator_Next.simps [of it itr]
  consider (out) "\<not> prefix (sl ?p) (fst y)" | (same) "fst y = sl ?p"
    | (inside) "prefix (sl ?p) (fst y)" "fst y \<noteq> sl ?p" by blast
  then show ?case
  proof cases
    case out
    then show ?thesis using 1 Cons.prems
      by (simp add: step pfx_iok_def pfx_rest_def prefixDBIterator_Domain_def)
  next
    case same
    then show ?thesis
      using 1 2 Cons.prems Cons.IH [of "itr\<lparr>pi_source := i4\<rparr>" y]
      by (simp add: step bytes_Equal_iff prefixDBIterator_Domain_def)
  next
    case inside
    then show ?thesis using 1 2 Cons.prems
      by (simp add: step bytes_Equal_iff pfx_iok_def pfx_rest_def prefixDBIterator_Domain_def
          strict_prefix_def)
  qed
next
  case Nil
  from prefix_next_source [OF Nil.prems] obtain i1 i2 i3 where
    "prefixDBIterator_assertIsValid it itr = Ret (itr\<lparr>pi_source := i1\<rparr>)" "I_Next it i1 = Ret i2"
    "src_test it (\<lambda>k. bytes_HasPrefix k (pi_prefix itr)) i2 = Ret (False, i3)" "iok i3" "rest i3 = []"
    by auto
  with Nil.prems show ?case
    by (simp add: prefixDBIterator_Next.simps [of it itr] pfx_iok_def pfx_rest_def prefixDBIterator_Domain_def)
qed

lemma prefix_head:
  assumes "pfx_iok iok rest itr" and "pi_valid itr"
  obtains k v xs src where "rest (pi_source itr) = (sl (pi_prefix itr) @ k, v) # xs" "k \<noteq> []"
    "pfx_rest rest itr = (k, v) # pfx_view (sl (pi_prefix itr)) xs"
    "prefixDBIterator_Valid it itr = Ret (True, itr\<lparr>pi_source := src\<rparr>)"
    "it_moved it iok rest (pi_source itr) (rest (pi_source itr)) src"
proof -
  obtain x xs where r: "rest (pi_source itr) = x # xs" "strict_prefix (sl (pi_prefix itr)) (fst x)"
    using assms by (cases "rest (pi_source itr)") (auto simp: pfx_iok_def)
  obtain k where k: "k \<noteq> []" "fst x = sl (pi_prefix itr) @ k"
    using r(2) by (auto simp: strict_prefixE_app)
  obtain src where "prefixDBIterator_Valid it itr = Ret (True, itr\<lparr>pi_source := src\<rparr>)"
    "it_moved it iok rest (pi_source itr) (x # xs) src"
    using prefix_valid_True [of itr x xs] assms r by (auto simp: pfx_iok_def strict_prefix_def)
  then show ?thesis
    using that [of k "snd x" xs src] r k assms(2)
    by (cases x) (auto simp: pfx_rest_def strip_def)
qed

lemma prefix_empty:
  assumes "pfx_iok iok rest itr" and "pfx_rest rest itr = []"
  shows "\<not> pi_valid itr"
proof
  assume "pi_valid itr"
  from prefix_head [OF assms(1) this] assms(2) show False by (metis list.distinct(1))
qed

lemma prefix_iterator_walk:
  "iterator_walk (prefixDBIterator_iface it) (pfx_iok iok rest) (pfx_rest rest) Some"
proof (unfold_locales, goal_cases)
  case (1 itr)
  show ?case
  proof (cases "pi_valid itr")
    case True
    from prefix_head [OF 1 True] obtain x xs src where "pfx_rest rest itr = x # xs"
      "prefixDBIterator_Valid it itr = Ret (True, itr\<lparr>pi_source := src\<rparr>)"
      "it_moved it iok rest (pi_source itr) (rest (pi_source itr)) src" by metis
    with 1 True show ?thesis
      by (auto simp: prefixDBIterator_iface_def it_moved_def pfx_iok_def pfx_rest_def
          prefixDBIterator_Domain_def)
  qed (use 1 in \<open>auto simp: prefixDBIterator_iface_def prefixDBIterator_Valid_def it_moved_def pfx_rest_def\<close>)
next
  case (2 itr k v xs)
  then have valid: "pi_valid itr" by (auto simp: pfx_rest_def split: if_splits)
  from prefix_head [OF 2(1) valid] obtain k' v' xs' src where
    h: "rest (pi_source itr) = (sl (pi_prefix itr) @ k', v') # xs'" "k' \<noteq> []"
    "pfx_rest rest itr = (k', v') # pfx_view (sl (pi_prefix itr)) xs'"
    "prefixDBIterator_Valid it itr = Ret (True, itr\<lparr>pi_source := src\<rparr>)"
    "it_moved it iok rest (pi_source itr) (rest (pi_source itr)) src" .
  then obtain src' where "I_Key it src = Ret (Some (sl (pi_prefix itr) @ k'), src')"
    "it_moved it iok rest src (rest src) src'"
    using it_key [of src "sl (pi_prefix itr) @ k'" v' xs'] by (auto simp: it_moved_def)
  with h 2 valid show ?case
    by (auto simp: prefixDBIterator_defs it_moved_def pfx_iok_def pfx_rest_def len_def)
next
  case (3 itr k v xs)
  then have valid: "pi_valid itr" by (auto simp: pfx_rest_def split: if_splits)
  from prefix_head [OF 3(1) valid] obtain k' v' xs' src where
    h: "rest (pi_source itr) = (sl (pi_prefix itr) @ k', v') # xs'" "k' \<noteq> []"
    "pfx_rest rest itr = (k', v') # pfx_view (sl (pi_prefix itr)) xs'"
    "prefixDBIterator_Valid it itr = Ret (True, itr\<lparr>pi_source := src\<rparr>)"
    "it_moved it iok rest (pi_source itr) (rest (pi_source itr)) src" .
  then obtain src' where "I_Value it src = Ret (Some v', src')" "it_moved it iok rest src (rest src) src'"
    using it_value [of src "sl (pi_prefix itr) @ k'" v' xs'] by (auto simp: it_moved_def)
  with h 3 valid show ?case
    by (auto simp: prefixDBIterator_defs it_moved_def pfx_iok_def pfx_rest_def)
next
  case (4 itr x xs)
  then have valid: "pi_valid itr" by (auto simp: pfx_rest_def split: if_splits)
  from prefix_head [OF 4(1) valid] obtain k' v' xs' src where
    h: "rest (pi_source itr) = (sl (pi_prefix itr) @ k', v') # xs'"
    "pfx_rest rest itr = (k', v') # pfx_view (sl (pi_prefix itr)) xs'" by metis
  with prefix_next [of itr "(sl (pi_prefix itr) @ k', v')" xs'] 4 valid show ?case
    by (auto simp: prefixDBIterator_iface_def it_moved_def pfx_iok_def)
qed

lemma prefix_iterator_contract:
  "iterator_contract (prefixDBIterator_iface it) (pfx_iok iok rest) (pfx_rest rest)"
proof (rule iterator_contract.intro [OF prefix_iterator_walk iterator_contract_axioms.intro], goal_cases)
  case (4 itr)
  then show ?case by (simp add: prefixDBIterator_defs pfx_iok_def it_error)
next
  case (5 itr)
  then show ?case
    using it_close [of "pi_source itr"] by (simp add: prefixDBIterator_defs pfx_iok_def split_beta)
next
  case (3 itr)
  then have "\<not> pi_valid itr" by (rule prefix_empty)
  then have "prefixDBIterator_Next it itr = Panic ''iterator is invalid''"
    by (subst prefixDBIterator_Next.simps)
       (simp add: prefixDBIterator_assertIsValid_def prefixDBIterator_Valid_def)
  then show ?case by (simp add: prefixDBIterator_iface_def)
qed (auto simp: prefixDBIterator_defs prefixDBIterator_Valid_def dest!: prefix_empty)

lemma newPrefixIterator_spec:
  assumes "iok src" and "rest src = xs" and "distinct (map fst xs)"
  shows "\<exists>itr. newPrefixIterator it pre start end' src = Ret (Some itr, None) \<and> pfx_iok iok rest itr
    \<and> pfx_rest rest itr = pfx_view (sl pre) xs \<and> prefixDBIterator_Domain itr = (start, end')"
proof -
  let ?eq = "case xs of [] \<Rightarrow> False | x # _ \<Rightarrow> fst x = sl pre"
  obtain i1 where 1: "src_test it (\<lambda>k. bytes_Equal k pre) src = Ret (?eq, i1)" "iok i1" "rest i1 = xs"
    using src_test_spec [OF assms(1), of "\<lambda>k. bytes_Equal k pre"] assms(2)
    by (auto simp: it_moved_def bytes_Equal_iff split: list.splits)
  obtain i2 where 2: "(if ?eq then I_Next it i1 else Ret i1) = Ret i2" "iok i2"
    "rest i2 = (if ?eq then tl xs else xs)"
  proof (cases ?eq)
    case True
    then obtain x xs' where "xs = x # xs'" by (cases xs) auto
    then show ?thesis using that True it_next [of i1 x xs'] 1 by (auto simp: it_moved_def)
  qed (use that 1 in auto)
  let ?good = "case rest i2 of [] \<Rightarrow> False | x # _ \<Rightarrow> prefix (sl pre) (fst x)"
  obtain i3 where 3: "src_test it (\<lambda>k. bytes_HasPrefix k pre) i2 = Ret (?good, i3)" "iok i3"
    "rest i3 = rest i2"
    using src_test_spec [OF 2(2), of "\<lambda>k. bytes_HasPrefix k pre"]
    by (auto simp: it_moved_def bytes_HasPrefix_iff split: list.splits)
  have hd: "fst (hd (rest i2)) \<noteq> sl pre" if "rest i2 \<noteq> []"
    using that 2(3) assms(3) by (cases xs; cases "tl xs") (auto split: if_splits)
  have view: "pfx_view (sl pre) (rest i2) = pfx_view (sl pre) xs"
    using 2(3) by (cases xs) (auto split: if_splits)
  define itr where "itr = \<lparr>pi_prefix = pre, pi_start = start, pi_end = end', pi_source = i3,
      pi_valid = ?good, pi_err = None\<rparr>"
  have "newPrefixIterator it pre start end' src = Ret (Some itr, None)"
    using 1(1) 2(1) 3(1) by (simp add: newPrefixIterator_def itr_def)
  moreover have "pfx_iok iok rest itr"
    using 3 hd by (cases "rest i2") (auto simp: pfx_iok_def itr_def strict_prefix_def)
  moreover have "pfx_rest rest itr = pfx_view (sl pre) xs"
    using 3(3) view by (cases "rest i2") (auto simp: pfx_rest_def itr_def)
  ultimately show ?thesis by (auto simp: itr_def prefixDBIterator_Domain_def)
qed

end

section \<open>PrefixDB keeps the contract of the database it wraps\<close>

lemma kv_scan_distinct: "kv_wf xs \<Longrightarrow> distinct (map fst (kv_scan r start end' xs))"
  using kv_sorted_distinct [OF kv_sorted_filter, of xs] 
  by (cases r) (simp_all add: kv_scan_def kv_range_def kv_wf_def rev_map [symmetric])

lemma pfx_pend_eq:
  "len pre \<noteq> 0 \<Longrightarrow> (if end' = None then cpIncr pre else Ret (append_key pre end')) = pfx_pend (sl pre) end'"
  using cpIncr_sl [of pre] by (simp add: pfx_pend_def)

lemma op_fits_strip:
  "strict_prefix (sl pre) (kvop_key q) \<Longrightarrow> op_fits (pfx_fits fits pre) (strip_op (sl pre) q) \<longleftrightarrow> op_fits fits q"
  by (cases q) (auto simp: strict_prefixE_app pfx_fits_def)

lemma pfx_pend_Ret: "p \<noteq> [] \<Longrightarrow> \<exists>pend. pfx_pend p end' = Ret pend \<and> \<not> blank pend"
  by (cases end') (auto simp: pfx_pend_def cpIncr_eq incr_head_def Let_def)

context kv_store
begin

lemma PrefixDB_iterate_source:
  assumes "p_prefix pdb = pre" and "len pre \<noteq> 0" and "ok (p_db pdb)"
    and "domain_error start end' = None" and "pfx_pend (sl pre) end' = Ret pend"
  shows "\<exists>itr. (if r then PrefixDB_ReverseIterator db pdb start end' else PrefixDB_Iterator db pdb start end')
      = Ret (Some itr, None) \<and> pfx_iok iok rest itr
    \<and> pfx_rest rest itr = pfx_view (sl pre) (kv_scan r (Some (sl pre @ sl start)) pend (ents (p_db pdb)))
    \<and> prefixDBIterator_Domain itr = (start, end')"
proof -
  let ?ps = "Some (sl pre @ sl start)"
  have "sl pre \<noteq> []" using assms(2) by (simp add: len_def)
  then have dom: "domain_error ?ps pend = None"
    using pfx_pend_Ret [of "sl pre" end'] assms(5) by (auto simp: domain_error_def blank_def len_def)
  obtain src where src: "(if r then D_ReverseIterator db (p_db pdb) ?ps pend else D_Iterator db (p_db pdb) ?ps pend)
      = Ret (Some src, None)" "iok src" "rest src = kv_scan r ?ps pend (ents (p_db pdb))"
    using iterator [OF assms(3) dom] reverse [OF assms(3) dom] by (cases r) auto
  from newPrefixIterator_spec [OF src(2,3) kv_scan_distinct [OF ents_wf [OF assms(3)]], of pre start end']
  show ?thesis
    using src(1) assms(1,4,5) pfx_pend_eq [OF assms(2), of end']
    by (cases r) (auto simp: PrefixDB_Iterator_def PrefixDB_ReverseIterator_def PrefixDB_iterate_def
        domain_error_def Let_def split: if_splits)
qed

lemma PrefixDB_forward:
  assumes "p_prefix pdb = pre" and "len pre \<noteq> 0" and "ok (p_db pdb)" and "domain_error start end' = None"
  shows "\<exists>itr. PrefixDB_Iterator db pdb start end' = Ret (Some itr, None) \<and> pfx_iok iok rest itr
    \<and> pfx_rest rest itr = kv_scan False start end' (pfx_ents ents pdb)
    \<and> prefixDBIterator_Domain itr = (start, end')"
proof -
  have p: "sl pre \<noteq> []" using assms(2) by (simp add: len_def)
  then obtain pend where pend: "pfx_pend (sl pre) end' = Ret pend" using pfx_pend_Ret by blast
  show ?thesis
    using PrefixDB_iterate_source [OF assms pend, of False]
      pfx_view_forward [OF p pend ents_wf [OF assms(3)], of start] assms(1)
    by (simp add: pfx_ents_def)
qed

lemma PrefixDB_reverse:
  assumes "p_prefix pdb = pre" and "len pre \<noteq> 0" and "ok (p_db pdb)" and "domain_error start end' = None"
    and "no_gap (sl pre) (ents (p_db pdb)) \<or> end' \<noteq> None"
  shows "\<exists>itr. PrefixDB_ReverseIterator db pdb start end' = Ret (Some itr, None) \<and> pfx_iok iok rest itr
    \<and> pfx_rest rest itr = kv_scan True start end' (pfx_ents ents pdb)
    \<and> prefixDBIterator_Domain itr = (start, end')"
proof -
  have p: "sl pre \<noteq> []" using assms(2) by (simp add: len_def)
  then obtain pend where pend: "pfx_pend (sl pre) end' = Ret pend" using pfx_pend_Ret by blast
  show ?thesis
    using PrefixDB_iterate_source [OF assms(1-4) pend, of True]
      pfx_view_reverse [OF p pend assms(5), of start] assms(1)
    by (simp add: pfx_ents_def)
qed

lemma prefix_put:
  assumes "pfx_ok ok ents pre out pdb" and "len k \<noteq> 0" and "v \<noteq> None"
    and "pfx_fits fits pre (sl k) (sl v)"
    and "D_Set db (p_db pdb) (append_key pre k) v = (s', e) \<or> D_SetSync db (p_db pdb) (append_key pre k) v = (s', e)"
  shows "e = None \<and> pfx_ok ok ents pre out (pdb\<lparr>p_db := s'\<rparr>)
    \<and> pfx_ents ents (pdb\<lparr>p_db := s'\<rparr>) = kv_set (sl k) (sl v) (pfx_ents ents pdb)"
proof -
  have ok: "ok (p_db pdb)" using assms(1) by (simp add: pfx_ok_def)
  have "set_error (append_key pre k) v = None" using assms(2,3) by (simp add: set_error_def len_def)
  then have "e = None \<and> ok s' \<and> ents s' = kv_set (sl pre @ sl k) (sl v) (ents (p_db pdb))"
    using assms(4,5) set [OF ok, of "append_key pre k" v s' e] set_sync [OF ok, of "append_key pre k" v s' e]
    by (auto simp: set_fits_def pfx_fits_def)
  then show ?thesis
    using assms(1,2) namespace_set [of "sl k" "sl pre"] no_gap_set ents_wf [OF ok]
    by (auto simp: pfx_ok_def pfx_ents_def len_def kv_simps kv_wf_def strict_prefixE_app)
qed

lemma prefix_drop:
  assumes "pfx_ok ok ents pre out pdb" and "len k \<noteq> 0" and "pfx_fits fits pre (sl k) []"
    and "D_Delete db (p_db pdb) (append_key pre k) = (s', e) \<or> D_DeleteSync db (p_db pdb) (append_key pre k) = (s', e)"
  shows "e = None \<and> pfx_ok ok ents pre out (pdb\<lparr>p_db := s'\<rparr>)
    \<and> pfx_ents ents (pdb\<lparr>p_db := s'\<rparr>) = kv_del (sl k) (pfx_ents ents pdb)"
proof -
  have ok: "ok (p_db pdb)" using assms(1) by (simp add: pfx_ok_def)
  have "key_error (append_key pre k) = None" using assms(2) by (simp add: key_error_def len_def)
  then have "e = None \<and> ok s' \<and> ents s' = kv_del (sl pre @ sl k) (ents (p_db pdb))"
    using assms(3,4) delete [OF ok, of "append_key pre k" s' e] delete_sync [OF ok, of "append_key pre k" s' e]
    by (auto simp: key_fits_def pfx_fits_def)
  then show ?thesis
    using assms(1,2) namespace_del no_gap_del
    by (auto simp: pfx_ok_def pfx_ents_def len_def kv_simps strict_prefixE_app)
qed

lemma prefix_flush:
  assumes "pfx_bok bok bops pre pb" and "pfx_ok ok ents pre out pdb"
    and "pred_option (list_all (op_fits (pfx_fits fits pre))) (pfx_bops bops pb)"
    and "B_Write (D_bat db) (pb_source pb) (p_db pdb) = (b', s', e) \<or>
      B_WriteSync (D_bat db) (pb_source pb) (p_db pdb) = (b', s', e)"
  shows "e = batch_error None (pfx_bops bops pb) \<and> pfx_bok bok bops pre (pb\<lparr>pb_source := b'\<rparr>)
    \<and> pfx_bops bops (pb\<lparr>pb_source := b'\<rparr>) = None \<and> pfx_ok ok ents pre out (pdb\<lparr>p_db := s'\<rparr>)
    \<and> pfx_ents ents (pdb\<lparr>p_db := s'\<rparr>) = (case pfx_bops bops pb of None \<Rightarrow> pfx_ents ents pdb
        | Some ops \<Rightarrow> kv_apply_all ops (pfx_ents ents pdb))"
proof -
  have ok: "bok (pb_source pb)" "ok (p_db pdb)" using assms(1,2) by (simp_all add: pfx_ok_def pfx_bok_def)
  have fit: "pred_option (list_all (op_fits fits)) (bops (pb_source pb))"
    using assms(1,3) op_fits_strip [of pre]
    by (cases "bops (pb_source pb)") (auto simp: pfx_bok_def pfx_bops_def list_all_iff)
  have "e = batch_error None (bops (pb_source pb)) \<and> bok b' \<and> bops b' = None \<and> ok s' \<and>
      ents s' = (case bops (pb_source pb) of None \<Rightarrow> ents (p_db pdb) | Some ops \<Rightarrow> kv_apply_all ops (ents (p_db pdb)))"
    using assms(4) batch_write [OF ok fit] batch_write_sync [OF ok fit] by blast
  then show ?thesis
    using assms(1,2) namespace_apply_all no_gap_apply_all map_of_apply_outside ents_wf [OF ok(2)]
    by (cases "bops (pb_source pb)")
       (auto simp: pfx_ok_def pfx_ents_def pfx_bok_def pfx_bops_def batch_error_def kv_wf_def)
qed

lemma PrefixDB_db:
  assumes pre: "len pre \<noteq> 0"
  shows "kv_db (PrefixDB_iface db) (pfx_iok iok rest) (pfx_rest rest) (pfx_ok ok ents pre out) (pfx_ents ents)
    (pfx_fits fits pre)"
proof (rule kv_db.intro [OF _ kv_db_axioms.intro], goal_cases)
  case 1
  show ?case by (simp add: PrefixDB_iface_def prefix_iterator_contract)
next
  case (2 pdb)
  then show ?case using ents_wf by (auto simp: pfx_ok_def pfx_ents_def kv_wf_namespace)
next
  case (3 pdb k)
  then show ?case using map_of_namespace [of "sl k" "sl pre"]
    by (simp add: PrefixDB_iface_def PrefixDB_Get_def PrefixDB_prefixed_def pfx_ok_def pfx_ents_def get len_def)
next
  case (4 pdb k)
  then show ?case using map_of_namespace [of "sl k" "sl pre"]
    by (simp add: PrefixDB_iface_def PrefixDB_Has_def PrefixDB_prefixed_def pfx_ok_def pfx_ents_def has len_def)
next
  case (5 pdb k v pdb' e)
  then have "p_prefix pdb = pre" by (simp add: pfx_ok_def)
  moreover obtain s' err where d: "D_Set db (p_db pdb) (append_key pre k) v = (s', err)" by force
  ultimately show ?case
    using 5 prefix_put [OF 5(1) _ _ _ disjI1 [OF d]]
    by (auto simp: set_fits_def PrefixDB_iface_def PrefixDB_Set_def PrefixDB_prefixed_def set_error_def Let_def
        split: if_splits)
next
  case (6 pdb k v pdb' e)
  then have "p_prefix pdb = pre" by (simp add: pfx_ok_def)
  moreover obtain s' err where d: "D_SetSync db (p_db pdb) (append_key pre k) v = (s', err)" by force
  ultimately show ?case
    using 6 prefix_put [OF 6(1) _ _ _ disjI2 [OF d]]
    by (auto simp: set_fits_def PrefixDB_iface_def PrefixDB_SetSync_def PrefixDB_prefixed_def set_error_def Let_def
        split: if_splits)
next
  case (7 pdb k pdb' e)
  then have "p_prefix pdb = pre" by (simp add: pfx_ok_def)
  moreover obtain s' err where d: "D_Delete db (p_db pdb) (append_key pre k) = (s', err)" by force
  ultimately show ?case
    using 7 prefix_drop [OF 7(1) _ _ disjI1 [OF d]]
    by (auto simp: key_fits_def PrefixDB_iface_def PrefixDB_Delete_def PrefixDB_prefixed_def key_error_def Let_def
        split: if_splits)
next
  case (8 pdb k pdb' e)
  then have "p_prefix pdb = pre" by (simp add: pfx_ok_def)
  moreover obtain s' err where d: "D_DeleteSync db (p_db pdb) (append_key pre k) = (s', err)" by force
  ultimately show ?case
    using 8 prefix_drop [OF 8(1) _ _ disjI2 [OF d]]
    by (auto simp: key_fits_def PrefixDB_iface_def PrefixDB_DeleteSync_def PrefixDB_prefixed_def key_error_def Let_def
        split: if_splits)
next
  case (10 pdb start end')
  then show ?case using PrefixDB_forward [of pdb pre start end'] pre
    by (auto simp: PrefixDB_iface_def prefixDBIterator_iface_def pfx_ok_def)
next
  case (12 pdb start end')
  then show ?case using PrefixDB_reverse [of pdb pre start end'] pre
    by (auto simp: PrefixDB_iface_def prefixDBIterator_iface_def pfx_ok_def)
qed (auto simp: PrefixDB_iface_def PrefixDB_Iterator_def PrefixDB_ReverseIterator_def PrefixDB_iterate_def
       domain_error_def split: if_splits)

lemma PrefixDB_batch:
  "kv_batch (D_bat (PrefixDB_iface db)) (D_NewBatch (PrefixDB_iface db)) (pfx_ok ok ents pre out)
     (pfx_ents ents) (pfx_bok bok bops pre) (pfx_bops bops) (pfx_fits fits pre)"
proof (rule kv_batch.intro, goal_cases)
  case (1 pdb)
  then show ?case using new_batch [of "p_db pdb"]
    by (auto simp: PrefixDB_iface_def PrefixDB_NewBatch_def newPrefixBatch_def pfx_ok_def pfx_bok_def pfx_bops_def)
next
  case (2 pb k v pb' e)
  then have b: "bok (pb_source pb)" "pb_prefix pb = pre" by (simp_all add: pfx_bok_def)
  show ?case
    using 2 b(2) batch_set [OF b(1), of "append_key pre k" v]
    by (auto simp: PrefixDB_iface_def prefixDBBatch_iface_def prefixDBBatch_Set_def set_error_def batch_error_def
        Let_def len_def pfx_bok_def pfx_bops_def batch_add_def strict_prefixE_app option.pred_map
        split: if_splits prod.splits option.splits)
next
  case (3 pb k pb' e)
  then have b: "bok (pb_source pb)" "pb_prefix pb = pre" by (simp_all add: pfx_bok_def)
  show ?case
    using 3 b(2) batch_delete [OF b(1), of "append_key pre k"]
    by (auto simp: PrefixDB_iface_def prefixDBBatch_iface_def prefixDBBatch_Delete_def key_error_def batch_error_def
        Let_def len_def pfx_bok_def pfx_bops_def batch_add_def strict_prefixE_app option.pred_map
        split: if_splits prod.splits option.splits)
next
  case (4 pb pdb pb' pdb' e)
  then show ?case using prefix_flush [OF 4(1-3)]
    by (auto simp: PrefixDB_iface_def prefixDBBatch_iface_def prefixDBBatch_Write_def Let_def split: prod.splits)
next
  case (5 pb pdb pb' pdb' e)
  then show ?case using prefix_flush [OF 5(1-3)]
    by (auto simp: PrefixDB_iface_def prefixDBBatch_iface_def prefixDBBatch_WriteSync_def Let_def split: prod.splits)
next
  case (6 pb pb' e)
  then show ?case using batch_close [of "pb_source pb"]
    by (auto simp: PrefixDB_iface_def prefixDBBatch_iface_def prefixDBBatch_Close_def Let_def pfx_bok_def pfx_bops_def
        split: prod.splits)
qed

lemma PrefixDB_store:
  assumes pre: "len pre \<noteq> 0"
  shows "kv_store (PrefixDB_iface db) (pfx_iok iok rest) (pfx_rest rest) (pfx_ok ok ents pre out) (pfx_ents ents)
    (pfx_bok bok bops pre) (pfx_bops bops) (pfx_fits fits pre)"
  by (rule kv_store.intro [OF PrefixDB_db [OF pre] PrefixDB_batch])

text \<open>The loop over an iterator of a prefix database returns the pairs that remain.\<close>

lemma prefix_loop:
  assumes "pfx_iok iok rest itr"
  shows "\<exists>itr'. iter_loop (prefixDBIterator_iface (D_itr db)) itr [] =
    Ret (map (\<lambda>(k, v). (Some k, Some v)) (pfx_rest rest itr), itr')"
  using iterator_walk.iter_loop_rest [OF iterator_contract.axioms(1) [OF prefix_iterator_contract] assms, of "[]"] by auto

lemma PrefixDB_reverse_gap:
  assumes "p_prefix pdb = pre" and "len pre \<noteq> 0" and "ok (p_db pdb)" and "\<not> blank start"
    and "g \<in> set (ents (p_db pdb))" and "gap_key (sl pre) (fst g)"
  shows "\<exists>itr. PrefixDB_ReverseIterator db pdb start None = Ret (Some itr, None) \<and> pfx_iok iok rest itr
    \<and> pfx_rest rest itr = []"
proof -
  have p: "sl pre \<noteq> []" using assms(2) by (simp add: len_def)
  then obtain pend where pend: "pfx_pend (sl pre) None = Ret pend" using pfx_pend_Ret by blast
  have "domain_error start None = None" using assms(4) by (simp add: domain_error_def blank_def)
  from PrefixDB_iterate_source [OF assms(1-3) this pend, of True]
    pfx_view_gap [OF p pend ents_wf [OF assms(3)] assms(5,6), of start]
  show ?thesis by auto
qed

lemma IteratePrefix_rest:
  assumes "ok s" and "len pre \<noteq> 0"
  shows "\<exists>i. IteratePrefix db s pre = Ret (Some i, None) \<and> iok i
    \<and> rest i = filter (\<lambda>x. prefix (sl pre) (fst x) \<or> gap_key (sl pre) (fst x)) (ents s)"
proof -
  have p: "sl pre \<noteq> []" using assms(2) by (simp add: len_def)
  then obtain e where e: "cpIncr (Some (sl pre)) = Ret e" "\<not> blank e"
    using pfx_pend_Ret [of "sl pre" None] by (auto simp: pfx_pend_def)
  then have "domain_error (Some (sl pre)) e = None" using p by (simp add: domain_error_def blank_def len_def)
  from iterator [OF assms(1) this] show ?thesis
    using assms(2) e(1) cpIncr_sl [OF assms(2)]
    by (auto simp: IteratePrefix_def kv_scan_def kv_range_def cpIncr_range [OF p e(1)])
qed

end

interpretation prefix_mem: kv_store "PrefixDB_iface (MemDB_iface list_btree)"
  "pfx_iok memDBIterator_ok memDBIterator_rest" "pfx_rest memDBIterator_rest"
  "pfx_ok (MemDB_ok list_btree (sorted_wrt item_Less)) (MemDB_ents list_btree) (Some [7]) out"
  "pfx_ents (MemDB_ents list_btree)" "pfx_bok memDBBatch_ok memDBBatch_kvops (Some [7])"
  "pfx_bops memDBBatch_kvops" "pfx_fits any_size (Some [7])"
  by (rule kv_store.PrefixDB_store [OF list_bt.MemDB_store]) simp

lemma namespace_namespace: "namespace q (namespace p xs) = namespace (p @ q) xs"
proof (induction xs)
  case (Cons x xs)
  then show ?case
    by (cases "strict_prefix p (fst x)")
       (auto simp: namespace_Cons strip_def strict_prefixE_app)
qed simp

text \<open>A source is determined by a namespace and by what lies outside of it.\<close>

lemma same_namespace:
  assumes "kv_sorted xs" and "kv_sorted ys" and "namespace p xs = namespace p ys"
    and "\<And>k. \<not> strict_prefix p k \<Longrightarrow> map_of xs k = map_of ys k"
  shows "xs = ys"
proof (rule kv_sorted_unique [OF assms(1,2)], rule ext)
  fix k
  show "map_of xs k = map_of ys k"
  proof (cases "strict_prefix p k")
    case True
    then obtain z where "z \<noteq> []" "k = p @ z" by (auto simp: strict_prefixE_app)
    then show ?thesis using assms(3) map_of_namespace [of z p] by metis
  qed (rule assms(4))
qed

lemma nested_outside:
  assumes "pfx_ok (pfx_ok ok ents pre1 (map_of xs)) (pfx_ents ents) pre2 (map_of (namespace (sl pre1) xs)) outer"
    and "\<not> strict_prefix (sl pre1 @ sl pre2) k"
  shows "map_of (ents (p_db (p_db outer))) k = map_of xs k"
proof (cases "strict_prefix (sl pre1) k")
  case True
  then obtain z where z: "z \<noteq> []" "k = sl pre1 @ z" by (auto simp: strict_prefixE_app)
  then have "\<not> strict_prefix (sl pre2) z" using assms(2) by (auto simp: strict_prefixE_app)
  then have "map_of (namespace (sl pre1) (ents (p_db (p_db outer)))) z = map_of (namespace (sl pre1) xs) z"
    using assms(1) by (auto simp: pfx_ok_def pfx_ents_def)
  then show ?thesis using z by (simp add: map_of_namespace)
qed (use assms(1) in \<open>simp add: pfx_ok_def\<close>)

lemma pfx_fits_pfx_fits: "pfx_fits (pfx_fits fits pre1) pre2 = pfx_fits fits (Some (sl pre1 @ sl pre2))"
  by (simp add: fun_eq_iff pfx_fits_def)

lemma pfx_fits_any_size [simp]: "pfx_fits any_size pre = any_size"
  by (simp add: fun_eq_iff pfx_fits_def)

lemma gap_example_ok:
  "MemDB_ok list_btree (sorted_wrt item_Less) gap_example"
  "MemDB_ents list_btree gap_example = [([1, 0xFF], [1]), ([1, 0xFF, 5], [7]), ([2], [9])]"
  by (simp_all add: MemDB_ok_def MemDB_ents_def gap_example_def list_btree_def item_Less_iff item_ok_def item_kv_def)

lemma gap_example_gap: "gap_key [1, 0xFF] [2]"
  by (simp add: gap_key_def trail_def incr_head_def)

section \<open>Properties\<close>

text \<open>
  C9. A prefix database with a non-empty prefix answers every sequence of calls as an ordered
  list that holds the keys below the prefix, stripped of it, provided that the source keeps the
  contract of the interface, stores no gap key of the prefix and takes the sizes of the writes. What the source holds outside
  the namespace is not changed by any call.
\<close>

theorem PrefixDB_refines_namespace:
  assumes "kv_store db iok rest ok ents bok bops fits" and "len pre \<noteq> 0" and "ok s"
    and "no_gap (sl pre) (ents s)" and "list_all (call_fits (pfx_fits fits pre)) cs"
  shows "\<exists>pdb. db_calls (PrefixDB_iface db) (NewPrefixDB s pre) cs =
      Ret (pdb, snd (spec_calls (namespace (sl pre) (ents s)) cs))
    \<and> p_prefix pdb = pre \<and> ok (p_db pdb)
    \<and> namespace (sl pre) (ents (p_db pdb)) = fst (spec_calls (namespace (sl pre) (ents s)) cs)
    \<and> (\<forall>k. \<not> strict_prefix (sl pre) k \<longrightarrow> map_of (ents (p_db pdb)) k = map_of (ents s) k)"
proof -
  let ?ok = "pfx_ok ok ents pre (map_of (ents s))"
  have "?ok (NewPrefixDB s pre)" using assms(3,4) by (simp add: pfx_ok_def NewPrefixDB_def)
  from kv_store.db_calls_spec [OF kv_store.PrefixDB_store [OF assms(1,2)] this assms(5)]
  show ?thesis by (auto simp: pfx_ok_def pfx_ents_def NewPrefixDB_def)
qed

theorem PrefixDB_refines_namespace_witness:
  "\<exists>pdb. db_calls (PrefixDB_iface (MemDB_iface list_btree)) (NewPrefixDB mem_example (Some [1]))
      [CScan True None None, CSet False (Some [3]) (Some [4]), CDelete True (Some [2])] =
      Ret (pdb, [AScan [(Some [2], Some [])] None, AErr None, AErr None])
    \<and> namespace [1] (MemDB_ents list_btree (p_db pdb)) = [([3], [4])]
    \<and> map_of (MemDB_ents list_btree (p_db pdb)) [3] = Some [30]"
proof -
  note ents = mem_example_ents
  have ng: "no_gap (sl (Some [1])) (MemDB_ents list_btree mem_example)"
    by (rule no_gap_exact) (simp add: trail_def)
  have out: "\<not> strict_prefix [1] [3 :: byte]" by (simp add: strict_prefix_def)
  have "namespace [1] [([1], [10]), ([1, 2], []), ([3], [30])] = [([2], [])]"
    by (simp add: namespace_Cons strict_prefix_def strip_def)
  then show ?thesis
    using PrefixDB_refines_namespace [OF list_bt.MemDB_store _ mem_example_ok ng,
        of "[CScan True None None, CSet False (Some [3]) (Some [4]), CDelete True (Some [2])]"] out
    by (fastforce simp: ents set_error_def key_error_def domain_error_def kv_set_def kv_del_def kv_scan_def
        kv_range_def IsKeyInDomain_iff)
qed

text \<open>
  C10. A forward scan of a prefix database is exact for every non-empty prefix, also when gap
  keys of the prefix are stored: it returns the keys of the namespace that lie in the domain, in
  ascending order, and ends without an error.
\<close>

theorem PrefixDB_forward_scan_exact:
  assumes "kv_store db iok rest ok ents bok bops fits" and "len pre \<noteq> 0" and "ok s"
    and "\<not> blank start" and "\<not> blank end'"
  shows "\<exists>i i'. PrefixDB_Iterator db (NewPrefixDB s pre) start end' = Ret (Some i, None)
    \<and> iter_loop (prefixDBIterator_iface (D_itr db)) i [] =
        Ret (map (\<lambda>(k, v). (Some k, Some v)) (kv_scan False start end' (namespace (sl pre) (ents s))), i')"
proof -
  have "domain_error start end' = None" using assms(4,5) by (simp add: domain_error_def)
  then obtain i where "PrefixDB_Iterator db (NewPrefixDB s pre) start end' = Ret (Some i, None)"
    "pfx_iok iok rest i" "pfx_rest rest i = kv_scan False start end' (namespace (sl pre) (ents s))"
    using kv_store.PrefixDB_forward [OF assms(1), of "NewPrefixDB s pre" pre start end'] assms(2,3)
    by (auto simp: NewPrefixDB_def pfx_ents_def)
  with kv_store.prefix_loop [OF assms(1), of i] show ?thesis by auto
qed

theorem PrefixDB_forward_scan_exact_witness:
  "\<exists>i i'. PrefixDB_Iterator (MemDB_iface list_btree) (NewPrefixDB gap_example (Some [1, 0xFF])) None None
      = Ret (Some i, None)
    \<and> iter_loop (prefixDBIterator_iface (D_itr (MemDB_iface list_btree))) i [] = Ret ([(Some [5], Some [7])], i')"
  using PrefixDB_forward_scan_exact [OF list_bt.MemDB_store _ gap_example_ok(1), of "Some [1, 0xFF]" None None]
  by (simp add: gap_example_ok(2) namespace_Cons strict_prefix_def strip_def kv_scan_def kv_range_def
      IsKeyInDomain_iff)

text \<open>
  C11. A reverse scan without an upper end sees nothing of the namespace as soon as the source
  stores one gap key of the prefix: the iterator it gets is invalid from the start and reports
  no error, whatever the namespace holds.
\<close>

theorem PrefixDB_reverse_scan_hidden_by_gap:
  assumes "kv_store db iok rest ok ents bok bops fits" and "len pre \<noteq> 0" and "ok s" and "\<not> blank start"
    and "map_of (ents s) g \<noteq> None" and "gap_key (sl pre) g"
  shows "\<exists>i i'. PrefixDB_ReverseIterator db (NewPrefixDB s pre) start None = Ret (Some i, None)
    \<and> iter_loop (prefixDBIterator_iface (D_itr db)) i [] = Ret ([], i')
    \<and> prefixDBIterator_Error (D_itr db) i = None"
proof -
  obtain v where "(g, v) \<in> set (ents s)" using assms(5) by (auto dest: map_of_SomeD)
  then obtain i where i: "PrefixDB_ReverseIterator db (NewPrefixDB s pre) start None = Ret (Some i, None)"
    "pfx_iok iok rest i" "pfx_rest rest i = []"
    using kv_store.PrefixDB_reverse_gap [OF assms(1), of "NewPrefixDB s pre" pre start "(g, v)"] assms(2-6)
    by (auto simp: NewPrefixDB_def)
  have "iterator_contract (D_itr db) iok rest" using kv_store.axioms(1) [OF assms(1)] by (rule kv_db.axioms(1))
  then have "prefixDBIterator_Error (D_itr db) i = None"
    using i(2) iterator_contract.it_error by (fastforce simp: prefixDBIterator_Error_def pfx_iok_def)
  with i kv_store.prefix_loop [OF assms(1) i(2)] show ?thesis by auto
qed

theorem PrefixDB_reverse_scan_hidden_by_gap_witness:
  "(\<exists>i i'. PrefixDB_ReverseIterator (MemDB_iface list_btree) (NewPrefixDB gap_example (Some [1, 0xFF])) None None
      = Ret (Some i, None)
    \<and> iter_loop (prefixDBIterator_iface (D_itr (MemDB_iface list_btree))) i [] = Ret ([], i')
    \<and> prefixDBIterator_Error (D_itr (MemDB_iface list_btree)) i = None)
   \<and> PrefixDB_Get (MemDB_iface list_btree) (NewPrefixDB gap_example (Some [1, 0xFF])) (Some [5]) = (Some [7], None)"
proof (rule conjI)
  show "PrefixDB_Get (MemDB_iface list_btree) (NewPrefixDB gap_example (Some [1, 0xFF])) (Some [5]) = (Some [7], None)"
    by (simp add: PrefixDB_Get_def NewPrefixDB_def PrefixDB_prefixed_def MemDB_iface_def MemDB_Get_def
        gap_example_def list_btree_def item_Less_iff)
qed (rule PrefixDB_reverse_scan_hidden_by_gap [OF list_bt.MemDB_store _ gap_example_ok(1), where g = "[2]"],
     simp_all add: gap_example_ok(2) gap_example_gap)

text \<open>
  C12. \<open>IteratePrefix\<close> with a non-empty prefix returns, in ascending order and with the prefix,
  exactly the stored keys that carry the prefix together with the stored gap keys of the
  prefix; only these last ones do not carry it.
\<close>

theorem IteratePrefix_exact:
  assumes "kv_store db iok rest ok ents bok bops fits" and "ok s" and "len pre \<noteq> 0"
  shows "\<exists>i i'. IteratePrefix db s pre = Ret (Some i, None)
    \<and> iter_loop (D_itr db) i [] = Ret (map (\<lambda>(k, v). (Some k, Some v))
        (filter (\<lambda>x. prefix (sl pre) (fst x) \<or> gap_key (sl pre) (fst x)) (ents s)), i')"
proof -
  obtain i where i: "IteratePrefix db s pre = Ret (Some i, None)" "iok i"
    "rest i = filter (\<lambda>x. prefix (sl pre) (fst x) \<or> gap_key (sl pre) (fst x)) (ents s)"
    using kv_store.IteratePrefix_rest [OF assms] by blast
  with iterator_walk.iter_loop_rest [OF iterator_contract.axioms(1) [OF kv_db.axioms(1) [OF kv_store.axioms(1) [OF assms(1)]]] i(2), of "[]"]
  show ?thesis by auto
qed

theorem IteratePrefix_exact_witness:
  "\<exists>i i'. IteratePrefix (MemDB_iface list_btree) gap_example (Some [1, 0xFF]) = Ret (Some i, None)
    \<and> iter_loop (D_itr (MemDB_iface list_btree)) i [] =
        Ret ([(Some [1, 0xFF], Some [1]), (Some [1, 0xFF, 5], Some [7]), (Some [2], Some [9])], i')"
  using IteratePrefix_exact [OF list_bt.MemDB_store gap_example_ok(1), of "Some [1, 0xFF]"]
  by (simp add: gap_example_ok(2) gap_example_gap)

text \<open>
  C13. A prefix database over a prefix database, both prefixes non-empty: as long as the source stores no
  gap key of the first prefix and none of the two prefixes joined, it answers every sequence of calls
  (within the sizes that the source takes) as one database with the joined prefix does, and leaves
  the same content in the source.
\<close>

theorem PrefixDB_nested:
  assumes "kv_store db iok rest ok ents bok bops fits" and "len pre1 \<noteq> 0" and "len pre2 \<noteq> 0" and "ok s"
    and "no_gap (sl pre1) (ents s)" and "no_gap (sl pre1 @ sl pre2) (ents s)"
    and "list_all (call_fits (pfx_fits fits (Some (sl pre1 @ sl pre2)))) cs"
  shows "\<exists>outer flat as.
      db_calls (PrefixDB_iface (PrefixDB_iface db)) (NewPrefixDB (NewPrefixDB s pre1) pre2) cs = Ret (outer, as)
    \<and> db_calls (PrefixDB_iface db) (NewPrefixDB s (Some (sl pre1 @ sl pre2))) cs = Ret (flat, as)
    \<and> ents (p_db (p_db outer)) = ents (p_db flat)"
proof -
  let ?pre = "Some (sl pre1 @ sl pre2)" and ?m = "map_of (ents s)"
  let ?out = "map_of (namespace (sl pre1) (ents s))"
  let ?as = "snd (spec_calls (namespace (sl pre1 @ sl pre2) (ents s)) cs)"
    and ?ns = "fst (spec_calls (namespace (sl pre1 @ sl pre2) (ents s)) cs)"
  note inner = kv_store.PrefixDB_store [OF assms(1,2), of ?m]
  have "pfx_ok ok ents pre1 ?m (NewPrefixDB s pre1)" "pfx_ok ok ents ?pre ?m (NewPrefixDB s ?pre)"
    using assms(4,5,6) by (simp_all add: pfx_ok_def NewPrefixDB_def)
  then have "pfx_ok (pfx_ok ok ents pre1 ?m) (pfx_ents ents) pre2 ?out (NewPrefixDB (NewPrefixDB s pre1) pre2)"
    using no_gap_nested [OF assms(6)] by (simp add: pfx_ok_def [of "pfx_ok ok ents pre1 ?m"] pfx_ents_def NewPrefixDB_def)
  from kv_store.db_calls_spec [OF kv_store.PrefixDB_store [OF inner assms(3)] this, of cs] assms(7)
  obtain outer where outer:
    "db_calls (PrefixDB_iface (PrefixDB_iface db)) (NewPrefixDB (NewPrefixDB s pre1) pre2) cs = Ret (outer, ?as)"
    "pfx_ok (pfx_ok ok ents pre1 ?m) (pfx_ents ents) pre2 ?out outer"
    "namespace (sl pre1 @ sl pre2) (ents (p_db (p_db outer))) = ?ns"
    by (auto simp: pfx_ents_def NewPrefixDB_def namespace_namespace pfx_ok_def pfx_fits_pfx_fits)
  have "len ?pre \<noteq> 0" using assms(2) by (simp add: len_def)
  from kv_store.db_calls_spec [OF kv_store.PrefixDB_store [OF assms(1) this]
      \<open>pfx_ok ok ents ?pre ?m (NewPrefixDB s ?pre)\<close> assms(7)]
  obtain flat where flat: "db_calls (PrefixDB_iface db) (NewPrefixDB s ?pre) cs = Ret (flat, ?as)"
    "pfx_ok ok ents ?pre ?m flat" "namespace (sl pre1 @ sl pre2) (ents (p_db flat)) = ?ns"
    by (auto simp: pfx_ents_def NewPrefixDB_def pfx_ok_def)
  have srt: "kv_sorted (ents (p_db (p_db outer)))" "kv_sorted (ents (p_db flat))"
    using outer(2) flat(2) kv_db.ents_wf [OF kv_store.axioms(1) [OF assms(1)]] by (simp_all add: pfx_ok_def kv_wf_def)
  have "map_of (ents (p_db (p_db outer))) k = map_of (ents (p_db flat)) k"
    if "\<not> strict_prefix (sl pre1 @ sl pre2) k" for k
    using nested_outside [OF outer(2) that] flat(2) that by (simp add: pfx_ok_def)
  with same_namespace [OF srt] outer(3) flat(3) have "ents (p_db (p_db outer)) = ents (p_db flat)" by metis
  then show ?thesis using outer(1) flat(1) by blast
qed

theorem PrefixDB_nested_witness:
  "\<exists>outer flat as.
      db_calls (PrefixDB_iface (PrefixDB_iface (MemDB_iface list_btree)))
        (NewPrefixDB (NewPrefixDB mem_example (Some [1])) (Some [2])) [CSet False (Some [6]) (Some [8])] = Ret (outer, as)
    \<and> db_calls (PrefixDB_iface (MemDB_iface list_btree)) (NewPrefixDB mem_example (Some (sl (Some [1]) @ sl (Some [2]))))
        [CSet False (Some [6]) (Some [8])] = Ret (flat, as)
    \<and> MemDB_ents list_btree (p_db (p_db outer)) = MemDB_ents list_btree (p_db flat)"
  by (rule PrefixDB_nested [OF list_bt.MemDB_store _ _ mem_example_ok]) (auto intro!: no_gap_exact simp: trail_def)

text \<open>
  C14. With an empty prefix a prefix database has no iterators that are open above: both
  methods panic in \<open>cpIncr\<close>, whatever database is wrapped.
\<close>

theorem PrefixDB_empty_prefix_panics:
  assumes "len pre = 0" and "\<not> blank start"
  shows "PrefixDB_Iterator db (NewPrefixDB s pre) start None = Panic ''cpIncr expects non-zero bz length''
    \<and> PrefixDB_ReverseIterator db (NewPrefixDB s pre) start None = Panic ''cpIncr expects non-zero bz length''"
  using assms
  by (simp add: PrefixDB_Iterator_def PrefixDB_ReverseIterator_def PrefixDB_iterate_def NewPrefixDB_def
      blank_def Let_def)

theorem PrefixDB_empty_prefix_panics_witness:
  "PrefixDB_Iterator (MemDB_iface list_btree) (NewPrefixDB mem_example None) (Some [1]) None
      = Panic ''cpIncr expects non-zero bz length''
   \<and> PrefixDB_ReverseIterator (MemDB_iface list_btree) (NewPrefixDB mem_example None) (Some [1]) None
      = Panic ''cpIncr expects non-zero bz length''"
  by (rule PrefixDB_empty_prefix_panics) (simp_all add: blank_def)

end
