(* ===== verification/Proto.thy ===== *)
theory Proto
  imports Interfaces
begin

text \<open>
  \<open>remotedb/proto/defs.pb.go\<close>: the messages of the gRPC service, their getters, which read a nil
  pointer as the zero message, their \<open>Equal\<close> methods and the variable-length integer encoder. The
  field \<open>XXX_sizecache\<close>, a cache of the marshaller, is left out. Encoding itself is done by the
  protobuf library; \<open>proto3\<close> below is what its documentation says survives it.
\<close>

section \<open>Messages\<close>

record Entity =
  en_Id :: "32 word"
  en_Key :: slice
  en_Value :: slice
  en_Exists :: bool
  en_Start :: slice
  en_End :: slice
  en_Err :: string
  en_CreatedAt :: "64 word"
  en_unrecognized :: slice

type_synonym Operation_Type = "32 word"

definition Operation_SET :: Operation_Type where
  "Operation_SET = 0"

definition Operation_DELETE :: Operation_Type where
  "Operation_DELETE = 1"

text \<open>A pointer to a message is an option.\<close>

record Operation =
  opn_Entity :: "Entity option"
  opn_Type :: Operation_Type
  opn_unrecognized :: slice

record PBatch =
  pb_Ops :: "Operation option list"
  pb_unrecognized :: slice

record Nothing =
  no_unrecognized :: slice

record Domain =
  dm_Start :: slice
  dm_End :: slice
  dm_unrecognized :: slice

record PIterator =
  pi_Domain :: "Domain option"
  pi_Valid :: bool
  pi_Key :: slice
  pi_Value :: slice
  pi_unrecognized :: slice

record PStats =
  ps_Data :: strmap
  ps_TimeAt :: "64 word"
  ps_unrecognized :: slice

record PInit =
  in_Type :: string
  in_Name :: string
  in_Dir :: string
  in_unrecognized :: slice

text \<open>The zero values, \<^verbatim>\<open>new(T)\<close>.\<close>

definition new_Entity :: Entity where
  "new_Entity = \<lparr>en_Id = 0, en_Key = None, en_Value = None, en_Exists = False, en_Start = None, en_End = None,
     en_Err = [], en_CreatedAt = 0, en_unrecognized = None\<rparr>"

definition new_Operation :: Operation where
  "new_Operation = \<lparr>opn_Entity = None, opn_Type = 0, opn_unrecognized = None\<rparr>"

definition new_Nothing :: Nothing where
  "new_Nothing = \<lparr>no_unrecognized = None\<rparr>"

definition new_Batch :: PBatch where
  "new_Batch = \<lparr>pb_Ops = [], pb_unrecognized = None\<rparr>"

definition new_Domain :: Domain where
  "new_Domain = \<lparr>dm_Start = None, dm_End = None, dm_unrecognized = None\<rparr>"

definition new_Iterator :: PIterator where
  "new_Iterator = \<lparr>pi_Domain = None, pi_Valid = False, pi_Key = None, pi_Value = None, pi_unrecognized = None\<rparr>"

definition new_Stats :: PStats where
  "new_Stats = \<lparr>ps_Data = Map.empty, ps_TimeAt = 0, ps_unrecognized = None\<rparr>"

definition new_Init :: PInit where
  "new_Init = \<lparr>in_Type = [], in_Name = [], in_Dir = [], in_unrecognized = None\<rparr>"

text \<open>\<open>Reset\<close> puts the zero value in the place of the message.\<close>

definition Batch_Reset :: "PBatch \<Rightarrow> PBatch" where
  "Batch_Reset m = new_Batch"

definition Operation_Reset :: "Operation \<Rightarrow> Operation" where
  "Operation_Reset m = new_Operation"

definition Entity_Reset :: "Entity \<Rightarrow> Entity" where
  "Entity_Reset m = new_Entity"

definition Nothing_Reset :: "Nothing \<Rightarrow> Nothing" where
  "Nothing_Reset m = new_Nothing"

definition Domain_Reset :: "Domain \<Rightarrow> Domain" where
  "Domain_Reset m = new_Domain"

definition Iterator_Reset :: "PIterator \<Rightarrow> PIterator" where
  "Iterator_Reset m = new_Iterator"

definition Stats_Reset :: "PStats \<Rightarrow> PStats" where
  "Stats_Reset m = new_Stats"

definition Init_Reset :: "PInit \<Rightarrow> PInit" where
  "Init_Reset m = new_Init"

section \<open>Getters\<close>

definition GetOps :: "PBatch option \<Rightarrow> Operation option list" where
  "GetOps m = (case m of Some m \<Rightarrow> pb_Ops m | None \<Rightarrow> [])"

definition GetEntity :: "Operation option \<Rightarrow> Entity option" where
  "GetEntity m = (case m of Some m \<Rightarrow> opn_Entity m | None \<Rightarrow> None)"

definition GetType :: "Operation option \<Rightarrow> Operation_Type" where
  "GetType m = (case m of Some m \<Rightarrow> opn_Type m | None \<Rightarrow> Operation_SET)"

definition Entity_GetId :: "Entity option \<Rightarrow> 32 word" where
  "Entity_GetId m = (case m of Some m \<Rightarrow> en_Id m | None \<Rightarrow> 0)"

definition Entity_GetKey :: "Entity option \<Rightarrow> slice" where
  "Entity_GetKey m = (case m of Some m \<Rightarrow> en_Key m | None \<Rightarrow> None)"

definition Entity_GetValue :: "Entity option \<Rightarrow> slice" where
  "Entity_GetValue m = (case m of Some m \<Rightarrow> en_Value m | None \<Rightarrow> None)"

definition Entity_GetExists :: "Entity option \<Rightarrow> bool" where
  "Entity_GetExists m = (case m of Some m \<Rightarrow> en_Exists m | None \<Rightarrow> False)"

definition Entity_GetStart :: "Entity option \<Rightarrow> slice" where
  "Entity_GetStart m = (case m of Some m \<Rightarrow> en_Start m | None \<Rightarrow> None)"

definition Entity_GetEnd :: "Entity option \<Rightarrow> slice" where
  "Entity_GetEnd m = (case m of Some m \<Rightarrow> en_End m | None \<Rightarrow> None)"

definition Entity_GetErr :: "Entity option \<Rightarrow> string" where
  "Entity_GetErr m = (case m of Some m \<Rightarrow> en_Err m | None \<Rightarrow> [])"

definition Entity_GetCreatedAt :: "Entity option \<Rightarrow> 64 word" where
  "Entity_GetCreatedAt m = (case m of Some m \<Rightarrow> en_CreatedAt m | None \<Rightarrow> 0)"

definition Domain_GetStart :: "Domain option \<Rightarrow> slice" where
  "Domain_GetStart m = (case m of Some m \<Rightarrow> dm_Start m | None \<Rightarrow> None)"

definition Domain_GetEnd :: "Domain option \<Rightarrow> slice" where
  "Domain_GetEnd m = (case m of Some m \<Rightarrow> dm_End m | None \<Rightarrow> None)"

definition Iterator_GetDomain :: "PIterator option \<Rightarrow> Domain option" where
  "Iterator_GetDomain m = (case m of Some m \<Rightarrow> pi_Domain m | None \<Rightarrow> None)"

definition Iterator_GetValid :: "PIterator option \<Rightarrow> bool" where
  "Iterator_GetValid m = (case m of Some m \<Rightarrow> pi_Valid m | None \<Rightarrow> False)"

definition Iterator_GetKey :: "PIterator option \<Rightarrow> slice" where
  "Iterator_GetKey m = (case m of Some m \<Rightarrow> pi_Key m | None \<Rightarrow> None)"

definition Iterator_GetValue :: "PIterator option \<Rightarrow> slice" where
  "Iterator_GetValue m = (case m of Some m \<Rightarrow> pi_Value m | None \<Rightarrow> None)"

definition Stats_GetData :: "PStats option \<Rightarrow> strmap" where
  "Stats_GetData m = (case m of Some m \<Rightarrow> ps_Data m | None \<Rightarrow> Map.empty)"

definition Stats_GetTimeAt :: "PStats option \<Rightarrow> 64 word" where
  "Stats_GetTimeAt m = (case m of Some m \<Rightarrow> ps_TimeAt m | None \<Rightarrow> 0)"

definition Init_GetType :: "PInit option \<Rightarrow> string" where
  "Init_GetType m = (case m of Some m \<Rightarrow> in_Type m | None \<Rightarrow> [])"

definition Init_GetName :: "PInit option \<Rightarrow> string" where
  "Init_GetName m = (case m of Some m \<Rightarrow> in_Name m | None \<Rightarrow> [])"

definition Init_GetDir :: "PInit option \<Rightarrow> string" where
  "Init_GetDir m = (case m of Some m \<Rightarrow> in_Dir m | None \<Rightarrow> [])"

section \<open>Equal\<close>

text \<open>
  The argument of \<open>Equal\<close> is a value of the empty interface: nil, a pointer or a value of the
  type of the message, or something else. The methods begin alike, with the tests on nil and the
  type, and then compare the fields.
\<close>

datatype 'a any = NilInterface | Pointer "'a option" | Value 'a | OtherType

definition Equal_on :: "('a \<Rightarrow> 'a \<Rightarrow> bool) \<Rightarrow> 'a option \<Rightarrow> 'a any \<Rightarrow> bool" where
  "Equal_on same this that =
     (let cont = (\<lambda>that1. case that1 of
            None \<Rightarrow> this = None
          | Some that1 \<Rightarrow> (case this of None \<Rightarrow> False | Some this \<Rightarrow> same this that1))
      in case that of
           NilInterface \<Rightarrow> this = None
         | Pointer that1 \<Rightarrow> cont that1
         | Value that2 \<Rightarrow> cont (Some that2)
         | OtherType \<Rightarrow> False)"

definition Entity_Equal :: "Entity option \<Rightarrow> Entity any \<Rightarrow> bool" where
  "Entity_Equal = Equal_on (\<lambda>this that1.
     if en_Id this \<noteq> en_Id that1 then False
     else if \<not> bytes_Equal (en_Key this) (en_Key that1) then False
     else if \<not> bytes_Equal (en_Value this) (en_Value that1) then False
     else if en_Exists this \<noteq> en_Exists that1 then False
     else if \<not> bytes_Equal (en_Start this) (en_Start that1) then False
     else if \<not> bytes_Equal (en_End this) (en_End that1) then False
     else if en_Err this \<noteq> en_Err that1 then False
     else if en_CreatedAt this \<noteq> en_CreatedAt that1 then False
     else if \<not> bytes_Equal (en_unrecognized this) (en_unrecognized that1) then False
     else True)"

definition Operation_Equal :: "Operation option \<Rightarrow> Operation any \<Rightarrow> bool" where
  "Operation_Equal = Equal_on (\<lambda>this that1.
     if \<not> Entity_Equal (opn_Entity this) (Pointer (opn_Entity that1)) then False
     else if opn_Type this \<noteq> opn_Type that1 then False
     else if \<not> bytes_Equal (opn_unrecognized this) (opn_unrecognized that1) then False
     else True)"

fun ops_Equal :: "Operation option list \<Rightarrow> Operation option list \<Rightarrow> bool" where
  "ops_Equal (p # ps) (q # qs) = (if \<not> Operation_Equal p (Pointer q) then False else ops_Equal ps qs)"
| "ops_Equal ps qs = True"

definition Batch_Equal :: "PBatch option \<Rightarrow> PBatch any \<Rightarrow> bool" where
  "Batch_Equal = Equal_on (\<lambda>this that1.
     if length (pb_Ops this) \<noteq> length (pb_Ops that1) then False
     else if \<not> ops_Equal (pb_Ops this) (pb_Ops that1) then False
     else if \<not> bytes_Equal (pb_unrecognized this) (pb_unrecognized that1) then False
     else True)"

definition Nothing_Equal :: "Nothing option \<Rightarrow> Nothing any \<Rightarrow> bool" where
  "Nothing_Equal = Equal_on (\<lambda>this that1.
     if \<not> bytes_Equal (no_unrecognized this) (no_unrecognized that1) then False else True)"

definition Domain_Equal :: "Domain option \<Rightarrow> Domain any \<Rightarrow> bool" where
  "Domain_Equal = Equal_on (\<lambda>this that1.
     if \<not> bytes_Equal (dm_Start this) (dm_Start that1) then False
     else if \<not> bytes_Equal (dm_End this) (dm_End that1) then False
     else if \<not> bytes_Equal (dm_unrecognized this) (dm_unrecognized that1) then False
     else True)"

definition Iterator_Equal :: "PIterator option \<Rightarrow> PIterator any \<Rightarrow> bool" where
  "Iterator_Equal = Equal_on (\<lambda>this that1.
     if \<not> Domain_Equal (pi_Domain this) (Pointer (pi_Domain that1)) then False
     else if pi_Valid this \<noteq> pi_Valid that1 then False
     else if \<not> bytes_Equal (pi_Key this) (pi_Key that1) then False
     else if \<not> bytes_Equal (pi_Value this) (pi_Value that1) then False
     else if \<not> bytes_Equal (pi_unrecognized this) (pi_unrecognized that1) then False
     else True)"

text \<open>Reading a Go map at a missing key gives the zero value, here the empty string.\<close>

definition map_read :: "strmap \<Rightarrow> string \<Rightarrow> string" where
  "map_read m k = (case m k of Some v \<Rightarrow> v | None \<Rightarrow> [])"

definition Stats_Equal :: "PStats option \<Rightarrow> PStats any \<Rightarrow> bool" where
  "Stats_Equal = Equal_on (\<lambda>this that1.
     if card (dom (ps_Data this)) \<noteq> card (dom (ps_Data that1)) then False
     else if \<exists>i\<in>dom (ps_Data this). map_read (ps_Data this) i \<noteq> map_read (ps_Data that1) i then False
     else if ps_TimeAt this \<noteq> ps_TimeAt that1 then False
     else if \<not> bytes_Equal (ps_unrecognized this) (ps_unrecognized that1) then False
     else True)"

definition Init_Equal :: "PInit option \<Rightarrow> PInit any \<Rightarrow> bool" where
  "Init_Equal = Equal_on (\<lambda>this that1.
     if in_Type this \<noteq> in_Type that1 then False
     else if in_Name this \<noteq> in_Name that1 then False
     else if in_Dir this \<noteq> in_Dir that1 then False
     else if \<not> bytes_Equal (in_unrecognized this) (in_unrecognized that1) then False
     else True)"

section \<open>The variable-length integer encoder\<close>

function encodeVarintPopulateDefs :: "byte list \<Rightarrow> 64 word \<Rightarrow> byte list" where
  "encodeVarintPopulateDefs dAtA v =
     (if v \<ge> push_bit 7 1
      then encodeVarintPopulateDefs (dAtA @ [ucast (or (and v 0x7f) 0x80)]) (drop_bit 7 v)
      else dAtA @ [ucast v])"
  by auto

lemma drop_bit_7_less: "push_bit 7 1 \<le> v \<Longrightarrow> unat (drop_bit 7 v) < unat (v :: 64 word)"
  by (simp add: drop_bit_eq_div word_le_nat_alt unat_div_distrib)

termination encodeVarintPopulateDefs
  by (relation "measure (unat \<circ> snd)") (simp_all add: drop_bit_7_less del: push_bit_numeral_minus_1)

declare encodeVarintPopulateDefs.simps [simp del]

text \<open>What a sequence of 7-bit groups, least significant first, stands for.\<close>

fun varint_value :: "byte list \<Rightarrow> nat" where
  "varint_value [] = 0"
| "varint_value (b # bs) = unat b mod 128 + 128 * varint_value bs"

section \<open>What survives encoding and decoding\<close>

text \<open>
  In proto3 a bytes field that is empty is not written, and a field that is not on the wire is nil
  after decoding.
\<close>

definition norm_bytes :: "slice \<Rightarrow> slice" where
  "norm_bytes s = (if len s = 0 then None else s)"

definition norm_Entity :: "Entity \<Rightarrow> Entity" where
  "norm_Entity e = e\<lparr>en_Key := norm_bytes (en_Key e), en_Value := norm_bytes (en_Value e),
     en_Start := norm_bytes (en_Start e), en_End := norm_bytes (en_End e),
     en_unrecognized := norm_bytes (en_unrecognized e)\<rparr>"

definition norm_Operation :: "Operation \<Rightarrow> Operation" where
  "norm_Operation p = p\<lparr>opn_Entity := map_option norm_Entity (opn_Entity p),
     opn_unrecognized := norm_bytes (opn_unrecognized p)\<rparr>"

definition norm_Batch :: "PBatch \<Rightarrow> PBatch" where
  "norm_Batch b = b\<lparr>pb_Ops := map (map_option norm_Operation) (pb_Ops b),
     pb_unrecognized := norm_bytes (pb_unrecognized b)\<rparr>"

definition norm_Nothing :: "Nothing \<Rightarrow> Nothing" where
  "norm_Nothing n = n\<lparr>no_unrecognized := norm_bytes (no_unrecognized n)\<rparr>"

definition norm_Domain :: "Domain \<Rightarrow> Domain" where
  "norm_Domain d = d\<lparr>dm_Start := norm_bytes (dm_Start d), dm_End := norm_bytes (dm_End d),
     dm_unrecognized := norm_bytes (dm_unrecognized d)\<rparr>"

definition norm_Iterator :: "PIterator \<Rightarrow> PIterator" where
  "norm_Iterator i = i\<lparr>pi_Domain := map_option norm_Domain (pi_Domain i), pi_Key := norm_bytes (pi_Key i),
     pi_Value := norm_bytes (pi_Value i), pi_unrecognized := norm_bytes (pi_unrecognized i)\<rparr>"

definition norm_Stats :: "PStats \<Rightarrow> PStats" where
  "norm_Stats s = s\<lparr>ps_unrecognized := norm_bytes (ps_unrecognized s)\<rparr>"

definition norm_Init :: "PInit \<Rightarrow> PInit" where
  "norm_Init i = i\<lparr>in_unrecognized := norm_bytes (in_unrecognized i)\<rparr>"

lemma norm_bytes_simps [simp]:
  "norm_bytes None = None" "norm_bytes (Some []) = None" "norm_bytes (Some (b # bs)) = Some (b # bs)"
  "sl (norm_bytes s) = sl s" "len (norm_bytes s) = len s"
  by (auto simp: norm_bytes_def len_def)

lemma norm_bytes_nonempty: "len s \<noteq> 0 \<Longrightarrow> norm_bytes s = s"
  by (simp add: norm_bytes_def)

lemma bytes_Equal_norm: "bytes_Equal a b \<longleftrightarrow> norm_bytes a = norm_bytes b"
  by (cases a; cases b) (auto simp: bytes_Equal_def norm_bytes_def)

text \<open>What the argument of \<open>Equal\<close> points to, if it has the type of the message.\<close>

fun pointee :: "'a any \<Rightarrow> 'a option option" where
  "pointee NilInterface = Some None"
| "pointee (Pointer p) = Some p"
| "pointee (Value v) = Some (Some v)"
| "pointee OtherType = None"

text \<open>The messages that cannot be told apart once \<open>norm\<close> is applied.\<close>

definition same_under :: "('a \<Rightarrow> 'b) \<Rightarrow> 'a option \<Rightarrow> 'a any \<Rightarrow> bool" where
  "same_under norm this that \<longleftrightarrow> map_option (map_option norm) (pointee that) = Some (map_option norm this)"

lemma Equal_on_norm:
  assumes "\<And>x y. same x y \<longleftrightarrow> norm x = norm y"
  shows "Equal_on same this that \<longleftrightarrow> same_under norm this that"
  using assms by (cases that) (auto simp: Equal_on_def same_under_def split: option.splits)

lemma same_under_Pointer [simp]: "same_under norm p (Pointer q) \<longleftrightarrow> map_option norm p = map_option norm q"
  by (auto simp: same_under_def)

lemma Entity_Equal_norm: "Entity_Equal a b \<longleftrightarrow> same_under norm_Entity a b"
  unfolding Entity_Equal_def
  by (rule Equal_on_norm, rename_tac x y, case_tac x, case_tac y) (auto simp: norm_Entity_def bytes_Equal_norm)

lemma Operation_Equal_norm: "Operation_Equal a b \<longleftrightarrow> same_under norm_Operation a b"
  unfolding Operation_Equal_def
  by (rule Equal_on_norm, rename_tac x y, case_tac x, case_tac y) (auto simp: norm_Operation_def bytes_Equal_norm Entity_Equal_norm)

lemma ops_Equal_norm:
  "length ps = length qs \<Longrightarrow>
     ops_Equal ps qs \<longleftrightarrow> map (map_option norm_Operation) ps = map (map_option norm_Operation) qs"
  by (induction ps qs rule: list_induct2) (auto simp: Operation_Equal_norm)

lemma Batch_Equal_norm: "Batch_Equal a b \<longleftrightarrow> same_under norm_Batch a b"
  unfolding Batch_Equal_def
  by (rule Equal_on_norm, rename_tac x y, case_tac x, case_tac y)
     (auto simp: norm_Batch_def bytes_Equal_norm ops_Equal_norm dest: map_eq_imp_length_eq)

lemma Nothing_Equal_norm: "Nothing_Equal a b \<longleftrightarrow> same_under norm_Nothing a b"
  unfolding Nothing_Equal_def
  by (rule Equal_on_norm, rename_tac x y, case_tac x, case_tac y) (auto simp: norm_Nothing_def bytes_Equal_norm)

lemma Domain_Equal_norm: "Domain_Equal a b \<longleftrightarrow> same_under norm_Domain a b"
  unfolding Domain_Equal_def
  by (rule Equal_on_norm, rename_tac x y, case_tac x, case_tac y) (auto simp: norm_Domain_def bytes_Equal_norm)

lemma Iterator_Equal_norm: "Iterator_Equal a b \<longleftrightarrow> same_under norm_Iterator a b"
  unfolding Iterator_Equal_def
  by (rule Equal_on_norm, rename_tac x y, case_tac x, case_tac y) (auto simp: norm_Iterator_def bytes_Equal_norm Domain_Equal_norm)

lemma Init_Equal_norm: "Init_Equal a b \<longleftrightarrow> same_under norm_Init a b"
  unfolding Init_Equal_def
  by (rule Equal_on_norm, rename_tac x y, case_tac x, case_tac y) (auto simp: norm_Init_def bytes_Equal_norm)

text \<open>One group of seven bits with the continuation bit.\<close>

lemma and_127: "and x 127 = x mod (128::nat)"
proof -
  have "and x (mask 7) = x mod 2 ^ 7" by (simp only: take_bit_eq_mask [symmetric] take_bit_eq_mod)
  then show ?thesis by (simp add: mask_eq_exp_minus_1)
qed

lemma or_128: "x < 128 \<Longrightarrow> or x 128 = x + (128::nat)"
proof -
  assume "x < 128"
  then have t: "take_bit 7 x = x" by (simp add: take_bit_nat_eq_self)
  have "\<not> bit x n \<or> \<not> bit (2 ^ 7 :: nat) n" for n
    by (subst t [symmetric]) (auto simp only: bit_take_bit_iff bit_exp_iff)
  then have "x + 2 ^ 7 = or x (2 ^ 7)" by (rule disjunctive_add)
  then show ?thesis by simp
qed

lemma varint_group: "unat (ucast (or (and v 0x7f) 0x80 :: 64 word) :: byte) = unat v mod 128 + 128"
proof -
  have "unat (or (and v 0x7f) 0x80) = or (unat v mod 128) 128"
    by (simp add: unsigned_or_eq unsigned_and_eq and_127)
  also have "\<dots> = unat v mod 128 + 128" by (simp add: or_128)
  finally show ?thesis by (simp add: unsigned_ucast_eq take_bit_eq_mod)
qed

lemma encodeVarint_groups:
  "\<exists>bs. encodeVarintPopulateDefs dAtA v = dAtA @ bs \<and> bs \<noteq> [] \<and> varint_value bs = unat v \<and>
     list_all (\<lambda>b. 128 \<le> b) (butlast bs) \<and> last bs < 128 \<and> (unat v < 128 ^ Suc n \<longrightarrow> length bs \<le> Suc n)"
proof (induction dAtA v arbitrary: n rule: encodeVarintPopulateDefs.induct)
  case (1 dAtA v)
  show ?case
  proof (cases "push_bit 7 1 \<le> v")
    case True
    let ?b = "ucast (or (and v 0x7f) 0x80) :: byte" and ?w = "drop_bit 7 v"
    have w: "unat ?w = unat v div 128" by (simp add: drop_bit_eq_div unat_div_distrib)
    have v: "128 \<le> unat v" using True by (simp add: word_le_nat_alt)
    have b: "unat ?b mod 128 = unat v mod 128" "128 \<le> ?b" by (simp_all add: varint_group word_le_nat_alt)
    obtain bs where bs: "encodeVarintPopulateDefs (dAtA @ [?b]) ?w = (dAtA @ [?b]) @ bs" "bs \<noteq> []"
      "varint_value bs = unat ?w" "list_all (\<lambda>b. 128 \<le> b) (butlast bs)" "last bs < 128"
      "unat ?w < 128 ^ Suc (n - 1) \<longrightarrow> length bs \<le> Suc (n - 1)"
      using 1 [OF True, of "n - 1"] by blast
    have "length bs \<le> n" if "unat v < 128 ^ Suc n"
    proof (cases n)
      case (Suc m)
      then show ?thesis using that bs(6) w by (simp add: less_mult_imp_div_less mult.commute)
    qed (use that v in simp)
    then show ?thesis
      using True bs b w
      by (intro exI [of _ "?b # bs"]) (subst encodeVarintPopulateDefs.simps, simp add: mult.commute)
  next
    case False
    then have "unat v < 128" by (simp add: word_le_nat_alt)
    then have "unat (ucast v :: byte) = unat v" by (simp add: unsigned_ucast_eq take_bit_eq_mod)
    then show ?thesis
      using False \<open>unat v < 128\<close>
      by (intro exI [of _ "[ucast v]"]) (subst encodeVarintPopulateDefs.simps, simp add: word_less_nat_alt)
  qed
qed

section \<open>Properties\<close>

text \<open>
  C37. \<open>Equal\<close> on the messages other than \<open>Stats\<close> is equality of what survives encoding: it holds
  exactly if the argument is of the type of the message, or nil for nil, and the fields are the
  same with nil and empty bytes identified. It is therefore an equivalence, and a message is
  \<open>Equal\<close> to itself after a trip over the wire.
\<close>

theorem Equal_up_to_empty_bytes:
  "Entity_Equal e e' = same_under norm_Entity e e'
   \<and> Operation_Equal p p' = same_under norm_Operation p p'
   \<and> Batch_Equal b b' = same_under norm_Batch b b'
   \<and> Nothing_Equal n n' = same_under norm_Nothing n n'
   \<and> Domain_Equal d d' = same_under norm_Domain d d'
   \<and> Iterator_Equal i i' = same_under norm_Iterator i i'
   \<and> Init_Equal t t' = same_under norm_Init t t'"
  by (intro conjI Entity_Equal_norm Operation_Equal_norm Batch_Equal_norm Nothing_Equal_norm Domain_Equal_norm
      Iterator_Equal_norm Init_Equal_norm)

text \<open>
  \<open>Equal\<close> on \<open>Stats\<close> is not an equality: it reads missing keys as empty strings and ranges
  over one side only, so it is not even symmetric.
\<close>

theorem Stats_Equal_not_symmetric:
  "\<exists>s t. Stats_Equal (Some s) (Pointer (Some t)) \<and> \<not> Stats_Equal (Some t) (Pointer (Some s))"
proof -
  let ?s = "\<lparr>ps_Data = [''a'' \<mapsto> ''''], ps_TimeAt = 0, ps_unrecognized = None\<rparr>"
  let ?t = "\<lparr>ps_Data = [''b'' \<mapsto> ''x''], ps_TimeAt = 0, ps_unrecognized = None\<rparr>"
  have "Stats_Equal (Some ?s) (Pointer (Some ?t))" "\<not> Stats_Equal (Some ?t) (Pointer (Some ?s))"
    by (simp_all add: Stats_Equal_def Equal_on_def map_read_def bytes_Equal_def)
  then show ?thesis by blast
qed

text \<open>
  The variable-length encoding of a 64-bit number is appended to the buffer, takes between one
  and ten bytes, marks every byte but the last with the high bit, and its seven-bit groups give
  the number back.
\<close>

theorem encodeVarint_roundtrip:
  "\<exists>bs. encodeVarintPopulateDefs dAtA v = dAtA @ bs \<and> varint_value bs = unat v \<and> 1 \<le> length bs \<and> length bs \<le> 10 \<and>
     list_all (\<lambda>b. 128 \<le> b) (butlast bs) \<and> last bs < 128"
proof -
  have "unat v < 2 ^ LENGTH(64)" by (rule unsigned_less)
  then have "unat v < 128 ^ Suc 9" by simp
  with encodeVarint_groups [of dAtA v 9] show ?thesis by (auto simp: Suc_le_eq)
qed

end
