(* ===== verification/GrpcServer.thy ===== *)
theory GrpcServer
  imports Proto MemDB
begin

text \<open>
  \<open>remotedb/grpcdb/server.go\<close>: the gRPC server, which holds one database behind the interface
  \<open>DB\<close> and serves its methods. The constructor \<open>db.NewDB\<close> is the argument \<open>newDB\<close>, the clock
  the argument \<open>now\<close>. A method called before \<open>Init\<close> dereferences a nil interface and panics.
  \<open>GetStream\<close> runs two goroutines over a channel without buffer; it is a step relation.
\<close>

section \<open>The unary methods\<close>

record 's server =
  srv_db :: "'s option"

text \<open>
  The constructors. Reading the key pair, listening and serving are arguments; a gRPC server is
  its options and the service registered with it.
\<close>

datatype ('o, 'c) ServerOption = GivenOption 'o | Creds 'c

record ('s, 'o, 'c) grpc_Server =
  gs_opts :: "('o, 'c) ServerOption list"
  gs_service :: "'s server"

definition NewServer ::
  "(string \<Rightarrow> string \<Rightarrow> 'c + error) \<Rightarrow> string \<Rightarrow> string \<Rightarrow> 'o list \<Rightarrow> ('s, 'o, 'c) grpc_Server + error" where
  "NewServer newServerTLSFromFile cert key opts =
     (case newServerTLSFromFile cert key of
        Inr err \<Rightarrow> Inr err
      | Inl creds \<Rightarrow> (let opts = map GivenOption opts @ [Creds creds] in Inl \<lparr>gs_opts = opts, gs_service = \<lparr>srv_db = None\<rparr>\<rparr>))"

definition ListenAndServe ::
  "(string \<Rightarrow> 'l + error) \<Rightarrow> (string \<Rightarrow> string \<Rightarrow> 'c + error) \<Rightarrow> (('s, 'o, 'c) grpc_Server \<Rightarrow> 'l \<Rightarrow> error option) \<Rightarrow>
     string \<Rightarrow> string \<Rightarrow> string \<Rightarrow> 'o list \<Rightarrow> error option" where
  "ListenAndServe listen newServerTLSFromFile serve addr cert key opts =
     (case listen addr of
        Inr err \<Rightarrow> Some err
      | Inl ln \<Rightarrow> (case NewServer newServerTLSFromFile cert key opts of Inr err \<Rightarrow> Some err | Inl srv \<Rightarrow> serve srv ln))"

definition nil_deref :: string where
  "nil_deref = ''runtime error: invalid memory address or nil pointer dereference''"

definition with_db :: "'s server \<Rightarrow> ('s \<Rightarrow> 'a res) \<Rightarrow> 'a res" where
  "with_db s f = (case srv_db s of None \<Rightarrow> Panic nil_deref | Some d \<Rightarrow> f d)"

definition nothing :: Nothing where
  "nothing = new_Nothing"

text \<open>A reply or an error.\<close>

definition reply :: "'a \<Rightarrow> error option \<Rightarrow> 'a + error" where
  "reply a err = (case err of Some e \<Rightarrow> Inr e | None \<Rightarrow> Inl a)"

definition server_Init ::
  "(string \<Rightarrow> string \<Rightarrow> string \<Rightarrow> 's option \<times> error option) \<Rightarrow> 64 word \<Rightarrow> 's server \<Rightarrow> PInit \<Rightarrow>
     ('s server \<times> (Entity + error)) res" where
  "server_Init newDB now s in' =
     (let (db, err) = newDB (in_Name in') (in_Type in') (in_Dir in'); s = s\<lparr>srv_db := db\<rparr>
      in Ret (s, reply (new_Entity\<lparr>en_CreatedAt := now\<rparr>) err))"

definition server_Delete ::
  "('s, 'i, 'b) DB \<Rightarrow> 's server \<Rightarrow> Entity \<Rightarrow> ('s server \<times> (Nothing + error)) res" where
  "server_Delete db s in' =
     with_db s (\<lambda>d. let (d, err) = D_Delete db d (en_Key in') in Ret (s\<lparr>srv_db := Some d\<rparr>, reply nothing err))"

definition server_DeleteSync ::
  "('s, 'i, 'b) DB \<Rightarrow> 's server \<Rightarrow> Entity \<Rightarrow> ('s server \<times> (Nothing + error)) res" where
  "server_DeleteSync db s in' =
     with_db s (\<lambda>d. let (d, err) = D_DeleteSync db d (en_Key in') in Ret (s\<lparr>srv_db := Some d\<rparr>, reply nothing err))"

definition server_Get :: "('s, 'i, 'b) DB \<Rightarrow> 's server \<Rightarrow> Entity \<Rightarrow> (Entity + error) res" where
  "server_Get db s in' =
     with_db s (\<lambda>d. let (value', err) = D_Get db d (en_Key in') in Ret (reply (new_Entity\<lparr>en_Value := value'\<rparr>) err))"

definition server_Has :: "('s, 'i, 'b) DB \<Rightarrow> 's server \<Rightarrow> Entity \<Rightarrow> (Entity + error) res" where
  "server_Has db s in' =
     with_db s (\<lambda>d. let (exists', err) = D_Has db d (en_Key in') in Ret (reply (new_Entity\<lparr>en_Exists := exists'\<rparr>) err))"

definition server_Set ::
  "('s, 'i, 'b) DB \<Rightarrow> 's server \<Rightarrow> Entity \<Rightarrow> ('s server \<times> (Nothing + error)) res" where
  "server_Set db s in' =
     with_db s (\<lambda>d. let (d, err) = D_Set db d (en_Key in') (en_Value in')
       in Ret (s\<lparr>srv_db := Some d\<rparr>, reply nothing err))"

definition server_SetSync ::
  "('s, 'i, 'b) DB \<Rightarrow> 's server \<Rightarrow> Entity \<Rightarrow> ('s server \<times> (Nothing + error)) res" where
  "server_SetSync db s in' =
     with_db s (\<lambda>d. let (d, err) = D_SetSync db d (en_Key in') (en_Value in')
       in Ret (s\<lparr>srv_db := Some d\<rparr>, reply nothing err))"

definition server_Stats :: "('s, 'i, 'b) DB \<Rightarrow> 64 word \<Rightarrow> 's server \<Rightarrow> (PStats + error) res" where
  "server_Stats db now s =
     with_db s (\<lambda>d. let stats = D_Stats db d in Ret (Inl \<lparr>ps_Data = stats, ps_TimeAt = now, ps_unrecognized = None\<rparr>))"

section \<open>Iterators\<close>

text \<open>\<open>send\<close> is the method \<open>Send\<close> of the stream, over the state \<open>x\<close> of the stream.\<close>

partial_function (option) handleIterator ::
  "'i Iterator \<Rightarrow> ('x \<Rightarrow> PIterator \<Rightarrow> 'x \<times> error option) \<Rightarrow> 'i \<Rightarrow> 'x \<Rightarrow> ('i \<times> 'x \<times> error option) res" where
  "handleIterator it send i x =
     bindR (I_Valid it i) (\<lambda>(valid, i).
       if \<not> valid then Ret (i, x, None)
       else bindR (I_Key it i) (\<lambda>(key, i'). bindR (I_Value it i') (\<lambda>(value', i'). bindR (I_Valid it i') (\<lambda>(valid, i').
         (case send x \<lparr>pi_Domain = Some \<lparr>dm_Start = fst (I_Domain it i), dm_End = snd (I_Domain it i), dm_unrecognized = None\<rparr>,
                       pi_Valid = valid, pi_Key = key, pi_Value = value', pi_unrecognized = None\<rparr> of
            (x, Some err) \<Rightarrow> Ret (i', x, Some err)
          | (x, None) \<Rightarrow> bindR (I_Next it i') (\<lambda>i'. handleIterator it send i' x))))))"

text \<open>One turn of the loop up to the call of \<open>Send\<close>: the message, or none at the end.\<close>

definition next_message :: "'i Iterator \<Rightarrow> 'i \<Rightarrow> (PIterator option \<times> 'i) res" where
  "next_message it i =
     bindR (I_Valid it i) (\<lambda>(valid, i).
       if \<not> valid then Ret (None, i)
       else bindR (I_Key it i) (\<lambda>(key, i'). bindR (I_Value it i') (\<lambda>(value', i'). bindR (I_Valid it i') (\<lambda>(valid, i').
         Ret (Some \<lparr>pi_Domain = Some \<lparr>dm_Start = fst (I_Domain it i), dm_End = snd (I_Domain it i), dm_unrecognized = None\<rparr>,
                    pi_Valid = valid, pi_Key = key, pi_Value = value', pi_unrecognized = None\<rparr>, i')))))"

lemma handleIterator_next:
  "handleIterator it send i x =
     bindR (next_message it i) (\<lambda>(m, i). case m of
       None \<Rightarrow> Ret (i, x, None)
     | Some m \<Rightarrow> (case send x m of
         (x, Some err) \<Rightarrow> Ret (i, x, Some err)
       | (x, None) \<Rightarrow> bindR (I_Next it i) (\<lambda>i. handleIterator it send i x)))"
  by (subst handleIterator.simps) (simp add: next_message_def bindR_assoc case_prod_unfold if_distrib [where f = "\<lambda>m. bindR m f" for f] cong: if_cong)

definition server_serveIterator ::
  "('s, 'i, 'b) DB \<Rightarrow> ('x \<Rightarrow> PIterator \<Rightarrow> 'x \<times> error option) \<Rightarrow> ('i option \<times> error option) res \<Rightarrow> 'x \<Rightarrow>
     ('x \<times> error option) res" where
  "server_serveIterator db send r x =
     bindR r (\<lambda>(it, err).
       if err \<noteq> None then Ret (x, err)
       else case it of
              None \<Rightarrow> Panic nil_deref
            | Some i \<Rightarrow> bindR (handleIterator (D_itr db) send i x) (\<lambda>(i, x, err).
                let (i, _) = I_Close (D_itr db) i in Ret (x, err)))"

definition server_Iterator ::
  "('s, 'i, 'b) DB \<Rightarrow> ('x \<Rightarrow> PIterator \<Rightarrow> 'x \<times> error option) \<Rightarrow> 's server \<Rightarrow> Entity \<Rightarrow> 'x \<Rightarrow> ('x \<times> error option) res" where
  "server_Iterator db send s query x =
     with_db s (\<lambda>d. server_serveIterator db send (D_Iterator db d (en_Start query) (en_End query)) x)"

definition server_ReverseIterator ::
  "('s, 'i, 'b) DB \<Rightarrow> ('x \<Rightarrow> PIterator \<Rightarrow> 'x \<times> error option) \<Rightarrow> 's server \<Rightarrow> Entity \<Rightarrow> 'x \<Rightarrow> ('x \<times> error option) res" where
  "server_ReverseIterator db send s query x =
     with_db s (\<lambda>d. server_serveIterator db send (D_ReverseIterator db d (en_Start query) (en_End query)) x)"

section \<open>Batches\<close>

fun server_batch_ops ::
  "('s, 'b) Batch \<Rightarrow> 'b \<Rightarrow> Operation option list \<Rightarrow> ('b \<times> error option) res" where
  "server_batch_ops bt bat [] = Ret (bat, None)"
| "server_batch_ops bt bat (None # ops) = Panic nil_deref"
| "server_batch_ops bt bat (Some op # ops) =
     (if opn_Type op = Operation_SET then
        (case opn_Entity op of
           None \<Rightarrow> Panic nil_deref
         | Some e \<Rightarrow>
             (case B_Set bt bat (en_Key e) (en_Value e) of
                (bat, Some err) \<Rightarrow> Ret (bat, Some err)
              | (bat, None) \<Rightarrow> server_batch_ops bt bat ops))
      else if opn_Type op = Operation_DELETE then
        (case opn_Entity op of
           None \<Rightarrow> Panic nil_deref
         | Some e \<Rightarrow>
             (case B_Delete bt bat (en_Key e) of
                (bat, Some err) \<Rightarrow> Ret (bat, Some err)
              | (bat, None) \<Rightarrow> server_batch_ops bt bat ops))
      else server_batch_ops bt bat ops)"

definition server_batchWrite ::
  "('s, 'i, 'b) DB \<Rightarrow> 's server \<Rightarrow> PBatch \<Rightarrow> bool \<Rightarrow> ('s server \<times> (Nothing + error)) res" where
  "server_batchWrite db s b sync =
     with_db s (\<lambda>d. let bat = D_NewBatch db d in
       bindR (server_batch_ops (D_bat db) bat (pb_Ops b)) (\<lambda>(bat, err).
         if err \<noteq> None then (let (bat, _) = B_Close (D_bat db) bat in Ret (s, reply nothing err))
         else let (bat, d, err) = (if sync then B_WriteSync (D_bat db) bat d else B_Write (D_bat db) bat d);
                  (bat, _) = B_Close (D_bat db) bat
           in Ret (s\<lparr>srv_db := Some d\<rparr>, reply nothing err)))"

definition server_BatchWrite ::
  "('s, 'i, 'b) DB \<Rightarrow> 's server \<Rightarrow> PBatch \<Rightarrow> ('s server \<times> (Nothing + error)) res" where
  "server_BatchWrite db s b = server_batchWrite db s b False"

definition server_BatchWriteSync ::
  "('s, 'i, 'b) DB \<Rightarrow> 's server \<Rightarrow> PBatch \<Rightarrow> ('s server \<times> (Nothing + error)) res" where
  "server_BatchWriteSync db s b = server_batchWrite db s b True"

section \<open>GetStream\<close>

text \<open>The text of an error, Go's method \<open>Error\<close>.\<close>

fun error_text :: "error \<Rightarrow> string" where
  "error_text errBatchClosed = ''batch has been written or closed''"
| "error_text errKeyEmpty = ''key cannot be empty''"
| "error_text errValueNil = ''value cannot be nil''"
| "error_text (Wrap m e) = m @ '': '' @ error_text e"
| "error_text (ErrorString m) = m"
| "error_text (Foreign m) = m"

text \<open>
  The goroutine that receives: about to call \<open>Recv\<close> with the given requests still to come, about
  to push a response into the channel (and to return after it, if the flag is set), or returned,
  with the channel closed. The method itself, which sends: waiting at the channel, calling \<open>Send\<close>,
  or returned.
\<close>

datatype gs_receiver = RRecv "Entity list" | RPush Entity "Entity list" bool | RDone

datatype gs_sender = SRange | SSend Entity | SReturned "error option"

record gs_state =
  gs_recv :: gs_receiver
  gs_send :: gs_sender
  gs_sent :: "Entity list"

text \<open>The response to one request, and whether it ends the stream.\<close>

definition gs_response :: "('s, 'i, 'b) DB \<Rightarrow> 's server \<Rightarrow> Entity \<Rightarrow> (Entity \<times> bool) res" where
  "gs_response db s in' =
     bindR (server_Get db s in') (\<lambda>r. case r of
       Inl out \<Rightarrow> Ret (out, False)
     | Inr err \<Rightarrow> (let out = new_Entity; out = out\<lparr>en_Key := en_Key in'\<rparr> in Ret (out\<lparr>en_Err := error_text err\<rparr>, True)))"

text \<open>
  \<open>rerr\<close> is the error with which \<open>Recv\<close> ends the stream of requests, \<open>io.EOF\<close> when the client has
  closed it; \<open>send sent out\<close> is what \<open>Send\<close> of \<open>out\<close> answers after the messages \<open>sent\<close>.
\<close>

inductive gs_step ::
  "('s, 'i, 'b) DB \<Rightarrow> 's server \<Rightarrow> error \<Rightarrow> (Entity list \<Rightarrow> Entity \<Rightarrow> error option) \<Rightarrow> gs_state \<Rightarrow> gs_state \<Rightarrow> bool"
  for db :: "('s, 'i, 'b) DB" and s :: "'s server" and rerr :: error
    and send :: "Entity list \<Rightarrow> Entity \<Rightarrow> error option" where
  recv: "gs_response db s in' = Ret (out, last') \<Longrightarrow>
    gs_step db s rerr send \<lparr>gs_recv = RRecv (in' # ins), gs_send = snd', gs_sent = sent\<rparr>
      \<lparr>gs_recv = RPush out ins last', gs_send = snd', gs_sent = sent\<rparr>"
| recv_error:
    "gs_step db s rerr send \<lparr>gs_recv = RRecv [], gs_send = snd', gs_sent = sent\<rparr>
      \<lparr>gs_recv = RPush (new_Entity\<lparr>en_Err := error_text rerr\<rparr>) [] True, gs_send = snd', gs_sent = sent\<rparr>"
| pass:
    "gs_step db s rerr send \<lparr>gs_recv = RPush out ins last', gs_send = SRange, gs_sent = sent\<rparr>
      \<lparr>gs_recv = (if last' then RDone else RRecv ins), gs_send = SSend out, gs_sent = sent\<rparr>"
| send_ok: "send sent out = None \<Longrightarrow>
    gs_step db s rerr send \<lparr>gs_recv = r, gs_send = SSend out, gs_sent = sent\<rparr>
      \<lparr>gs_recv = r, gs_send = SRange, gs_sent = sent @ [out]\<rparr>"
| send_error: "send sent out = Some err \<Longrightarrow>
    gs_step db s rerr send \<lparr>gs_recv = r, gs_send = SSend out, gs_sent = sent\<rparr>
      \<lparr>gs_recv = r, gs_send = SReturned (Some err), gs_sent = sent\<rparr>"
| closed:
    "gs_step db s rerr send \<lparr>gs_recv = RDone, gs_send = SRange, gs_sent = sent\<rparr>
      \<lparr>gs_recv = RDone, gs_send = SReturned None, gs_sent = sent\<rparr>"

definition gs_start :: "Entity list \<Rightarrow> gs_state" where
  "gs_start ins = \<lparr>gs_recv = RRecv ins, gs_send = SRange, gs_sent = []\<rparr>"

text \<open>The reference: answer each request in turn, stop after the first error, end with the error.\<close>

fun gs_answers :: "('s, 'i, 'b) DB \<Rightarrow> 's server \<Rightarrow> error \<Rightarrow> Entity list \<Rightarrow> Entity list" where
  "gs_answers db s rerr [] = [new_Entity\<lparr>en_Err := error_text rerr\<rparr>]"
| "gs_answers db s rerr (in' # ins) =
     (case gs_response db s in' of
        Some (Inr (out, last')) \<Rightarrow> if last' then [out] else out # gs_answers db s rerr ins
      | _ \<Rightarrow> [])"

text \<open>What a state still has to send, and a number that every step decreases.\<close>

fun gs_pending_recv :: "('s, 'i, 'b) DB \<Rightarrow> 's server \<Rightarrow> error \<Rightarrow> gs_receiver \<Rightarrow> Entity list" where
  "gs_pending_recv db s rerr (RRecv ins) = gs_answers db s rerr ins"
| "gs_pending_recv db s rerr (RPush out ins last') = out # (if last' then [] else gs_answers db s rerr ins)"
| "gs_pending_recv db s rerr RDone = []"

fun gs_pending_send :: "gs_sender \<Rightarrow> Entity list" where
  "gs_pending_send (SSend out) = [out]"
| "gs_pending_send _ = []"

fun gs_recv_weight :: "gs_receiver \<Rightarrow> nat" where
  "gs_recv_weight (RRecv ins) = 4 * length ins + 4"
| "gs_recv_weight (RPush out ins last') = (if last' then 3 else 4 * length ins + 7)"
| "gs_recv_weight RDone = 0"

fun gs_send_weight :: "gs_sender \<Rightarrow> nat" where
  "gs_send_weight (SSend out) = 2"
| "gs_send_weight SRange = 1"
| "gs_send_weight (SReturned e) = 0"

definition gs_weight :: "gs_state \<Rightarrow> nat" where
  "gs_weight st = gs_recv_weight (gs_recv st) + gs_send_weight (gs_send st)"

lemma gs_step_weight: "gs_step db s rerr send st st' \<Longrightarrow> gs_weight st' < gs_weight st"
  by (induction rule: gs_step.induct) (auto simp: gs_weight_def)

text \<open>The messages sent and still to send are the answers, unless \<open>Send\<close> failed.\<close>

definition gs_inv :: "('s, 'i, 'b) DB \<Rightarrow> 's server \<Rightarrow> error \<Rightarrow> Entity list \<Rightarrow> gs_state \<Rightarrow> bool" where
  "gs_inv db s rerr ins st \<longleftrightarrow>
     (case gs_send st of
        SReturned (Some e) \<Rightarrow> prefix (gs_sent st) (gs_answers db s rerr ins)
      | _ \<Rightarrow> gs_sent st @ gs_pending_send (gs_send st) @ gs_pending_recv db s rerr (gs_recv st) = gs_answers db s rerr ins)
     \<and> (gs_send st = SReturned None \<longrightarrow> gs_recv st = RDone)"

lemma gs_inv_step:
  assumes "gs_step db s rerr send st st'" and "gs_inv db s rerr ins st"
  shows "gs_inv db s rerr ins st'"
  using assms
  by (induction rule: gs_step.induct) (auto simp: gs_inv_def dest!: sym [of _ "gs_answers db s rerr ins"]
      split: gs_sender.splits option.splits)

lemma gs_inv_reachable:
  assumes "(gs_step db s rerr send)\<^sup>*\<^sup>* (gs_start ins) st"
  shows "gs_inv db s rerr ins st"
  using assms
proof (induction rule: rtranclp_induct)
  case base
  show ?case by (simp add: gs_start_def gs_inv_def)
qed (rule gs_inv_step)

lemma gs_response_Ret: "srv_db s = Some d \<Longrightarrow> \<exists>out last'. gs_response db s in' = Ret (out, last')"
  by (auto simp: gs_response_def server_Get_def with_db_def reply_def split: prod.splits option.splits)

text \<open>A state in which nothing can happen any more: the method has returned.\<close>

lemma gs_stuck:
  assumes "srv_db s = Some d" and "\<nexists>st'. gs_step db s rerr send st st'"
  shows "\<exists>e. gs_send st = SReturned e"
proof -
  obtain r sn sent where st: "st = \<lparr>gs_recv = r, gs_send = sn, gs_sent = sent\<rparr>" by (cases st) auto
  have no: "\<not> gs_step db s rerr send \<lparr>gs_recv = r, gs_send = sn, gs_sent = sent\<rparr> st'" for st' using assms(2) st by blast
  show ?thesis
  proof (cases sn)
    case SRange
    show ?thesis
    proof (cases r)
      case (RRecv xs)
      show ?thesis
      proof (cases xs)
        case Nil
        then show ?thesis using no RRecv recv_error by blast
      next
        case (Cons x ys)
        then show ?thesis using no RRecv gs_response_Ret [OF assms(1), of db x] recv by metis
      qed
    next
      case (RPush out ins l)
      then show ?thesis using no SRange pass by blast
    next
      case RDone
      then show ?thesis using no SRange closed by blast
    qed
  next
    case (SSend out)
    then show ?thesis using no send_ok send_error by (metis not_None_eq)
  next
    case (SReturned e)
    then show ?thesis using st by simp
  qed
qed

lemma gs_returned_step:
  assumes "gs_step db s rerr send st st'" and "gs_send st = SReturned (Some e)" and "gs_recv st \<noteq> RDone"
  shows "gs_send st' = SReturned (Some e) \<and> gs_recv st' \<noteq> RDone \<and> gs_sent st' = gs_sent st"
  using assms by (induction rule: gs_step.induct) auto

lemma gs_returned_steps:
  assumes "(gs_step db s rerr send)\<^sup>*\<^sup>* st st'" and "gs_send st = SReturned (Some e)" and "gs_recv st \<noteq> RDone"
  shows "gs_send st' = SReturned (Some e) \<and> gs_recv st' \<noteq> RDone \<and> gs_sent st' = gs_sent st"
  using assms(1)
proof (induction rule: rtranclp_induct)
  case (step st1 st2)
  with gs_returned_step [of db s rerr send st1 st2 e] show ?case by simp
qed (use assms in simp)

section \<open>Properties\<close>

text \<open>
  \<open>GetStream\<close> on an initialised server returns after at most \<open>4 n + 5\<close> steps of its two
  goroutines for \<open>n\<close> requests. Whatever their interleaving, the messages sent are at every moment
  a prefix of the answers in request order (up to the first error, which ends the stream); unless
  \<open>Send\<close> fails, all answers are sent and both goroutines have returned.
\<close>

theorem server_GetStream_answers:
  assumes "srv_db s = Some d" and "((gs_step db s rerr send) ^^ n) (gs_start ins) st"
  shows "n \<le> 4 * length ins + 5 \<and> prefix (gs_sent st) (gs_answers db s rerr ins) \<and>
    ((\<nexists>st'. gs_step db s rerr send st st') \<longrightarrow>
       gs_recv st = RDone \<and> gs_send st = SReturned None \<and> gs_sent st = gs_answers db s rerr ins \<or>
       (\<exists>e. gs_send st = SReturned (Some e)))"
proof -
  have inv: "gs_inv db s rerr ins st" by (rule gs_inv_reachable [OF relpowp_imp_rtranclp [OF assms(2)]])
  have "gs_weight st + n \<le> gs_weight (gs_start ins)"
    using assms(2)
  proof (induction n arbitrary: st)
    case (Suc n)
    then obtain st1 where "((gs_step db s rerr send) ^^ n) (gs_start ins) st1" "gs_step db s rerr send st1 st" by auto
    with Suc.IH [of st1] gs_step_weight [of db s rerr send st1 st] show ?case by simp
  qed simp
  then have "n \<le> 4 * length ins + 5" by (simp add: gs_weight_def gs_start_def)
  moreover have "prefix (gs_sent st) (gs_answers db s rerr ins)"
    using inv by (auto simp: gs_inv_def dest!: sym [of _ "gs_answers db s rerr ins"] split: gs_sender.splits option.splits)
  moreover have "gs_recv st = RDone \<and> gs_send st = SReturned None \<and> gs_sent st = gs_answers db s rerr ins \<or>
      (\<exists>e. gs_send st = SReturned (Some e))" if "\<nexists>st'. gs_step db s rerr send st st'"
    using gs_stuck [OF assms(1) that] inv by (auto simp: gs_inv_def split: option.splits)
  ultimately show ?thesis by blast
qed

theorem server_GetStream_answers_witness:
  "prefix [new_Entity\<lparr>en_Err := ''EOF''\<rparr>]
     (gs_answers (MemDB_iface list_btree) \<lparr>srv_db = Some (NewMemDB list_btree)\<rparr> (ErrorString ''EOF'') [])"
proof -
  let ?step = "gs_step (MemDB_iface list_btree) \<lparr>srv_db = Some (NewMemDB list_btree)\<rparr> (ErrorString ''EOF'') (\<lambda>sent out. None)"
  let ?out = "new_Entity\<lparr>en_Err := ''EOF''\<rparr>"
  have 1: "?step (gs_start []) \<lparr>gs_recv = RPush ?out [] True, gs_send = SRange, gs_sent = []\<rparr>"
    using gs_step.recv_error [where snd' = SRange and sent = "[]" and rerr = "ErrorString ''EOF''"]
    by (simp add: gs_start_def)
  have 2: "?step \<lparr>gs_recv = RPush ?out [] True, gs_send = SRange, gs_sent = []\<rparr>
      \<lparr>gs_recv = RDone, gs_send = SSend ?out, gs_sent = []\<rparr>"
    using gs_step.pass [where last' = True] by simp
  have 3: "?step \<lparr>gs_recv = RDone, gs_send = SSend ?out, gs_sent = []\<rparr>
      \<lparr>gs_recv = RDone, gs_send = SRange, gs_sent = [?out]\<rparr>"
    using gs_step.send_ok [where sent = "[]" and out = ?out and send = "\<lambda>sent out. None"] by simp
  have "(?step ^^ 3) (gs_start []) \<lparr>gs_recv = RDone, gs_send = SRange, gs_sent = [?out]\<rparr>"
    using 1 2 3 by (auto simp: numeral_3_eq_3)
  from server_GetStream_answers [OF _ this, of "NewMemDB list_btree"] show ?thesis by simp
qed

text \<open>
  C40. When \<open>Send\<close> fails before the last response, \<open>GetStream\<close> returns the error and leaves its
  receiving goroutine behind: no step ever lets it return, it ends blocked on the channel that
  nobody reads.
\<close>

theorem server_GetStream_leaks_receiver:
  assumes "gs_send st = SReturned (Some e)" and "gs_recv st \<noteq> RDone"
    and "(gs_step db s rerr send)\<^sup>*\<^sup>* st st'"
  shows "gs_recv st' \<noteq> RDone \<and> gs_sent st' = gs_sent st"
  using gs_returned_steps [OF assms(3,1,2)] by simp

theorem server_GetStream_leaks_receiver_witness:
  "gs_step (MemDB_iface list_btree) \<lparr>srv_db = Some (NewMemDB list_btree)\<rparr> (ErrorString ''EOF'') (\<lambda>sent out. Some (Foreign ''broken''))
      \<lparr>gs_recv = RRecv [], gs_send = SReturned (Some (Foreign ''broken'')), gs_sent = []\<rparr>
      \<lparr>gs_recv = RPush (new_Entity\<lparr>en_Err := ''EOF''\<rparr>) [] True, gs_send = SReturned (Some (Foreign ''broken'')), gs_sent = []\<rparr>
    \<and> RPush (new_Entity\<lparr>en_Err := ''EOF''\<rparr>) [] True \<noteq> RDone"
proof -
  let ?step = "gs_step (MemDB_iface list_btree) \<lparr>srv_db = Some (NewMemDB list_btree)\<rparr> (ErrorString ''EOF'')
      (\<lambda>sent out. Some (Foreign ''broken''))"
  have step: "?step \<lparr>gs_recv = RRecv [], gs_send = SReturned (Some (Foreign ''broken'')), gs_sent = []\<rparr>
      \<lparr>gs_recv = RPush (new_Entity\<lparr>en_Err := ''EOF''\<rparr>) [] True, gs_send = SReturned (Some (Foreign ''broken'')), gs_sent = []\<rparr>"
    using gs_step.recv_error [where rerr = "ErrorString ''EOF''"] by simp
  from server_GetStream_leaks_receiver [OF _ _ r_into_rtranclp [of ?step, OF step]] step show ?thesis by simp
qed

text \<open>
  A second \<open>Init\<close> replaces the database, and if it fails the server is left without one: every
  method that uses the database then dereferences nil.
\<close>

theorem server_Init_failure_drops_database:
  assumes "newDB (in_Name i) (in_Type i) (in_Dir i) = (None, Some err)"
  shows "\<exists>s'. server_Init newDB now s i = Ret (s', Inr err) \<and> server_Get db s' en = Panic nil_deref \<and>
    server_Set db s' en = Panic nil_deref \<and> server_Delete db s' en = Panic nil_deref \<and> server_batchWrite db s' b sync = Panic nil_deref"
  using assms
  by (simp add: server_Init_def reply_def server_Get_def server_Set_def server_Delete_def server_batchWrite_def with_db_def)

theorem server_Init_failure_drops_database_witness:
  "\<exists>s'. server_Init (\<lambda>name type' dir. (None, Some (ErrorString type'))) 0 \<lparr>srv_db = Some (NewMemDB list_btree)\<rparr>
      \<lparr>in_Type = ''fsdb'', in_Name = ''app'', in_Dir = [], in_unrecognized = None\<rparr> = Ret (s', Inr (ErrorString ''fsdb'')) \<and>
    server_Get (MemDB_iface list_btree) s' new_Entity = Panic nil_deref"
  using server_Init_failure_drops_database [of "\<lambda>name type' dir. (None, Some (ErrorString type'))"
      "\<lparr>in_Type = ''fsdb'', in_Name = ''app'', in_Dir = [], in_unrecognized = None\<rparr>" "ErrorString ''fsdb''" 0
      "\<lparr>srv_db = Some (NewMemDB list_btree)\<rparr>" "MemDB_iface list_btree" new_Entity]
  by auto

end
