(* ===== verification/Wire.thy ===== *)
theory Wire
  imports Proto
begin

text \<open>
  The wire format of protocol buffers as it is documented, as far as the unknown fields of a message
  need it: a decoder of fields, and the fields that a message of \<open>remotedb/proto/defs.pb.go\<close>
  declares. Unknown fields survive decoding if they are well-formed and their numbers are not
  declared; bytes of any other form are taken for a declared field or refused.
\<close>

section \<open>A decoder of the wire format\<close>

text \<open>
  The encoding as documented: a message is a sequence of fields, a field is a number with its wire
  type, three bits, and a value. Numbers are groups of seven bits, least significant first, the
  last of which has a clear high bit.
\<close>

datatype wire_value = WVarint nat | WFixed64 "byte list" | WBytes "byte list" | WFixed32 "byte list"

fun parse_groups :: "byte list \<Rightarrow> (nat \<times> byte list) option" where
  "parse_groups [] = None"
| "parse_groups (b # bs) =
     (if b < 128 then Some (unat b, bs) else map_option (\<lambda>(n, rest). (unat b mod 128 + 128 * n, rest)) (parse_groups bs))"

text \<open>A number has at most 64 bits in at most ten groups.\<close>

definition parse_varint :: "byte list \<Rightarrow> (nat \<times> byte list) option" where
  "parse_varint bs =
     (case parse_groups bs of
        None \<Rightarrow> None
      | Some (n, rest) \<Rightarrow> if n < 2 ^ 64 \<and> length bs \<le> length rest + 10 then Some (n, rest) else None)"

definition take_exact :: "nat \<Rightarrow> byte list \<Rightarrow> (byte list \<times> byte list) option" where
  "take_exact n bs = (if n \<le> length bs then Some (take n bs, drop n bs) else None)"

definition parse_value :: "nat \<Rightarrow> byte list \<Rightarrow> (wire_value \<times> byte list) option" where
  "parse_value wire bs =
     (if wire = 0 then map_option (map_prod WVarint id) (parse_varint bs)
      else if wire = 1 then map_option (map_prod WFixed64 id) (take_exact 8 bs)
      else if wire = 2 then Option.bind (parse_varint bs) (\<lambda>(n, rest). map_option (map_prod WBytes id) (take_exact n rest))
      else if wire = 5 then map_option (map_prod WFixed32 id) (take_exact 4 bs)
      else None)"

definition parse_field :: "byte list \<Rightarrow> ((nat \<times> wire_value) \<times> byte list) option" where
  "parse_field bs =
     Option.bind (parse_varint bs)
       (\<lambda>(key, rest). map_option (map_prod (\<lambda>v. (key div 8, v)) id) (parse_value (key mod 8) rest))"

lemma parse_groups_shrinks: "parse_groups bs = Some (n, rest) \<Longrightarrow> length rest < length bs"
  by (induction bs arbitrary: n) (auto split: if_splits)

lemma parse_varint_shrinks: "parse_varint bs = Some (n, rest) \<Longrightarrow> length rest < length bs"
  by (auto simp: parse_varint_def dest: parse_groups_shrinks split: option.splits if_splits)

lemma parse_value_shrinks: "parse_value wire bs = Some (v, rest) \<Longrightarrow> length rest \<le> length bs"
  by (auto simp: parse_value_def take_exact_def bind_eq_Some_conv dest: parse_varint_shrinks split: if_splits)

lemma parse_field_shrinks: "parse_field bs = Some (f, rest) \<Longrightarrow> length rest < length bs"
  by (auto simp: parse_field_def bind_eq_Some_conv dest!: parse_varint_shrinks parse_value_shrinks)

function parse_fields :: "byte list \<Rightarrow> (nat \<times> wire_value) list option" where
  "parse_fields bs =
     (if bs = [] then Some []
      else case parse_field bs of None \<Rightarrow> None | Some (f, rest) \<Rightarrow> map_option ((#) f) (parse_fields rest))"
  by auto

termination parse_fields
  by (relation "measure length") (auto dest: parse_field_shrinks)

declare parse_fields.simps [simp del]

text \<open>What comes after a field does not matter to its decoding.\<close>

lemma parse_groups_append: "parse_groups bs = Some (n, rest) \<Longrightarrow> parse_groups (bs @ ys) = Some (n, rest @ ys)"
  by (induction bs arbitrary: n) (auto split: if_splits)

lemma parse_varint_append: "parse_varint bs = Some (n, rest) \<Longrightarrow> parse_varint (bs @ ys) = Some (n, rest @ ys)"
  by (auto simp: parse_varint_def parse_groups_append split: option.splits if_splits)

lemma take_exact_append: "take_exact n bs = Some (xs, rest) \<Longrightarrow> take_exact n (bs @ ys) = Some (xs, rest @ ys)"
  by (auto simp: take_exact_def split: if_splits)

lemma parse_value_append:
  assumes "parse_value wire bs = Some (v, rest)"
  shows "parse_value wire (bs @ ys) = Some (v, rest @ ys)"
proof (cases "wire = 2")
  case True
  then obtain n rest1 xs where 1: "parse_varint bs = Some (n, rest1)" "take_exact n rest1 = Some (xs, rest)" "v = WBytes xs"
    using assms by (auto simp: parse_value_def bind_eq_Some_conv)
  show ?thesis using True 1(3) by (simp add: parse_value_def parse_varint_append [OF 1(1)] take_exact_append [OF 1(2)])
next
  case False
  with assms show ?thesis
    by (auto simp: parse_value_def parse_varint_append take_exact_append split: if_splits)
qed

lemma parse_field_append:
  assumes "parse_field bs = Some (f, rest)"
  shows "parse_field (bs @ ys) = Some (f, rest @ ys)"
proof -
  obtain key rest1 v where 1: "parse_varint bs = Some (key, rest1)" "parse_value (key mod 8) rest1 = Some (v, rest)"
    "f = (key div 8, v)"
    using assms by (auto simp: parse_field_def bind_eq_Some_conv)
  show ?thesis using 1(3) by (simp add: parse_field_def parse_varint_append [OF 1(1)] parse_value_append [OF 1(2)])
qed

lemma parse_fields_append:
  "parse_fields xs = Some fs \<Longrightarrow> parse_fields ys = Some gs \<Longrightarrow> parse_fields (xs @ ys) = Some (fs @ gs)"
proof (induction xs arbitrary: fs rule: parse_fields.induct)
  case (1 xs)
  show ?case
  proof (cases "xs = []")
    case False
    then obtain f rest fs' where f: "parse_field xs = Some (f, rest)" "parse_fields rest = Some fs'" "fs = f # fs'"
      using 1(2) by (auto simp: parse_fields.simps [of xs] split: option.splits)
    have "parse_fields (rest @ ys) = Some (fs' @ gs)" by (rule 1(1) [OF False f(1) refl f(2) 1(3)])
    with parse_field_append [OF f(1), of ys] False f(3) show ?thesis
      by (simp add: parse_fields.simps [of "xs @ ys"])
  qed (use 1(2,3) in \<open>simp add: parse_fields.simps [of "[]"]\<close>)
qed

lemma parse_fields_one: "parse_field bs = Some (f, []) \<Longrightarrow> parse_fields bs = Some [f]"
  using parse_field_shrinks [of bs f "[]"] by (auto simp: parse_fields.simps [of bs] parse_fields.simps [of "[]"])

text \<open>What the encoder of numbers writes is decoded.\<close>

lemma parse_groups_value:
  assumes "bs \<noteq> []" and "list_all (\<lambda>b. 128 \<le> b) (butlast bs)" and "last bs < 128"
  shows "parse_groups (bs @ rest) = Some (varint_value bs, rest)"
  using assms
proof (induction bs)
  case (Cons b bs)
  then show ?case
    by (cases "bs = []") (auto simp: word_less_nat_alt word_le_nat_alt split: if_splits)
qed simp

lemma encodeVarint_append: "encodeVarintPopulateDefs (xs @ ys) v = xs @ encodeVarintPopulateDefs ys v"
proof (induction ys v rule: encodeVarintPopulateDefs.induct)
  case (1 ys v)
  then show ?case
    by (subst (1 2) encodeVarintPopulateDefs.simps) (simp del: push_bit_numeral_minus_1)
qed

definition varint :: "64 word \<Rightarrow> byte list" where
  "varint v = encodeVarintPopulateDefs [] v"

lemma encodeVarint_varint: "encodeVarintPopulateDefs dAtA v = dAtA @ varint v"
  using encodeVarint_append [of dAtA "[]" v] by (simp add: varint_def)

lemma parse_varint_varint [simp]: "parse_varint (varint v @ rest) = Some (unat v, rest)" "parse_varint (varint v) = Some (unat v, [])"
proof -
  obtain bs where bs: "encodeVarintPopulateDefs [] v = [] @ bs" "bs \<noteq> []" "varint_value bs = unat v"
    "list_all (\<lambda>b. 128 \<le> b) (butlast bs)" "last bs < 128" "length bs \<le> 10"
    using encodeVarint_roundtrip [of "[]" v] by fastforce
  have "unat v < 2 ^ 64" using unsigned_less [of v] by simp
  then have "parse_varint (varint v @ rest) = Some (unat v, rest)" for rest
    using parse_groups_value [of bs rest] bs by (simp add: varint_def parse_varint_def)
  from this [of rest] this [of "[]"]
  show "parse_varint (varint v @ rest) = Some (unat v, rest)" "parse_varint (varint v) = Some (unat v, [])" by simp_all
qed

text \<open>The key of a field: its number and its wire type.\<close>

lemma field_key:
  assumes "fieldNumber < 2 ^ 29" and "wire < 8"
  shows "unat (ucast (or (push_bit 3 (of_nat fieldNumber)) (of_nat wire) :: 32 word) :: 64 word) = 8 * fieldNumber + wire"
proof -
  have t: "take_bit 3 wire = wire" using assms(2) by (simp add: take_bit_nat_eq_self)
  have "\<not> bit (push_bit 3 fieldNumber) n \<or> \<not> bit wire n" for n
    by (subst t [symmetric]) (auto simp: bit_push_bit_iff bit_take_bit_iff)
  then have or: "or (push_bit 3 fieldNumber) wire = 8 * fieldNumber + wire"
    by (subst disjunctive_add [symmetric]) (simp_all add: push_bit_eq_mult mult.commute)
  have "(or (push_bit 3 (of_nat fieldNumber)) (of_nat wire) :: 32 word) = of_nat (8 * fieldNumber + wire)"
    by (simp only: or [symmetric] of_nat_or_eq of_nat_push_bit)
  moreover have "unat (of_nat (8 * fieldNumber + wire) :: 32 word) = 8 * fieldNumber + wire"
    using assms by (simp only: unat_of_nat) simp
  ultimately show ?thesis using assms by (simp add: unsigned_ucast_eq take_bit_nat_eq_self)
qed

definition field_header :: "nat \<Rightarrow> nat \<Rightarrow> byte list" where
  "field_header fieldNumber wire = varint (ucast (or (push_bit 3 (of_nat fieldNumber)) (of_nat wire) :: 32 word))"

lemma parse_field_header:
  assumes "fieldNumber < 2 ^ 29" and "wire < 8"
  shows "parse_field (field_header fieldNumber wire @ rest) = map_option (map_prod (Pair fieldNumber) id) (parse_value wire rest)"
proof -
  have "(8 * fieldNumber + wire) div 8 = fieldNumber" "(8 * fieldNumber + wire) mod 8 = wire" using assms(2) by simp_all
  then show ?thesis by (simp add: parse_field_def field_header_def field_key [OF assms])
qed

section \<open>Declared fields\<close>

text \<open>The numbers of the declared fields, from the tags of the structures.\<close>

definition Batch_fields :: "nat list" where
  "Batch_fields = [1]"

definition Operation_fields :: "nat list" where
  "Operation_fields = [1, 2]"

definition Entity_fields :: "nat list" where
  "Entity_fields = [1, 2, 3, 4, 5, 6, 7, 8]"

definition Nothing_fields :: "nat list" where
  "Nothing_fields = []"

definition Domain_fields :: "nat list" where
  "Domain_fields = [1, 2]"

definition Iterator_fields :: "nat list" where
  "Iterator_fields = [1, 2, 3, 4]"

definition Stats_fields :: "nat list" where
  "Stats_fields = [1, 2]"

definition Init_fields :: "nat list" where
  "Init_fields = [1, 2, 3]"

lemmas declared_fields =
  Batch_fields_def Operation_fields_def Entity_fields_def Nothing_fields_def Domain_fields_def Iterator_fields_def
  Stats_fields_def Init_fields_def

text \<open>The bytes of unknown fields that a message keeps.\<close>

definition unknown_ok :: "nat list \<Rightarrow> slice \<Rightarrow> bool" where
  "unknown_ok declared u \<longleftrightarrow>
     (case parse_fields (sl u) of
        None \<Rightarrow> False
      | Some fs \<Rightarrow> list_all (\<lambda>(k, v). 0 < k \<and> k < 2 ^ 29 \<and> k \<notin> set declared) fs)"

lemma unknown_ok_None [simp]: "unknown_ok declared None"
  by (simp add: unknown_ok_def parse_fields.simps)

end
