(* ===== verification/RemoteDB.thy ===== *)
theory RemoteDB
  imports GrpcServer Wire
begin

text \<open>
  \<open>remotedb/remotedb.go\<close>, \<open>remotedb/iterator.go\<close>, \<open>remotedb/batch.go\<close> and the client and server
  stubs of \<open>remotedb/proto/defs.pb.go\<close>: a database behind a gRPC connection. What gRPC does with a
  message and with an error is the argument \<open>net\<close>; the locale \<open>grpc_laws\<close> says what it does on a
  connection that works. One client talks to one server, and a server that panics is taken to be
  started again, without a database. A stream holds the messages that the server sends; the
  server runs to the end of its iterator before the client reads. Streams that run beside other
  calls are the subject of \<open>RemoteDB_Concurrent\<close>.
\<close>

section \<open>The connection\<close>

datatype message =
    MInit PInit
  | MEntity Entity
  | MNothing Nothing
  | MBatch PBatch
  | MStats PStats
  | MIterator PIterator

text \<open>
  \<open>nt_wire\<close> encodes and decodes a message, \<open>nt_status\<close> turns the error of a handler into the status
  error that the client sees; \<open>nt_newStream\<close>, \<open>nt_sendMsg\<close> and \<open>nt_closeSend\<close> are the errors, if any, of
  opening a stream, of sending the request on it and of closing its sending side. The other fields are
  the errors for a server that died, a method that is not served, and bytes that do not decode.
\<close>

record transport =
  nt_wire :: "message \<Rightarrow> message"
  nt_status :: "error \<Rightarrow> error"
  nt_newStream :: "error option"
  nt_sendMsg :: "error option"
  nt_closeSend :: "error option"
  nt_lost :: error
  nt_unimplemented :: error
  nt_decode :: error

definition io_EOF :: error where
  "io_EOF = ErrorString ''EOF''"

type_synonym 's handler = "'s server \<Rightarrow> message \<Rightarrow> ('s server \<times> (message + error)) res"

text \<open>
  \<open>ge_interceptor\<close> is the interceptor given among the options of the server, if any: it gets the
  full method name and the handler that it may call.
\<close>

record ('s, 'i, 'b) grpc_env =
  ge_net :: transport
  ge_interceptor :: "(string \<Rightarrow> 's handler \<Rightarrow> 's handler) option"
  ge_db :: "('s, 'i, 'b) DB"
  ge_newDB :: "string \<Rightarrow> string \<Rightarrow> string \<Rightarrow> 's option \<times> error option"
  ge_now :: "64 word"

section \<open>The server stubs\<close>

definition answer_with ::
  "('a \<Rightarrow> message) \<Rightarrow> ('s server \<times> ('a + error)) res \<Rightarrow> ('s server \<times> (message + error)) res" where
  "answer_with f r = bindR r (\<lambda>(s, x). Ret (s, map_sum f id x))"

text \<open>A unary handler calls the method directly, or through the interceptor.\<close>

definition intercepted :: "('s, 'i, 'b) grpc_env \<Rightarrow> string \<Rightarrow> 's handler \<Rightarrow> 's handler" where
  "intercepted env fullMethod handler s in' =
     (case ge_interceptor env of None \<Rightarrow> handler s in' | Some interceptor \<Rightarrow> interceptor fullMethod handler s in')"

definition type_assertion :: string where
  "type_assertion = ''interface conversion''"

text \<open>
  The interface \<open>DBServer\<close>: the methods over the state of the server. \<open>GetStream\<close> runs two goroutines;
  its field is the state in which they start, and \<open>gs_step\<close> their steps.
\<close>

record 'x DBServer =
  ds_Init :: "'x \<Rightarrow> PInit \<Rightarrow> ('x \<times> (Entity + error)) res"
  ds_Get :: "'x \<Rightarrow> Entity \<Rightarrow> (Entity + error) res"
  ds_GetStream :: gs_state
  ds_Has :: "'x \<Rightarrow> Entity \<Rightarrow> (Entity + error) res"
  ds_Set :: "'x \<Rightarrow> Entity \<Rightarrow> ('x \<times> (Nothing + error)) res"
  ds_SetSync :: "'x \<Rightarrow> Entity \<Rightarrow> ('x \<times> (Nothing + error)) res"
  ds_Delete :: "'x \<Rightarrow> Entity \<Rightarrow> ('x \<times> (Nothing + error)) res"
  ds_DeleteSync :: "'x \<Rightarrow> Entity \<Rightarrow> ('x \<times> (Nothing + error)) res"
  ds_Iterator :: "(message list \<Rightarrow> PIterator \<Rightarrow> message list \<times> error option) \<Rightarrow> 'x \<Rightarrow> Entity \<Rightarrow> message list \<Rightarrow>
    (message list \<times> error option) res"
  ds_ReverseIterator :: "(message list \<Rightarrow> PIterator \<Rightarrow> message list \<times> error option) \<Rightarrow> 'x \<Rightarrow> Entity \<Rightarrow> message list \<Rightarrow>
    (message list \<times> error option) res"
  ds_Stats :: "'x \<Rightarrow> Nothing \<Rightarrow> (PStats + error) res"
  ds_BatchWrite :: "'x \<Rightarrow> PBatch \<Rightarrow> ('x \<times> (Nothing + error)) res"
  ds_BatchWriteSync :: "'x \<Rightarrow> PBatch \<Rightarrow> ('x \<times> (Nothing + error)) res"

text \<open>The server of \<open>grpcdb\<close> behind the interface, and the server that implements nothing.\<close>

definition server_DBServer :: "('s, 'i, 'b) grpc_env \<Rightarrow> 's server DBServer" where
  "server_DBServer env =
     \<lparr>ds_Init = server_Init (ge_newDB env) (ge_now env), ds_Get = server_Get (ge_db env),
      ds_GetStream = gs_start [], ds_Has = server_Has (ge_db env),
      ds_Set = server_Set (ge_db env), ds_SetSync = server_SetSync (ge_db env), ds_Delete = server_Delete (ge_db env),
      ds_DeleteSync = server_DeleteSync (ge_db env), ds_Iterator = server_Iterator (ge_db env),
      ds_ReverseIterator = server_ReverseIterator (ge_db env), ds_Stats = (\<lambda>s _. server_Stats (ge_db env) (ge_now env) s),
      ds_BatchWrite = server_BatchWrite (ge_db env), ds_BatchWriteSync = server_BatchWriteSync (ge_db env)\<rparr>"

definition UnimplementedDBServer :: "(string \<Rightarrow> error) \<Rightarrow> 'x DBServer" where
  "UnimplementedDBServer unimplementedf =
     \<lparr>ds_Init = (\<lambda>s req. Ret (s, Inr (unimplementedf ''method Init not implemented''))),
      ds_Get = (\<lambda>s req. Ret (Inr (unimplementedf ''method Get not implemented''))),
      ds_GetStream =
        \<lparr>gs_recv = RDone, gs_send = SReturned (Some (unimplementedf ''method GetStream not implemented'')), gs_sent = []\<rparr>,
      ds_Has = (\<lambda>s req. Ret (Inr (unimplementedf ''method Has not implemented''))),
      ds_Set = (\<lambda>s req. Ret (s, Inr (unimplementedf ''method Set not implemented''))),
      ds_SetSync = (\<lambda>s req. Ret (s, Inr (unimplementedf ''method SetSync not implemented''))),
      ds_Delete = (\<lambda>s req. Ret (s, Inr (unimplementedf ''method Delete not implemented''))),
      ds_DeleteSync = (\<lambda>s req. Ret (s, Inr (unimplementedf ''method DeleteSync not implemented''))),
      ds_Iterator = (\<lambda>send s req srv. Ret (srv, Some (unimplementedf ''method Iterator not implemented''))),
      ds_ReverseIterator = (\<lambda>send s req srv. Ret (srv, Some (unimplementedf ''method ReverseIterator not implemented''))),
      ds_Stats = (\<lambda>s req. Ret (Inr (unimplementedf ''method Stats not implemented''))),
      ds_BatchWrite = (\<lambda>s req. Ret (s, Inr (unimplementedf ''method BatchWrite not implemented''))),
      ds_BatchWriteSync = (\<lambda>s req. Ret (s, Inr (unimplementedf ''method BatchWriteSync not implemented'')))\<rparr>"

definition DB_Init_Handler :: "'s server DBServer \<Rightarrow> ('s, 'i, 'b) grpc_env \<Rightarrow> 's handler" where
  "DB_Init_Handler srv env s m =
     (let handler = (\<lambda>s req. case req of
            MInit in' \<Rightarrow> answer_with MEntity (ds_Init srv s in')
          | _ \<Rightarrow> Panic type_assertion)
      in case m of MInit in' \<Rightarrow> intercepted env ''/protodb.DB/Init'' handler s m
         | _ \<Rightarrow> Ret (s, Inr (nt_decode (ge_net env))))"

definition DB_Get_Handler :: "'s server DBServer \<Rightarrow> ('s, 'i, 'b) grpc_env \<Rightarrow> 's handler" where
  "DB_Get_Handler srv env s m =
     (let handler = (\<lambda>s req. case req of
            MEntity in' \<Rightarrow> answer_with MEntity (bindR (ds_Get srv s in') (\<lambda>r. Ret (s, r)))
          | _ \<Rightarrow> Panic type_assertion)
      in case m of MEntity in' \<Rightarrow> intercepted env ''/protodb.DB/Get'' handler s m
         | _ \<Rightarrow> Ret (s, Inr (nt_decode (ge_net env))))"

definition DB_Has_Handler :: "'s server DBServer \<Rightarrow> ('s, 'i, 'b) grpc_env \<Rightarrow> 's handler" where
  "DB_Has_Handler srv env s m =
     (let handler = (\<lambda>s req. case req of
            MEntity in' \<Rightarrow> answer_with MEntity (bindR (ds_Has srv s in') (\<lambda>r. Ret (s, r)))
          | _ \<Rightarrow> Panic type_assertion)
      in case m of MEntity in' \<Rightarrow> intercepted env ''/protodb.DB/Has'' handler s m
         | _ \<Rightarrow> Ret (s, Inr (nt_decode (ge_net env))))"

definition DB_Set_Handler :: "'s server DBServer \<Rightarrow> ('s, 'i, 'b) grpc_env \<Rightarrow> 's handler" where
  "DB_Set_Handler srv env s m =
     (let handler = (\<lambda>s req. case req of
            MEntity in' \<Rightarrow> answer_with MNothing (ds_Set srv s in')
          | _ \<Rightarrow> Panic type_assertion)
      in case m of MEntity in' \<Rightarrow> intercepted env ''/protodb.DB/Set'' handler s m
         | _ \<Rightarrow> Ret (s, Inr (nt_decode (ge_net env))))"

definition DB_SetSync_Handler :: "'s server DBServer \<Rightarrow> ('s, 'i, 'b) grpc_env \<Rightarrow> 's handler" where
  "DB_SetSync_Handler srv env s m =
     (let handler = (\<lambda>s req. case req of
            MEntity in' \<Rightarrow> answer_with MNothing (ds_SetSync srv s in')
          | _ \<Rightarrow> Panic type_assertion)
      in case m of MEntity in' \<Rightarrow> intercepted env ''/protodb.DB/SetSync'' handler s m
         | _ \<Rightarrow> Ret (s, Inr (nt_decode (ge_net env))))"

definition DB_Delete_Handler :: "'s server DBServer \<Rightarrow> ('s, 'i, 'b) grpc_env \<Rightarrow> 's handler" where
  "DB_Delete_Handler srv env s m =
     (let handler = (\<lambda>s req. case req of
            MEntity in' \<Rightarrow> answer_with MNothing (ds_Delete srv s in')
          | _ \<Rightarrow> Panic type_assertion)
      in case m of MEntity in' \<Rightarrow> intercepted env ''/protodb.DB/Delete'' handler s m
         | _ \<Rightarrow> Ret (s, Inr (nt_decode (ge_net env))))"

definition DB_DeleteSync_Handler :: "'s server DBServer \<Rightarrow> ('s, 'i, 'b) grpc_env \<Rightarrow> 's handler" where
  "DB_DeleteSync_Handler srv env s m =
     (let handler = (\<lambda>s req. case req of
            MEntity in' \<Rightarrow> answer_with MNothing (ds_DeleteSync srv s in')
          | _ \<Rightarrow> Panic type_assertion)
      in case m of MEntity in' \<Rightarrow> intercepted env ''/protodb.DB/DeleteSync'' handler s m
         | _ \<Rightarrow> Ret (s, Inr (nt_decode (ge_net env))))"

definition DB_Stats_Handler :: "'s server DBServer \<Rightarrow> ('s, 'i, 'b) grpc_env \<Rightarrow> 's handler" where
  "DB_Stats_Handler srv env s m =
     (let handler = (\<lambda>s req. case req of
            MNothing in' \<Rightarrow> answer_with MStats (bindR (ds_Stats srv s in') (\<lambda>r. Ret (s, r)))
          | _ \<Rightarrow> Panic type_assertion)
      in case m of MNothing in' \<Rightarrow> intercepted env ''/protodb.DB/Stats'' handler s m
         | _ \<Rightarrow> Ret (s, Inr (nt_decode (ge_net env))))"

definition DB_BatchWrite_Handler :: "'s server DBServer \<Rightarrow> ('s, 'i, 'b) grpc_env \<Rightarrow> 's handler" where
  "DB_BatchWrite_Handler srv env s m =
     (let handler = (\<lambda>s req. case req of
            MBatch in' \<Rightarrow> answer_with MNothing (ds_BatchWrite srv s in')
          | _ \<Rightarrow> Panic type_assertion)
      in case m of MBatch in' \<Rightarrow> intercepted env ''/protodb.DB/BatchWrite'' handler s m
         | _ \<Rightarrow> Ret (s, Inr (nt_decode (ge_net env))))"

definition DB_BatchWriteSync_Handler :: "'s server DBServer \<Rightarrow> ('s, 'i, 'b) grpc_env \<Rightarrow> 's handler" where
  "DB_BatchWriteSync_Handler srv env s m =
     (let handler = (\<lambda>s req. case req of
            MBatch in' \<Rightarrow> answer_with MNothing (ds_BatchWriteSync srv s in')
          | _ \<Rightarrow> Panic type_assertion)
      in case m of MBatch in' \<Rightarrow> intercepted env ''/protodb.DB/BatchWriteSync'' handler s m
         | _ \<Rightarrow> Ret (s, Inr (nt_decode (ge_net env))))"

text \<open>The method \<open>Send\<close> of a server stream; the stream collects its messages.\<close>

definition stream_Send :: "message list \<Rightarrow> PIterator \<Rightarrow> message list \<times> error option" where
  "stream_Send sent m = (sent @ [MIterator m], None)"

definition DB_Iterator_Handler ::
  "'s server DBServer \<Rightarrow> ('s, 'i, 'b) grpc_env \<Rightarrow> 's server \<Rightarrow> message \<Rightarrow> (message list \<times> error option) res" where
  "DB_Iterator_Handler srv env s m =
     (case m of MEntity q \<Rightarrow> ds_Iterator srv stream_Send s q []
      | _ \<Rightarrow> Ret ([], Some (nt_decode (ge_net env))))"

definition DB_ReverseIterator_Handler ::
  "'s server DBServer \<Rightarrow> ('s, 'i, 'b) grpc_env \<Rightarrow> 's server \<Rightarrow> message \<Rightarrow> (message list \<times> error option) res" where
  "DB_ReverseIterator_Handler srv env s m =
     (case m of MEntity q \<Rightarrow> ds_ReverseIterator srv stream_Send s q []
      | _ \<Rightarrow> Ret ([], Some (nt_decode (ge_net env))))"

text \<open>The service descriptor: its name and the handlers by method name.\<close>

definition DB_ServiceName :: string where
  "DB_ServiceName = ''protodb.DB''"

definition DB_Methods :: "'s server DBServer \<Rightarrow> ('s, 'i, 'b) grpc_env \<Rightarrow> (string \<times> 's handler) list" where
  "DB_Methods srv env =
     [(''init'', DB_Init_Handler srv env), (''get'', DB_Get_Handler srv env), (''has'', DB_Has_Handler srv env),
      (''set'', DB_Set_Handler srv env), (''setSync'', DB_SetSync_Handler srv env), (''delete'', DB_Delete_Handler srv env),
      (''deleteSync'', DB_DeleteSync_Handler srv env), (''stats'', DB_Stats_Handler srv env),
      (''batchWrite'', DB_BatchWrite_Handler srv env), (''batchWriteSync'', DB_BatchWriteSync_Handler srv env)]"

definition DB_Streams ::
  "'s server DBServer \<Rightarrow> ('s, 'i, 'b) grpc_env \<Rightarrow> (string \<times> ('s server \<Rightarrow> message \<Rightarrow> (message list \<times> error option) res)) list" where
  "DB_Streams srv env =
     [(''iterator'', DB_Iterator_Handler srv env), (''reverseIterator'', DB_ReverseIterator_Handler srv env)]"

definition by_path :: "(string \<times> 'h) list \<Rightarrow> string \<rightharpoonup> 'h" where
  "by_path ms = map_of (map (\<lambda>(n, h). (''/'' @ DB_ServiceName @ ''/'' @ n, h)) ms)"

section \<open>The client stubs\<close>

definition Invoke_on ::
  "'s server DBServer \<Rightarrow> ('s, 'i, 'b) grpc_env \<Rightarrow> 's server \<Rightarrow> string \<Rightarrow> message \<Rightarrow> 's server \<times> (message + error)" where
  "Invoke_on srv env s path in' =
     (case by_path (DB_Methods srv env) path of
        None \<Rightarrow> (s, Inr (nt_unimplemented (ge_net env)))
      | Some handler \<Rightarrow>
          (case handler s (nt_wire (ge_net env) in') of
             Some (Inr (s, Inl out)) \<Rightarrow> (s, Inl (nt_wire (ge_net env) out))
           | Some (Inr (s, Inr err)) \<Rightarrow> (s, Inr (nt_status (ge_net env) err))
           | _ \<Rightarrow> (\<lparr>srv_db = None\<rparr>, Inr (nt_lost (ge_net env)))))"

text \<open>The connection leads to a gRPC server at which \<open>RegisterDBServer\<close> registered the server of \<open>grpcdb\<close>.\<close>

definition Invoke ::
  "('s, 'i, 'b) grpc_env \<Rightarrow> 's server \<Rightarrow> string \<Rightarrow> message \<Rightarrow> 's server \<times> (message + error)" where
  "Invoke env = Invoke_on (server_DBServer env) env"

text \<open>A server that implements nothing answers every call with an error and stays as it is.\<close>

lemma Unimplemented_handler:
  assumes "by_path (DB_Methods (UnimplementedDBServer unimplementedf) env) path = Some handler" and "ge_interceptor env = None"
  shows "\<exists>err. handler s m = Ret (s, Inr err)"
proof -
  have "handler \<in> snd ` set (DB_Methods (UnimplementedDBServer unimplementedf) env)"
    using map_of_SomeD [OF assms(1) [unfolded by_path_def]] by force
  then show ?thesis
    using assms(2) by (cases m)
      (auto simp: DB_Methods_def DB_Init_Handler_def DB_Get_Handler_def DB_Has_Handler_def DB_Set_Handler_def
        DB_SetSync_Handler_def DB_Delete_Handler_def DB_DeleteSync_Handler_def DB_Stats_Handler_def
        DB_BatchWrite_Handler_def DB_BatchWriteSync_Handler_def intercepted_def answer_with_def UnimplementedDBServer_def)
qed

lemma Unimplemented_Invoke:
  assumes "ge_interceptor env = None"
  shows "\<exists>err. Invoke_on (UnimplementedDBServer unimplementedf) env s path m = (s, Inr err)"
  using Unimplemented_handler [OF _ assms, of unimplementedf path _ s "nt_wire (ge_net env) m"]
  by (auto simp: Invoke_on_def split: option.split)
fun as_Entity :: "transport \<Rightarrow> message + error \<Rightarrow> Entity + error" where
  "as_Entity net (Inl (MEntity out)) = Inl out"
| "as_Entity net (Inr err) = Inr err"
| "as_Entity net _ = Inr (nt_decode net)"

fun as_Nothing :: "transport \<Rightarrow> message + error \<Rightarrow> Nothing + error" where
  "as_Nothing net (Inl (MNothing out)) = Inl out"
| "as_Nothing net (Inr err) = Inr err"
| "as_Nothing net _ = Inr (nt_decode net)"

fun as_Stats :: "transport \<Rightarrow> message + error \<Rightarrow> PStats + error" where
  "as_Stats net (Inl (MStats out)) = Inl out"
| "as_Stats net (Inr err) = Inr err"
| "as_Stats net _ = Inr (nt_decode net)"

definition dBClient_Init :: "('s, 'i, 'b) grpc_env \<Rightarrow> 's server \<Rightarrow> PInit \<Rightarrow> 's server \<times> (Entity + error)" where
  "dBClient_Init env s in' = map_prod id (as_Entity (ge_net env)) (Invoke env s ''/protodb.DB/init'' (MInit in'))"

definition dBClient_Get :: "('s, 'i, 'b) grpc_env \<Rightarrow> 's server \<Rightarrow> Entity \<Rightarrow> 's server \<times> (Entity + error)" where
  "dBClient_Get env s in' = map_prod id (as_Entity (ge_net env)) (Invoke env s ''/protodb.DB/get'' (MEntity in'))"

definition dBClient_Has :: "('s, 'i, 'b) grpc_env \<Rightarrow> 's server \<Rightarrow> Entity \<Rightarrow> 's server \<times> (Entity + error)" where
  "dBClient_Has env s in' = map_prod id (as_Entity (ge_net env)) (Invoke env s ''/protodb.DB/has'' (MEntity in'))"

definition dBClient_Set :: "('s, 'i, 'b) grpc_env \<Rightarrow> 's server \<Rightarrow> Entity \<Rightarrow> 's server \<times> (Nothing + error)" where
  "dBClient_Set env s in' = map_prod id (as_Nothing (ge_net env)) (Invoke env s ''/protodb.DB/set'' (MEntity in'))"

definition dBClient_SetSync :: "('s, 'i, 'b) grpc_env \<Rightarrow> 's server \<Rightarrow> Entity \<Rightarrow> 's server \<times> (Nothing + error)" where
  "dBClient_SetSync env s in' = map_prod id (as_Nothing (ge_net env)) (Invoke env s ''/protodb.DB/setSync'' (MEntity in'))"

definition dBClient_Delete :: "('s, 'i, 'b) grpc_env \<Rightarrow> 's server \<Rightarrow> Entity \<Rightarrow> 's server \<times> (Nothing + error)" where
  "dBClient_Delete env s in' = map_prod id (as_Nothing (ge_net env)) (Invoke env s ''/protodb.DB/delete'' (MEntity in'))"

definition dBClient_DeleteSync :: "('s, 'i, 'b) grpc_env \<Rightarrow> 's server \<Rightarrow> Entity \<Rightarrow> 's server \<times> (Nothing + error)" where
  "dBClient_DeleteSync env s in' =
     map_prod id (as_Nothing (ge_net env)) (Invoke env s ''/protodb.DB/deleteSync'' (MEntity in'))"

definition dBClient_Stats :: "('s, 'i, 'b) grpc_env \<Rightarrow> 's server \<Rightarrow> Nothing \<Rightarrow> 's server \<times> (PStats + error)" where
  "dBClient_Stats env s in' = map_prod id (as_Stats (ge_net env)) (Invoke env s ''/protodb.DB/stats'' (MNothing in'))"

definition dBClient_BatchWrite :: "('s, 'i, 'b) grpc_env \<Rightarrow> 's server \<Rightarrow> PBatch \<Rightarrow> 's server \<times> (Nothing + error)" where
  "dBClient_BatchWrite env s in' =
     map_prod id (as_Nothing (ge_net env)) (Invoke env s ''/protodb.DB/batchWrite'' (MBatch in'))"

definition dBClient_BatchWriteSync :: "('s, 'i, 'b) grpc_env \<Rightarrow> 's server \<Rightarrow> PBatch \<Rightarrow> 's server \<times> (Nothing + error)" where
  "dBClient_BatchWriteSync env s in' =
     map_prod id (as_Nothing (ge_net env)) (Invoke env s ''/protodb.DB/batchWriteSync'' (MBatch in'))"

text \<open>A stream at the client: the messages on their way and the status the server ended it with.\<close>

record stream =
  st_pending :: "message list"
  st_status :: "error option"

definition serve_stream :: "('s, 'i, 'b) grpc_env \<Rightarrow> 's server \<Rightarrow> string \<Rightarrow> message \<Rightarrow> stream res" where
  "serve_stream env s path in' =
     (case by_path (DB_Streams (server_DBServer env) env) path of
        None \<Rightarrow> Ret \<lparr>st_pending = [], st_status = Some (nt_unimplemented (ge_net env))\<rparr>
      | Some handler \<Rightarrow>
          (case handler s (nt_wire (ge_net env) in') of
             None \<Rightarrow> None
           | Some (Inl m) \<Rightarrow> Ret \<lparr>st_pending = [], st_status = Some (nt_lost (ge_net env))\<rparr>
           | Some (Inr (msgs, err)) \<Rightarrow>
               Ret \<lparr>st_pending = map (nt_wire (ge_net env)) msgs, st_status = map_option (nt_status (ge_net env)) err\<rparr>))"

definition open_stream ::
  "('s, 'i, 'b) grpc_env \<Rightarrow> 's server \<Rightarrow> string \<Rightarrow> message \<Rightarrow> (stream + error) res" where
  "open_stream env s path in' =
     (case nt_newStream (ge_net env) of
        Some err \<Rightarrow> Ret (Inr err)
      | None \<Rightarrow>
          (case nt_sendMsg (ge_net env) of
             Some err \<Rightarrow> Ret (Inr err)
           | None \<Rightarrow>
               (case nt_closeSend (ge_net env) of
                  Some err \<Rightarrow> Ret (Inr err)
                | None \<Rightarrow> bindR (serve_stream env s path in') (\<lambda>st. Ret (Inl st)))))"

definition dBClient_Iterator :: "('s, 'i, 'b) grpc_env \<Rightarrow> 's server \<Rightarrow> Entity \<Rightarrow> (stream + error) res" where
  "dBClient_Iterator env s in' = open_stream env s ''/protodb.DB/iterator'' (MEntity in')"

definition dBClient_ReverseIterator :: "('s, 'i, 'b) grpc_env \<Rightarrow> 's server \<Rightarrow> Entity \<Rightarrow> (stream + error) res" where
  "dBClient_ReverseIterator env s in' = open_stream env s ''/protodb.DB/reverseIterator'' (MEntity in')"

definition stream_Recv :: "transport \<Rightarrow> stream \<Rightarrow> stream \<times> (PIterator + error)" where
  "stream_Recv net st =
     (case st_pending st of
        [] \<Rightarrow> (st, Inr (case st_status st of None \<Rightarrow> io_EOF | Some err \<Rightarrow> err))
      | m # ms \<Rightarrow> (st\<lparr>st_pending := ms\<rparr>, case m of MIterator i \<Rightarrow> Inl i | _ \<Rightarrow> Inr (nt_decode net)))"

section \<open>The database\<close>

record 's RemoteDB =
  rd_dc :: "'s server"

text \<open>
  \<open>grpcdb.NewClient\<close>: reading the certificate is the argument \<open>newClientTLSFromFile\<close>, dialing the
  argument \<open>dial\<close>. A connection is the server it leads to.
\<close>

definition NewClient ::
  "(string \<Rightarrow> string \<Rightarrow> 'c + error) \<Rightarrow> (string \<Rightarrow> 'c \<Rightarrow> 's server + error) \<Rightarrow> string \<Rightarrow> string \<Rightarrow> 's server + error" where
  "NewClient newClientTLSFromFile dial serverAddr serverCert =
     (case newClientTLSFromFile serverCert [] of
        Inr err \<Rightarrow> Inr err
      | Inl creds \<Rightarrow> (case dial serverAddr creds of Inr err \<Rightarrow> Inr err | Inl cc \<Rightarrow> Inl cc))"

definition newRemoteDB :: "'s server + error \<Rightarrow> 's RemoteDB option \<times> error option" where
  "newRemoteDB r = (case r of Inr err \<Rightarrow> (None, Some err) | Inl gdc \<Rightarrow> (Some \<lparr>rd_dc = gdc\<rparr>, None))"

definition NewRemoteDB ::
  "(string \<Rightarrow> string \<Rightarrow> 'c + error) \<Rightarrow> (string \<Rightarrow> 'c \<Rightarrow> 's server + error) \<Rightarrow> string \<Rightarrow> string \<Rightarrow>
     's RemoteDB option \<times> error option" where
  "NewRemoteDB newClientTLSFromFile dial serverAddr serverKey =
     newRemoteDB (NewClient newClientTLSFromFile dial serverAddr serverKey)"

record Init =
  ri_Dir :: string
  ri_Name :: string
  ri_Type :: string

definition RemoteDB_InitRemote :: "('s, 'i, 'b) grpc_env \<Rightarrow> 's RemoteDB \<Rightarrow> Init \<Rightarrow> 's RemoteDB \<times> error option" where
  "RemoteDB_InitRemote env rd in' =
     (let (s, r) = dBClient_Init env (rd_dc rd)
            \<lparr>in_Type = ri_Type in', in_Name = ri_Name in', in_Dir = ri_Dir in', in_unrecognized = None\<rparr>
      in (rd\<lparr>rd_dc := s\<rparr>, case r of Inl _ \<Rightarrow> None | Inr err \<Rightarrow> Some err))"

definition RemoteDB_Close :: "'s RemoteDB \<Rightarrow> 's RemoteDB \<times> error option" where
  "RemoteDB_Close rd = (rd, None)"

text \<open>The error of a call, wrapped with a message.\<close>

definition wrapped :: "string \<Rightarrow> 'a + error \<Rightarrow> error option" where
  "wrapped m r = (case r of Inl _ \<Rightarrow> None | Inr err \<Rightarrow> Some (Wrap m err))"

definition RemoteDB_Delete :: "('s, 'i, 'b) grpc_env \<Rightarrow> 's RemoteDB \<Rightarrow> slice \<Rightarrow> 's RemoteDB \<times> error option" where
  "RemoteDB_Delete env rd key =
     (let (s, r) = dBClient_Delete env (rd_dc rd) (new_Entity\<lparr>en_Key := key\<rparr>)
      in (rd\<lparr>rd_dc := s\<rparr>, wrapped ''remoteDB.Delete'' r))"

definition RemoteDB_DeleteSync :: "('s, 'i, 'b) grpc_env \<Rightarrow> 's RemoteDB \<Rightarrow> slice \<Rightarrow> 's RemoteDB \<times> error option" where
  "RemoteDB_DeleteSync env rd key =
     (let (s, r) = dBClient_DeleteSync env (rd_dc rd) (new_Entity\<lparr>en_Key := key\<rparr>)
      in (rd\<lparr>rd_dc := s\<rparr>, wrapped ''remoteDB.DeleteSync'' r))"

definition RemoteDB_Set :: "('s, 'i, 'b) grpc_env \<Rightarrow> 's RemoteDB \<Rightarrow> slice \<Rightarrow> slice \<Rightarrow> 's RemoteDB \<times> error option" where
  "RemoteDB_Set env rd key value' =
     (let (s, r) = dBClient_Set env (rd_dc rd) (new_Entity\<lparr>en_Key := key, en_Value := value'\<rparr>)
      in (rd\<lparr>rd_dc := s\<rparr>, wrapped ''remoteDB.Set'' r))"

definition RemoteDB_SetSync :: "('s, 'i, 'b) grpc_env \<Rightarrow> 's RemoteDB \<Rightarrow> slice \<Rightarrow> slice \<Rightarrow> 's RemoteDB \<times> error option" where
  "RemoteDB_SetSync env rd key value' =
     (let (s, r) = dBClient_SetSync env (rd_dc rd) (new_Entity\<lparr>en_Key := key, en_Value := value'\<rparr>)
      in (rd\<lparr>rd_dc := s\<rparr>, wrapped ''remoteDB.SetSync'' r))"

definition RemoteDB_Get :: "('s, 'i, 'b) grpc_env \<Rightarrow> 's RemoteDB \<Rightarrow> slice \<Rightarrow> slice \<times> error option" where
  "RemoteDB_Get env rd key =
     (case snd (dBClient_Get env (rd_dc rd) (new_Entity\<lparr>en_Key := key\<rparr>)) of
        Inr err \<Rightarrow> (None, Some (Wrap ''remoteDB.Get error'' err))
      | Inl res \<Rightarrow> (en_Value res, None))"

definition RemoteDB_Has :: "('s, 'i, 'b) grpc_env \<Rightarrow> 's RemoteDB \<Rightarrow> slice \<Rightarrow> bool \<times> error option" where
  "RemoteDB_Has env rd key =
     (case snd (dBClient_Has env (rd_dc rd) (new_Entity\<lparr>en_Key := key\<rparr>)) of
        Inr err \<Rightarrow> (False, Some err)
      | Inl res \<Rightarrow> (en_Exists res, None))"

definition RemoteDB_Print :: "'s RemoteDB \<Rightarrow> (string \<times> error option) res" where
  "RemoteDB_Print rd = Ret ([], Some (ErrorString ''remoteDB.Print: unimplemented''))"

definition RemoteDB_Stats :: "('s, 'i, 'b) grpc_env \<Rightarrow> 's RemoteDB \<Rightarrow> strmap" where
  "RemoteDB_Stats env rd =
     (case snd (dBClient_Stats env (rd_dc rd) new_Nothing) of Inr err \<Rightarrow> Map.empty | Inl stats \<Rightarrow> ps_Data stats)"

section \<open>The iterators\<close>

record iterator =
  itr_dic :: stream
  itr_cur :: "PIterator option"
  itr_err :: "error option"

definition iterator_Valid :: "iterator \<Rightarrow> bool" where
  "iterator_Valid itr \<longleftrightarrow> (case itr_cur itr of None \<Rightarrow> False | Some cur \<Rightarrow> pi_Valid cur \<and> itr_err itr = None)"

definition iterator_Domain :: "iterator \<Rightarrow> slice \<times> slice" where
  "iterator_Domain itr =
     (case itr_cur itr of
        None \<Rightarrow> (None, None)
      | Some cur \<Rightarrow> (case pi_Domain cur of None \<Rightarrow> (None, None) | Some d \<Rightarrow> (dm_Start d, dm_End d)))"

definition iterator_Next :: "transport \<Rightarrow> iterator \<Rightarrow> iterator" where
  "iterator_Next net itr =
     (let (st, r) = stream_Recv net (itr_dic itr); itr = itr\<lparr>itr_dic := st\<rparr>
      in case r of Inl cur \<Rightarrow> itr\<lparr>itr_cur := Some cur\<rparr> | Inr err \<Rightarrow> itr\<lparr>itr_cur := None, itr_err := Some err\<rparr>)"

definition iterator_assertIsValid :: "iterator \<Rightarrow> iterator res" where
  "iterator_assertIsValid itr = (if \<not> iterator_Valid itr then Panic ''iterator is invalid'' else Ret itr)"

definition iterator_Key :: "iterator \<Rightarrow> slice res" where
  "iterator_Key itr =
     bindR (iterator_assertIsValid itr) (\<lambda>itr. case itr_cur itr of None \<Rightarrow> Panic nil_deref | Some cur \<Rightarrow> Ret (pi_Key cur))"

definition iterator_Value :: "iterator \<Rightarrow> slice res" where
  "iterator_Value itr =
     bindR (iterator_assertIsValid itr) (\<lambda>itr. case itr_cur itr of None \<Rightarrow> Panic nil_deref | Some cur \<Rightarrow> Ret (pi_Value cur))"

definition iterator_Error :: "iterator \<Rightarrow> error option" where
  "iterator_Error itr = itr_err itr"

text \<open>\<open>CloseSend\<close> on a stream whose sending side is closed already does nothing.\<close>

definition iterator_Close :: "iterator \<Rightarrow> iterator \<times> error option" where
  "iterator_Close itr = (itr, None)"

definition makeIterator :: "transport \<Rightarrow> stream \<Rightarrow> iterator" where
  "makeIterator net dic = (let itr = \<lparr>itr_dic = dic, itr_cur = None, itr_err = None\<rparr> in iterator_Next net itr)"

record reverseIterator =
  rit_dric :: stream
  rit_cur :: "PIterator option"
  rit_err :: "error option"

definition reverseIterator_Valid :: "reverseIterator \<Rightarrow> bool" where
  "reverseIterator_Valid rItr \<longleftrightarrow> (case rit_cur rItr of None \<Rightarrow> False | Some cur \<Rightarrow> pi_Valid cur \<and> rit_err rItr = None)"

definition reverseIterator_Domain :: "reverseIterator \<Rightarrow> slice \<times> slice" where
  "reverseIterator_Domain rItr =
     (case rit_cur rItr of
        None \<Rightarrow> (None, None)
      | Some cur \<Rightarrow> (case pi_Domain cur of None \<Rightarrow> (None, None) | Some d \<Rightarrow> (dm_Start d, dm_End d)))"

definition reverseIterator_Next :: "transport \<Rightarrow> reverseIterator \<Rightarrow> reverseIterator" where
  "reverseIterator_Next net rItr =
     (let (st, r) = stream_Recv net (rit_dric rItr); rItr = rItr\<lparr>rit_dric := st\<rparr>
      in case r of Inl cur \<Rightarrow> rItr\<lparr>rit_cur := Some cur\<rparr> | Inr err \<Rightarrow> rItr\<lparr>rit_cur := None, rit_err := Some err\<rparr>)"

definition reverseIterator_assertIsValid :: "reverseIterator \<Rightarrow> reverseIterator res" where
  "reverseIterator_assertIsValid rItr = (if \<not> reverseIterator_Valid rItr then Panic ''iterator is invalid'' else Ret rItr)"

definition reverseIterator_Key :: "reverseIterator \<Rightarrow> slice res" where
  "reverseIterator_Key rItr =
     bindR (reverseIterator_assertIsValid rItr)
       (\<lambda>rItr. case rit_cur rItr of None \<Rightarrow> Panic nil_deref | Some cur \<Rightarrow> Ret (pi_Key cur))"

definition reverseIterator_Value :: "reverseIterator \<Rightarrow> slice res" where
  "reverseIterator_Value rItr =
     bindR (reverseIterator_assertIsValid rItr)
       (\<lambda>rItr. case rit_cur rItr of None \<Rightarrow> Panic nil_deref | Some cur \<Rightarrow> Ret (pi_Value cur))"

definition reverseIterator_Error :: "reverseIterator \<Rightarrow> error option" where
  "reverseIterator_Error rItr = rit_err rItr"

definition reverseIterator_Close :: "reverseIterator \<Rightarrow> reverseIterator \<times> error option" where
  "reverseIterator_Close rItr = (rItr, None)"

definition makeReverseIterator :: "transport \<Rightarrow> stream \<Rightarrow> reverseIterator" where
  "makeReverseIterator net dric =
     (let rItr = \<lparr>rit_dric = dric, rit_cur = None, rit_err = None\<rparr> in reverseIterator_Next net rItr)"

text \<open>The two types behind the interface \<open>db.Iterator\<close>.\<close>

datatype remote_iterator = Forward iterator | Backward reverseIterator

definition remote_iterator_iface :: "transport \<Rightarrow> remote_iterator Iterator" where
  "remote_iterator_iface net =
     \<lparr>I_Domain = (\<lambda>i. case i of Forward i \<Rightarrow> iterator_Domain i | Backward i \<Rightarrow> reverseIterator_Domain i),
      I_Valid = (\<lambda>i. Ret (case i of Forward i' \<Rightarrow> iterator_Valid i' | Backward i' \<Rightarrow> reverseIterator_Valid i', i)),
      I_Next = (\<lambda>i. Ret (case i of Forward i \<Rightarrow> Forward (iterator_Next net i)
        | Backward i \<Rightarrow> Backward (reverseIterator_Next net i))),
      I_Key = (\<lambda>i. bindR (case i of Forward i \<Rightarrow> iterator_Key i | Backward i \<Rightarrow> reverseIterator_Key i) (\<lambda>k. Ret (k, i))),
      I_Value = (\<lambda>i. bindR (case i of Forward i \<Rightarrow> iterator_Value i | Backward i \<Rightarrow> reverseIterator_Value i) (\<lambda>v. Ret (v, i))),
      I_Error = (\<lambda>i. case i of Forward i \<Rightarrow> iterator_Error i | Backward i \<Rightarrow> reverseIterator_Error i),
      I_Close = (\<lambda>i. case i of Forward i \<Rightarrow> map_prod Forward id (iterator_Close i)
        | Backward i \<Rightarrow> map_prod Backward id (reverseIterator_Close i))\<rparr>"

definition RemoteDB_Iterator ::
  "('s, 'i, 'b) grpc_env \<Rightarrow> 's RemoteDB \<Rightarrow> slice \<Rightarrow> slice \<Rightarrow> (remote_iterator option \<times> error option) res" where
  "RemoteDB_Iterator env rd start end' =
     bindR (dBClient_Iterator env (rd_dc rd) (new_Entity\<lparr>en_Start := start, en_End := end'\<rparr>)) (\<lambda>r. case r of
       Inr err \<Rightarrow> Ret (None, Some (Wrap ''RemoteDB.Iterator error'' err))
     | Inl dic \<Rightarrow> Ret (Some (Forward (makeIterator (ge_net env) dic)), None))"

definition RemoteDB_ReverseIterator ::
  "('s, 'i, 'b) grpc_env \<Rightarrow> 's RemoteDB \<Rightarrow> slice \<Rightarrow> slice \<Rightarrow> (remote_iterator option \<times> error option) res" where
  "RemoteDB_ReverseIterator env rd start end' =
     bindR (dBClient_ReverseIterator env (rd_dc rd) (new_Entity\<lparr>en_Start := start, en_End := end'\<rparr>)) (\<lambda>r. case r of
       Inr err \<Rightarrow> Ret (None, Some (Wrap ''RemoteDB.Iterator error'' err))
     | Inl dic \<Rightarrow> Ret (Some (Backward (makeReverseIterator (ge_net env) dic)), None))"

section \<open>The batch\<close>

definition remote_errBatchClosed :: error where
  "remote_errBatchClosed = ErrorString ''batch has been written or closed''"

record batch =
  rb_ops :: "Operation option list option"

definition newBatch :: "'s RemoteDB \<Rightarrow> batch" where
  "newBatch rdb = \<lparr>rb_ops = Some []\<rparr>"

definition batch_Set :: "batch \<Rightarrow> slice \<Rightarrow> slice \<Rightarrow> batch \<times> error option" where
  "batch_Set b key value' =
     (case rb_ops b of
        None \<Rightarrow> (b, Some remote_errBatchClosed)
      | Some ops \<Rightarrow>
          (let op = new_Operation\<lparr>opn_Entity := Some (new_Entity\<lparr>en_Key := key, en_Value := value'\<rparr>), opn_Type := Operation_SET\<rparr>
           in (b\<lparr>rb_ops := Some (ops @ [Some op])\<rparr>, None)))"

definition batch_Delete :: "batch \<Rightarrow> slice \<Rightarrow> batch \<times> error option" where
  "batch_Delete b key =
     (case rb_ops b of
        None \<Rightarrow> (b, Some remote_errBatchClosed)
      | Some ops \<Rightarrow>
          (let op = new_Operation\<lparr>opn_Entity := Some (new_Entity\<lparr>en_Key := key\<rparr>), opn_Type := Operation_DELETE\<rparr>
           in (b\<lparr>rb_ops := Some (ops @ [Some op])\<rparr>, None)))"

definition batch_Close :: "batch \<Rightarrow> batch \<times> error option" where
  "batch_Close b = (b\<lparr>rb_ops := None\<rparr>, None)"

definition batch_Write :: "('s, 'i, 'b) grpc_env \<Rightarrow> batch \<Rightarrow> 's RemoteDB \<Rightarrow> batch \<times> 's RemoteDB \<times> error option" where
  "batch_Write env b rd =
     (case rb_ops b of
        None \<Rightarrow> (b, rd, Some remote_errBatchClosed)
      | Some ops \<Rightarrow>
          (let (s, r) = dBClient_BatchWrite env (rd_dc rd) \<lparr>pb_Ops = ops, pb_unrecognized = None\<rparr>; rd = rd\<lparr>rd_dc := s\<rparr> in
           case r of
             Inr err \<Rightarrow> (b, rd, Some (Wrap ''remoteDB.BatchWrite'' err))
           | Inl _ \<Rightarrow> (let (b, _) = batch_Close b in (b, rd, None))))"

definition batch_WriteSync :: "('s, 'i, 'b) grpc_env \<Rightarrow> batch \<Rightarrow> 's RemoteDB \<Rightarrow> batch \<times> 's RemoteDB \<times> error option" where
  "batch_WriteSync env b rd =
     (case rb_ops b of
        None \<Rightarrow> (b, rd, Some remote_errBatchClosed)
      | Some ops \<Rightarrow>
          (let (s, r) = dBClient_BatchWriteSync env (rd_dc rd) \<lparr>pb_Ops = ops, pb_unrecognized = None\<rparr>; rd = rd\<lparr>rd_dc := s\<rparr> in
           case r of
             Inr err \<Rightarrow> (b, rd, Some (Wrap ''RemoteDB.BatchWriteSync'' err))
           | Inl _ \<Rightarrow> (let (b, err) = batch_Close b in (b, rd, err))))"

definition batch_iface :: "('s, 'i, 'b) grpc_env \<Rightarrow> ('s RemoteDB, batch) Batch" where
  "batch_iface env =
     \<lparr>B_Set = batch_Set, B_Delete = batch_Delete, B_Write = batch_Write env, B_WriteSync = batch_WriteSync env,
      B_Close = batch_Close\<rparr>"

definition RemoteDB_NewBatch :: "'s RemoteDB \<Rightarrow> batch" where
  "RemoteDB_NewBatch rd = newBatch rd"

definition RemoteDB_iface :: "('s, 'i, 'b) grpc_env \<Rightarrow> ('s RemoteDB, remote_iterator, batch) DB" where
  "RemoteDB_iface env =
     \<lparr>D_Get = RemoteDB_Get env, D_Has = RemoteDB_Has env, D_Set = RemoteDB_Set env, D_SetSync = RemoteDB_SetSync env,
      D_Delete = RemoteDB_Delete env, D_DeleteSync = RemoteDB_DeleteSync env, D_Iterator = RemoteDB_Iterator env,
      D_ReverseIterator = RemoteDB_ReverseIterator env, D_Close = RemoteDB_Close, D_NewBatch = RemoteDB_NewBatch,
      D_Print = RemoteDB_Print, D_Stats = RemoteDB_Stats env, D_itr = remote_iterator_iface (ge_net env),
      D_bat = batch_iface env\<rparr>"

section \<open>The documented behaviour of gRPC\<close>

definition ascii_text :: "string \<Rightarrow> bool" where
  "ascii_text s \<longleftrightarrow> list_all (\<lambda>c. of_char c < (128 :: nat)) s"

text \<open>
  What a message must be to survive: its strings are text, the pointers of a repeated field are not
  nil, and the bytes kept for unknown fields are fields that the message does not declare.
\<close>

definition Entity_encodable :: "Entity \<Rightarrow> bool" where
  "Entity_encodable e \<longleftrightarrow> ascii_text (en_Err e) \<and> unknown_ok Entity_fields (en_unrecognized e)"

definition Operation_encodable :: "Operation \<Rightarrow> bool" where
  "Operation_encodable op \<longleftrightarrow> pred_option Entity_encodable (opn_Entity op) \<and> unknown_ok Operation_fields (opn_unrecognized op)"

definition Domain_encodable :: "Domain \<Rightarrow> bool" where
  "Domain_encodable d \<longleftrightarrow> unknown_ok Domain_fields (dm_unrecognized d)"

fun encodable :: "message \<Rightarrow> bool" where
  "encodable (MInit i) \<longleftrightarrow>
     ascii_text (in_Type i) \<and> ascii_text (in_Name i) \<and> ascii_text (in_Dir i) \<and> unknown_ok Init_fields (in_unrecognized i)"
| "encodable (MEntity e) \<longleftrightarrow> Entity_encodable e"
| "encodable (MNothing n) \<longleftrightarrow> unknown_ok Nothing_fields (no_unrecognized n)"
| "encodable (MBatch b) \<longleftrightarrow>
     list_all (\<lambda>p. case p of None \<Rightarrow> False | Some op \<Rightarrow> Operation_encodable op) (pb_Ops b) \<and>
     unknown_ok Batch_fields (pb_unrecognized b)"
| "encodable (MStats s) \<longleftrightarrow>
     (\<forall>k v. ps_Data s k = Some v \<longrightarrow> ascii_text k \<and> ascii_text v) \<and> unknown_ok Stats_fields (ps_unrecognized s)"
| "encodable (MIterator i) \<longleftrightarrow>
     pred_option Domain_encodable (pi_Domain i) \<and> unknown_ok Iterator_fields (pi_unrecognized i)"

fun proto3 :: "message \<Rightarrow> message" where
  "proto3 (MInit i) = MInit (norm_Init i)"
| "proto3 (MEntity e) = MEntity (norm_Entity e)"
| "proto3 (MNothing n) = MNothing (norm_Nothing n)"
| "proto3 (MBatch b) = MBatch (norm_Batch b)"
| "proto3 (MStats s) = MStats (norm_Stats s)"
| "proto3 (MIterator i) = MIterator (norm_Iterator i)"

text \<open>A connection that works, with messages within its size limit.\<close>

locale grpc_laws =
  fixes net :: transport
  assumes wire: "encodable m \<Longrightarrow> nt_wire net m = proto3 m"
    and newStream: "nt_newStream net = None"
    and sendMsg: "nt_sendMsg net = None"
    and closeSend: "nt_closeSend net = None"

text \<open>A server whose database keeps the contract, and what a client can see of it.\<close>

definition srv_ok :: "('s \<Rightarrow> bool) \<Rightarrow> 's server \<Rightarrow> bool" where
  "srv_ok ok s = (case srv_db s of None \<Rightarrow> False | Some d \<Rightarrow> ok d)"

definition srv_ents :: "('s \<Rightarrow> kv list) \<Rightarrow> 's server \<Rightarrow> kv list" where
  "srv_ents ents s = (case srv_db s of None \<Rightarrow> [] | Some d \<Rightarrow> ents d)"

text \<open>
  The calls that come through unchanged: no empty value is written, a scan has no blank bound, and
  a batch has only valid calls.
\<close>

fun remote_bcall_ok :: "bcall \<Rightarrow> bool" where
  "remote_bcall_ok (BSet k v) \<longleftrightarrow> len k \<noteq> 0 \<and> len v \<noteq> 0"
| "remote_bcall_ok (BDelete k) \<longleftrightarrow> len k \<noteq> 0"

fun remote_call_ok :: "(byte list \<Rightarrow> byte list \<Rightarrow> bool) \<Rightarrow> call \<Rightarrow> bool" where
  "remote_call_ok fits (CSet sync k v) \<longleftrightarrow> v \<noteq> Some [] \<and> set_fits fits k v"
| "remote_call_ok fits (CScan r start end') \<longleftrightarrow> \<not> blank start \<and> \<not> blank end'"
| "remote_call_ok fits (CBatch sync cs) \<longleftrightarrow> list_all remote_bcall_ok cs \<and> list_all (op_fits fits) (accepted cs)"
| "remote_call_ok fits c \<longleftrightarrow> call_fits fits c"

text \<open>
  Answers up to what gRPC keeps: errors are status errors, nil and empty values are the same, and
  the error of an iterator after a scan is left out.
\<close>

definition some_error :: "error option \<Rightarrow> error option" where
  "some_error e = map_option (\<lambda>_. errKeyEmpty) e"

fun remote_view :: "answer \<Rightarrow> answer" where
  "remote_view (AGet v e) = AGet (Some (sl v)) (some_error e)"
| "remote_view (AHas b e) = AHas b (some_error e)"
| "remote_view (AErr e) = AErr (some_error e)"
| "remote_view (AScan xs e) = AScan (map (\<lambda>(k, v). (k, Some (sl v))) xs) None"
| "remote_view (ABatch es e) = ABatch (map some_error es) (some_error e)"

lemma some_error_simps [simp]:
  "some_error None = None" "some_error (Some e) = Some errKeyEmpty" "some_error x = None \<longleftrightarrow> x = None"
  "some_error x = Some e \<longleftrightarrow> x \<noteq> None \<and> e = errKeyEmpty"
  by (auto simp: some_error_def)

lemma by_path_methods [simp]:
  "by_path (DB_Methods srv env) ''/protodb.DB/init'' = Some (DB_Init_Handler srv env)"
  "by_path (DB_Methods srv env) ''/protodb.DB/get'' = Some (DB_Get_Handler srv env)"
  "by_path (DB_Methods srv env) ''/protodb.DB/has'' = Some (DB_Has_Handler srv env)"
  "by_path (DB_Methods srv env) ''/protodb.DB/set'' = Some (DB_Set_Handler srv env)"
  "by_path (DB_Methods srv env) ''/protodb.DB/setSync'' = Some (DB_SetSync_Handler srv env)"
  "by_path (DB_Methods srv env) ''/protodb.DB/delete'' = Some (DB_Delete_Handler srv env)"
  "by_path (DB_Methods srv env) ''/protodb.DB/deleteSync'' = Some (DB_DeleteSync_Handler srv env)"
  "by_path (DB_Methods srv env) ''/protodb.DB/stats'' = Some (DB_Stats_Handler srv env)"
  "by_path (DB_Methods srv env) ''/protodb.DB/batchWrite'' = Some (DB_BatchWrite_Handler srv env)"
  "by_path (DB_Methods srv env) ''/protodb.DB/batchWriteSync'' = Some (DB_BatchWriteSync_Handler srv env)"
  "by_path (DB_Streams srv env) ''/protodb.DB/iterator'' = Some (DB_Iterator_Handler srv env)"
  "by_path (DB_Streams srv env) ''/protodb.DB/reverseIterator'' = Some (DB_ReverseIterator_Handler srv env)"
  by (simp_all add: by_path_def DB_Methods_def DB_Streams_def DB_ServiceName_def)

lemma server_DBServer_simps [simp]:
  "ds_Init (server_DBServer env) = server_Init (ge_newDB env) (ge_now env)"
  "ds_Get (server_DBServer env) = server_Get (ge_db env)" "ds_Has (server_DBServer env) = server_Has (ge_db env)"
  "ds_Set (server_DBServer env) = server_Set (ge_db env)" "ds_SetSync (server_DBServer env) = server_SetSync (ge_db env)"
  "ds_Delete (server_DBServer env) = server_Delete (ge_db env)"
  "ds_DeleteSync (server_DBServer env) = server_DeleteSync (ge_db env)"
  "ds_Iterator (server_DBServer env) = server_Iterator (ge_db env)"
  "ds_ReverseIterator (server_DBServer env) = server_ReverseIterator (ge_db env)"
  "ds_Stats (server_DBServer env) s n = server_Stats (ge_db env) (ge_now env) s"
  "ds_BatchWrite (server_DBServer env) = server_BatchWrite (ge_db env)"
  "ds_BatchWriteSync (server_DBServer env) = server_BatchWriteSync (ge_db env)"
  by (simp_all add: server_DBServer_def)

lemma norm_new_simps [simp]:
  "norm_Entity new_Entity = new_Entity" "norm_Nothing nothing = nothing"
  "norm_Entity (new_Entity\<lparr>en_Key := k\<rparr>) = new_Entity\<lparr>en_Key := norm_bytes k\<rparr>"
  "norm_Entity (new_Entity\<lparr>en_Key := k, en_Value := v\<rparr>) = new_Entity\<lparr>en_Key := norm_bytes k, en_Value := norm_bytes v\<rparr>"
  "norm_Entity (new_Entity\<lparr>en_Value := v\<rparr>) = new_Entity\<lparr>en_Value := norm_bytes v\<rparr>"
  "norm_Entity (new_Entity\<lparr>en_Exists := b\<rparr>) = new_Entity\<lparr>en_Exists := b\<rparr>"
  "norm_Entity (new_Entity\<lparr>en_Start := k, en_End := v\<rparr>) = new_Entity\<lparr>en_Start := norm_bytes k, en_End := norm_bytes v\<rparr>"
  "ascii_text (en_Err (new_Entity\<lparr>en_Key := k\<rparr>))"
  by (simp_all add: norm_Entity_def new_Entity_def norm_Nothing_def nothing_def new_Nothing_def ascii_text_def)

lemma norm_bytes_idem [simp]: "norm_bytes (norm_bytes b) = norm_bytes b"
  by (simp add: norm_bytes_def)

lemma new_Entity_Err [simp]: "en_Err new_Entity = []" "ascii_text []" "en_unrecognized new_Entity = None"
  by (simp_all add: new_Entity_def ascii_text_def)

lemma encodable_simps [simp]:
  "Entity_encodable new_Entity"
  "Entity_encodable (e\<lparr>en_Key := k\<rparr>) = Entity_encodable e" "Entity_encodable (e\<lparr>en_Value := v\<rparr>) = Entity_encodable e"
  "Entity_encodable (e\<lparr>en_Exists := b\<rparr>) = Entity_encodable e" "Entity_encodable (e\<lparr>en_Start := k\<rparr>) = Entity_encodable e"
  "Entity_encodable (e\<lparr>en_End := k\<rparr>) = Entity_encodable e" "Entity_encodable (e\<lparr>en_CreatedAt := t'\<rparr>) = Entity_encodable e"
  "Entity_encodable (new_Entity\<lparr>en_Err := t\<rparr>) = ascii_text t"
  "Entity_encodable (new_Entity\<lparr>en_Key := k, en_Err := t\<rparr>) = ascii_text t"
  "no_unrecognized nothing = None" "no_unrecognized new_Nothing = None"
  by (simp_all add: Entity_encodable_def nothing_def new_Nothing_def)

text \<open>The operation that a call on a batch adds.\<close>

fun remote_op :: "bcall \<Rightarrow> Operation" where
  "remote_op (BSet k v) =
     new_Operation\<lparr>opn_Entity := Some (new_Entity\<lparr>en_Key := k, en_Value := v\<rparr>), opn_Type := Operation_SET\<rparr>"
| "remote_op (BDelete k) = new_Operation\<lparr>opn_Entity := Some (new_Entity\<lparr>en_Key := k\<rparr>), opn_Type := Operation_DELETE\<rparr>"

fun norm_bcall :: "bcall \<Rightarrow> bcall" where
  "norm_bcall (BSet k v) = BSet (norm_bytes k) (norm_bytes v)"
| "norm_bcall (BDelete k) = BDelete (norm_bytes k)"

lemma norm_remote_op: "norm_Operation (remote_op c) = remote_op (norm_bcall c)"
  by (cases c) (simp_all add: norm_Operation_def new_Operation_def)

lemma remote_batch_calls:
  "rb_ops b = Some ops \<Longrightarrow> batch_calls (batch_iface env) b cs =
     (b\<lparr>rb_ops := Some (ops @ map (\<lambda>c. Some (remote_op c)) cs)\<rparr>, map (\<lambda>c. None) cs)"
proof (induction cs arbitrary: b ops)
  case (Cons c cs)
  have "batch_call (batch_iface env) b c = (b\<lparr>rb_ops := Some (ops @ [Some (remote_op c)])\<rparr>, None)"
    using Cons.prems by (cases c) (simp_all add: batch_iface_def batch_Set_def batch_Delete_def)
  with Cons.IH [of "b\<lparr>rb_ops := Some (ops @ [Some (remote_op c)])\<rparr>"] show ?case by simp
qed simp

lemma reply_Inl: "reply x err = Inl y \<Longrightarrow> y = x"
  by (simp add: reply_def split: option.splits)

lemma server_batchWrite_nothing:
  assumes "server_batchWrite db s b sync = Ret (s', Inl n)"
  shows "n = nothing"
proof -
  obtain d where d: "srv_db s = Some d" using assms by (cases "srv_db s") (simp_all add: server_batchWrite_def with_db_def)
  obtain bat err where ops: "server_batch_ops (D_bat db) (D_NewBatch db d) (pb_Ops b) = Ret (bat, err)"
    using assms d by (cases "server_batch_ops (D_bat db) (D_NewBatch db d) (pb_Ops b)")
      (auto simp: server_batchWrite_def with_db_def bindR_def Let_def split: sum.splits)
  show ?thesis
    using assms by (auto simp: server_batchWrite_def with_db_def d ops Let_def split: prod.splits if_splits dest!: reply_Inl)
qed

lemma encodable_remote_ops: "encodable (MBatch \<lparr>pb_Ops = map (\<lambda>c. Some (remote_op c)) cs, pb_unrecognized = None\<rparr>)"
proof -
  have "Operation_encodable (remote_op c)" for c
    by (cases c) (simp_all add: new_Operation_def Operation_encodable_def)
  then show ?thesis by (simp add: list_all_iff)
qed

text \<open>What the server makes of the operations of a batch: all of them, or an error.\<close>

context kv_store
begin

lemma server_batch_ops_ok:
  assumes "bok b" and "bops b = Some ops" and "list_all (\<lambda>c. fst (spec_batch_call c) = None) cs"
  shows "\<exists>b'. server_batch_ops (D_bat db) b (map (\<lambda>c. Some (remote_op c)) cs) = Ret (b', None) \<and> bok b' \<and>
    bops b' = Some (ops @ accepted cs)"
  using assms
proof (induction cs arbitrary: b ops)
  case (Cons c cs)
  obtain b1 e where 1: "batch_call (D_bat db) b c = (b1, e)" by force
  have "e = None" "bok b1" "bops b1 = Some (ops @ [snd (spec_batch_call c)])"
    using 1 Cons.prems
    by (cases c; auto dest!: batch_set [OF Cons.prems(1)] batch_delete [OF Cons.prems(1)])+
  with Cons.IH [of b1] Cons.prems(3) 1 show ?case
    by (cases c) (simp_all add: new_Operation_def new_Entity_def Operation_SET_def Operation_DELETE_def accepted_def)
qed (simp add: accepted_def)

lemma server_batch_ops_error:
  assumes "bok b" and "bops b = Some ops" and "\<not> list_all (\<lambda>c. fst (spec_batch_call c) = None) cs"
  shows "\<exists>b' e. server_batch_ops (D_bat db) b (map (\<lambda>c. Some (remote_op c)) cs) = Ret (b', Some e)"
  using assms
proof (induction cs arbitrary: b ops)
  case (Cons c cs)
  obtain b1 e where 1: "batch_call (D_bat db) b c = (b1, e)" by force
  have "e = fst (spec_batch_call c)" "bok b1" "e = None \<Longrightarrow> bops b1 = Some (ops @ [snd (spec_batch_call c)])"
    using 1 Cons.prems
    by (cases c; auto dest!: batch_set [OF Cons.prems(1)] batch_delete [OF Cons.prems(1)])+
  with Cons.IH [of b1] Cons.prems(3) 1 show ?case
    by (cases c) (auto simp: new_Operation_def new_Entity_def Operation_SET_def Operation_DELETE_def split: option.splits)
qed simp

lemma server_batchWrite_ok:
  assumes "srv_db s = Some d" and "ok d" and "list_all (\<lambda>c. fst (spec_batch_call c) = None) cs"
    and "list_all (op_fits fits) (accepted cs)"
  shows "\<exists>d'. server_batchWrite db s \<lparr>pb_Ops = map (\<lambda>c. Some (remote_op c)) cs, pb_unrecognized = None\<rparr> sync =
    Ret (s\<lparr>srv_db := Some d'\<rparr>, Inl nothing) \<and> ok d' \<and> ents d' = kv_apply_all (accepted cs) (ents d)"
proof -
  obtain b where b: "server_batch_ops (D_bat db) (D_NewBatch db d) (map (\<lambda>c. Some (remote_op c)) cs) = Ret (b, None)"
    "bok b" "bops b = Some (accepted cs)"
    using server_batch_ops_ok [of "D_NewBatch db d" "[]" cs] new_batch [OF assms(2)] assms(3) by auto
  obtain b' d' e where w: "(if sync then B_WriteSync (D_bat db) b d else B_Write (D_bat db) b d) = (b', d', e)"
    by (metis surj_pair)
  then have "e = None" "ok d'" "ents d' = kv_apply_all (accepted cs) (ents d)"
    using batch_write [OF b(2) assms(2)] batch_write_sync [OF b(2) assms(2)] b(3) assms(4) by (cases sync; auto)+
  with w b(1) assms(1) show ?thesis
    by (cases sync) (auto simp: server_batchWrite_def with_db_def reply_def split_beta)
qed

lemma server_batchWrite_error:
  assumes "srv_db s = Some d" and "ok d" and "\<not> list_all (\<lambda>c. fst (spec_batch_call c) = None) cs"
  shows "\<exists>e. server_batchWrite db s \<lparr>pb_Ops = map (\<lambda>c. Some (remote_op c)) cs, pb_unrecognized = None\<rparr> sync = Ret (s, Inr e)"
  using server_batch_ops_error [of "D_NewBatch db d" "[]" cs] new_batch [OF assms(2)] assms(1,3)
  by (auto simp: server_batchWrite_def with_db_def reply_def split_beta)

end

text \<open>What the server sends for a pair, and what arrives.\<close>

definition pair_msg :: "slice \<times> slice \<Rightarrow> kv \<Rightarrow> PIterator" where
  "pair_msg dm x =
     \<lparr>pi_Domain = Some \<lparr>dm_Start = fst dm, dm_End = snd dm, dm_unrecognized = None\<rparr>, pi_Valid = True,
      pi_Key = Some (fst x), pi_Value = Some (snd x), pi_unrecognized = None\<rparr>"

lemma encodable_pair [simp]: "pred_option Domain_encodable (pi_Domain (pair_msg dm x))" "pi_unrecognized (pair_msg dm x) = None"
  by (simp_all add: pair_msg_def Domain_encodable_def)

context iterator_contract
begin

lemma next_message_end: "iok i \<Longrightarrow> rest i = [] \<Longrightarrow> \<exists>i'. next_message it i = Ret (None, i') \<and> iok i'"
  using it_valid [of i] by (auto simp: next_message_def it_moved_def)

lemma next_message_pair:
  assumes "iok i" and "rest i = x # xs"
  shows "\<exists>i'. next_message it i = Ret (Some (pair_msg (I_Domain it i) x), i') \<and> it_moved it iok rest i (rest i) i'"
proof -
  obtain k v where x: "x = (k, v)" by (cases x)
  obtain i1 where 1: "I_Valid it i = Ret (True, i1)" "it_moved it iok rest i (rest i) i1"
    using it_valid [OF assms(1)] assms(2) by auto
  then obtain i2 where 2: "I_Key it i1 = Ret (Some k, i2)" "it_moved it iok rest i (rest i) i2"
    using it_key [of i1 k v xs] assms(2) x by (auto simp: it_moved_def)
  then obtain i3 where 3: "I_Value it i2 = Ret (Some v, i3)" "it_moved it iok rest i (rest i) i3"
    using it_value [of i2 k v xs] assms(2) x by (auto simp: it_moved_def)
  then obtain i4 where 4: "I_Valid it i3 = Ret (True, i4)" "it_moved it iok rest i (rest i) i4"
    using it_valid [of i3] assms(2) by (auto simp: it_moved_def)
  have "I_Domain it i1 = I_Domain it i" using 1(2) by (simp add: it_moved_def)
  with 1(1) 2(1) 3(1) 4 x show ?thesis by (simp add: next_message_def pair_msg_def)
qed

lemma handleIterator_rest:
  assumes "iok i"
  shows "\<exists>i'. handleIterator it stream_Send i acc =
    Ret (i', acc @ map (\<lambda>x. MIterator (pair_msg (I_Domain it i) x)) (rest i), None) \<and> iok i'"
  using assms
proof (induction "rest i" arbitrary: i acc)
  case Nil
  then show ?case using next_message_end [of i] by (subst handleIterator_next) auto
next
  case (Cons x xs)
  note r = Cons.hyps(2) [symmetric]
  obtain i1 where 1: "next_message it i = Ret (Some (pair_msg (I_Domain it i) x), i1)" "it_moved it iok rest i (rest i) i1"
    using next_message_pair [OF Cons.prems r] by blast
  then obtain i2 where 2: "I_Next it i1 = Ret i2" "it_moved it iok rest i xs i2"
    using it_next [of i1 x xs] r by (auto simp: it_moved_def)
  have step: "handleIterator it stream_Send i acc =
      handleIterator it stream_Send i2 (acc @ [MIterator (pair_msg (I_Domain it i) x)])"
    using 1(1) 2(1) by (subst handleIterator_next) (simp add: stream_Send_def)
  from Cons.hyps(1) [of i2 "acc @ [MIterator (pair_msg (I_Domain it i) x)]"] 2(2) r step
  show ?case by (auto simp: it_moved_def)
qed

end

text \<open>The loop over a stream of pairs, in either direction, from the call of \<open>Next\<close> that precedes it.\<close>

definition remote_at :: "transport \<Rightarrow> bool \<Rightarrow> stream \<Rightarrow> PIterator option \<Rightarrow> remote_iterator" where
  "remote_at net r st cur =
     (if r then Backward (reverseIterator_Next net \<lparr>rit_dric = st, rit_cur = cur, rit_err = None\<rparr>)
      else Forward (iterator_Next net \<lparr>itr_dic = st, itr_cur = cur, itr_err = None\<rparr>))"

lemma remote_loop:
  "\<exists>i. iter_loop (remote_iterator_iface net)
      (remote_at net r \<lparr>st_pending = map (\<lambda>x. MIterator (norm_Iterator (pair_msg dm x))) xs, st_status = st\<rparr> cur) acc =
    Ret (acc @ map (\<lambda>(k, v). (norm_bytes (Some k), norm_bytes (Some v))) xs, i) \<and>
    I_Error (remote_iterator_iface net) i = Some (case st of None \<Rightarrow> io_EOF | Some e \<Rightarrow> e) \<and>
    I_Domain (remote_iterator_iface net) i = (None, None)"
proof (induction xs arbitrary: cur acc)
  case Nil
  show ?case
    by (cases r; subst iter_loop.simps)
       (simp_all add: remote_at_def remote_iterator_iface_def iterator_Next_def reverseIterator_Next_def stream_Recv_def
         iterator_Valid_def reverseIterator_Valid_def iterator_Error_def reverseIterator_Error_def iterator_Domain_def
         reverseIterator_Domain_def)
next
  case (Cons x xs)
  let ?m = "norm_Iterator (pair_msg dm x)"
  let ?st = "\<lambda>xs. \<lparr>st_pending = map (\<lambda>x. MIterator (norm_Iterator (pair_msg dm x))) xs, st_status = st\<rparr>"
  let ?here = "if r then Backward \<lparr>rit_dric = ?st xs, rit_cur = Some ?m, rit_err = None\<rparr>
    else Forward \<lparr>itr_dic = ?st xs, itr_cur = Some ?m, itr_err = None\<rparr>"
  have at: "remote_at net r (?st (x # xs)) cur = ?here"
    by (simp add: remote_at_def iterator_Next_def reverseIterator_Next_def stream_Recv_def)
  have m: "pi_Valid ?m" "pi_Key ?m = norm_bytes (Some (fst x))" "pi_Value ?m = norm_bytes (Some (snd x))"
    by (simp_all add: norm_Iterator_def pair_msg_def)
  have "I_Valid (remote_iterator_iface net) ?here = Ret (True, ?here)"
    "I_Key (remote_iterator_iface net) ?here = Ret (norm_bytes (Some (fst x)), ?here)"
    "I_Value (remote_iterator_iface net) ?here = Ret (norm_bytes (Some (snd x)), ?here)"
    using m by (simp_all add: remote_iterator_iface_def iterator_Valid_def reverseIterator_Valid_def iterator_Key_def
      reverseIterator_Key_def iterator_Value_def reverseIterator_Value_def iterator_assertIsValid_def
      reverseIterator_assertIsValid_def)
  moreover have "I_Next (remote_iterator_iface net) ?here = Ret (remote_at net r (?st xs) (Some ?m))"
    by (simp add: remote_iterator_iface_def remote_at_def)
  ultimately have "iter_loop (remote_iterator_iface net) ?here acc =
      iter_loop (remote_iterator_iface net) (remote_at net r (?st xs) (Some ?m))
        (acc @ [(norm_bytes (Some (fst x)), norm_bytes (Some (snd x)))])"
    by (subst iter_loop.simps) (simp only: bindR_simps prod.case not_True_eq_False if_False)
  with Cons.IH [of "Some ?m" "acc @ [(norm_bytes (Some (fst x)), norm_bytes (Some (snd x)))]"]
  show ?case unfolding at by (simp add: case_prod_unfold)
qed

locale remote_store = grpc_laws "ge_net env" + kv_store "ge_db env" iok rest ok ents bok bops fits
  for env :: "('s, 'i, 'b) grpc_env" and iok :: "'i \<Rightarrow> bool" and rest :: "'i \<Rightarrow> kv list" and ok :: "'s \<Rightarrow> bool"
    and ents :: "'s \<Rightarrow> kv list" and bok :: "'b \<Rightarrow> bool" and bops :: "'b \<Rightarrow> kvop list option"
    and fits :: "byte list \<Rightarrow> byte list \<Rightarrow> bool" +
  assumes no_interceptor: "ge_interceptor env = None"
begin

lemma not_intercepted [simp]: "intercepted env fullMethod handler s m = handler s m"
  by (simp add: intercepted_def no_interceptor)

lemma Get_Has_over_wire:
  assumes "srv_db s = Some d"
  shows "snd (dBClient_Get env s (new_Entity\<lparr>en_Key := k\<rparr>)) =
      (case D_Get (ge_db env) d (norm_bytes k) of
         (v, None) \<Rightarrow> Inl (new_Entity\<lparr>en_Value := norm_bytes v\<rparr>) | (v, Some e) \<Rightarrow> Inr (nt_status (ge_net env) e))"
    and "snd (dBClient_Has env s (new_Entity\<lparr>en_Key := k\<rparr>)) =
      (case D_Has (ge_db env) d (norm_bytes k) of
         (b, None) \<Rightarrow> Inl (new_Entity\<lparr>en_Exists := b\<rparr>) | (b, Some e) \<Rightarrow> Inr (nt_status (ge_net env) e))"
  using assms
  by (auto simp: dBClient_Get_def DB_Get_Handler_def server_Get_def dBClient_Has_def DB_Has_Handler_def server_Has_def
      Invoke_def Invoke_on_def with_db_def answer_with_def wire reply_def split: prod.splits option.splits)

text \<open>A call that writes, over the wire.\<close>

lemma Set_over_wire:
  assumes "srv_db s = Some d"
  shows "D_Set (ge_db env) d (norm_bytes k) (norm_bytes v) = (d', e) \<Longrightarrow>
      dBClient_Set env s (new_Entity\<lparr>en_Key := k, en_Value := v\<rparr>) =
        (s\<lparr>srv_db := Some d'\<rparr>, case e of None \<Rightarrow> Inl nothing | Some e \<Rightarrow> Inr (nt_status (ge_net env) e))"
    and "D_SetSync (ge_db env) d (norm_bytes k) (norm_bytes v) = (d', e) \<Longrightarrow>
      dBClient_SetSync env s (new_Entity\<lparr>en_Key := k, en_Value := v\<rparr>) =
        (s\<lparr>srv_db := Some d'\<rparr>, case e of None \<Rightarrow> Inl nothing | Some e \<Rightarrow> Inr (nt_status (ge_net env) e))"
  using assms
  by (auto simp: dBClient_Set_def DB_Set_Handler_def server_Set_def dBClient_SetSync_def DB_SetSync_Handler_def
      server_SetSync_def Invoke_def Invoke_on_def with_db_def answer_with_def wire reply_def split: prod.splits option.splits)

lemma Delete_over_wire:
  assumes "srv_db s = Some d"
  shows "D_Delete (ge_db env) d (norm_bytes k) = (d', e) \<Longrightarrow>
      dBClient_Delete env s (new_Entity\<lparr>en_Key := k\<rparr>) =
        (s\<lparr>srv_db := Some d'\<rparr>, case e of None \<Rightarrow> Inl nothing | Some e \<Rightarrow> Inr (nt_status (ge_net env) e))"
    and "D_DeleteSync (ge_db env) d (norm_bytes k) = (d', e) \<Longrightarrow>
      dBClient_DeleteSync env s (new_Entity\<lparr>en_Key := k\<rparr>) =
        (s\<lparr>srv_db := Some d'\<rparr>, case e of None \<Rightarrow> Inl nothing | Some e \<Rightarrow> Inr (nt_status (ge_net env) e))"
  using assms
  by (auto simp: dBClient_Delete_def DB_Delete_Handler_def server_Delete_def dBClient_DeleteSync_def
      DB_DeleteSync_Handler_def server_DeleteSync_def Invoke_def Invoke_on_def with_db_def answer_with_def wire reply_def
      split: prod.splits option.splits)

lemma set_answer:
  assumes "srv_ok ok (rd_dc rd)" and "set_fits fits (norm_bytes k) (norm_bytes v)"
    and "(if sync then RemoteDB_SetSync env rd k v else RemoteDB_Set env rd k v) = (rd', e)"
  shows "some_error e = some_error (set_error (norm_bytes k) (norm_bytes v)) \<and> srv_ok ok (rd_dc rd') \<and>
    srv_ents ents (rd_dc rd') = (if e = None then kv_set (sl k) (sl v) (srv_ents ents (rd_dc rd))
      else srv_ents ents (rd_dc rd))"
proof -
  obtain d where d: "srv_db (rd_dc rd) = Some d" "ok d" using assms(1) by (auto simp: srv_ok_def split: option.splits)
  obtain d' e' where c: "(if sync then D_SetSync (ge_db env) d (norm_bytes k) (norm_bytes v)
      else D_Set (ge_db env) d (norm_bytes k) (norm_bytes v)) = (d', e')" by force
  have "e' = set_error (norm_bytes k) (norm_bytes v) \<and> ok d' \<and>
      ents d' = (if e' = None then kv_set (sl k) (sl v) (ents d) else ents d)"
    using set [OF d(2) assms(2)] set_sync [OF d(2) assms(2)] c by (cases sync) auto
  with c d assms(3) Set_over_wire [OF d(1), of k v d' e'] show ?thesis
    by (cases sync)
       (auto simp: RemoteDB_SetSync_def RemoteDB_Set_def wrapped_def srv_ok_def srv_ents_def split: option.splits)
qed

lemma delete_answer:
  assumes "srv_ok ok (rd_dc rd)" and "key_fits fits k"
    and "(if sync then RemoteDB_DeleteSync env rd k else RemoteDB_Delete env rd k) = (rd', e)"
  shows "some_error e = some_error (key_error k) \<and> srv_ok ok (rd_dc rd') \<and>
    srv_ents ents (rd_dc rd') = (if e = None then kv_del (sl k) (srv_ents ents (rd_dc rd)) else srv_ents ents (rd_dc rd))"
proof -
  obtain d where d: "srv_db (rd_dc rd) = Some d" "ok d" using assms(1) by (auto simp: srv_ok_def split: option.splits)
  obtain d' e' where c: "(if sync then D_DeleteSync (ge_db env) d (norm_bytes k)
      else D_Delete (ge_db env) d (norm_bytes k)) = (d', e')" by force
  have f: "key_fits fits (norm_bytes k)" "key_error (norm_bytes k) = key_error k"
    using assms(2) by (simp_all add: key_fits_def key_error_def)
  have "e' = key_error k \<and> ok d' \<and> ents d' = (if e' = None then kv_del (sl k) (ents d) else ents d)"
    using delete [OF d(2) f(1)] delete_sync [OF d(2) f(1)] c f(2) by (cases sync) auto
  with c d assms(3) Delete_over_wire [OF d(1), of k d' e'] show ?thesis
    by (cases sync)
       (auto simp: RemoteDB_DeleteSync_def RemoteDB_Delete_def wrapped_def srv_ok_def srv_ents_def split: option.splits)
qed

lemma get_answer:
  assumes "srv_ok ok (rd_dc rd)"
  shows "\<exists>v e. RemoteDB_Get env rd k = (v, e) \<and> some_error e = some_error (key_error k) \<and>
      sl v = (if e = None then sl (map_of (srv_ents ents (rd_dc rd)) (sl k)) else [])"
    and "\<exists>b e. RemoteDB_Has env rd k = (b, e) \<and> some_error e = some_error (key_error k) \<and>
      b = (e = None \<and> map_of (srv_ents ents (rd_dc rd)) (sl k) \<noteq> None)"
proof -
  obtain d where d: "srv_db (rd_dc rd) = Some d" "ok d" using assms(1) by (auto simp: srv_ok_def split: option.splits)
  show "\<exists>v e. RemoteDB_Get env rd k = (v, e) \<and> some_error e = some_error (key_error k) \<and>
      sl v = (if e = None then sl (map_of (srv_ents ents (rd_dc rd)) (sl k)) else [])"
    using Get_Has_over_wire(1) [OF d(1), of k] get [OF d(2), of "norm_bytes k"] d(1)
    by (auto simp: RemoteDB_Get_def key_error_def srv_ents_def split: if_splits)
  show "\<exists>b e. RemoteDB_Has env rd k = (b, e) \<and> some_error e = some_error (key_error k) \<and>
      b = (e = None \<and> map_of (srv_ents ents (rd_dc rd)) (sl k) \<noteq> None)"
    using Get_Has_over_wire(2) [OF d(1), of k] has [OF d(2), of "norm_bytes k"] d(1)
    by (auto simp: RemoteDB_Has_def key_error_def srv_ents_def split: if_splits)
qed

lemma open_scan:
  assumes "srv_db (rd_dc rd) = Some d" and "ok d" and "\<not> blank start" and "\<not> blank end'"
  shows "(if r then RemoteDB_ReverseIterator env rd start end' else RemoteDB_Iterator env rd start end') =
    Ret (Some (remote_at (ge_net env) r
      \<lparr>st_pending = map (\<lambda>x. MIterator (norm_Iterator (pair_msg (start, end') x))) (kv_scan r start end' (ents d)),
       st_status = None\<rparr> None), None)"
proof -
  have n: "norm_bytes start = start" "norm_bytes end' = end'" "domain_error start end' = None"
    using assms(3,4) by (auto simp: blank_def norm_bytes_def domain_error_def)
  obtain i where i: "(if r then D_ReverseIterator (ge_db env) d start end' else D_Iterator (ge_db env) d start end') =
      Ret (Some i, None)" "iok i" "rest i = kv_scan r start end' (ents d)" "I_Domain (D_itr (ge_db env)) i = (start, end')"
    using iterator [OF assms(2) n(3)] reverse [OF assms(2) n(3)] by (cases r) auto
  obtain i' where i': "handleIterator (D_itr (ge_db env)) stream_Send i [] =
      Ret (i', map (\<lambda>x. MIterator (pair_msg (start, end') x)) (kv_scan r start end' (ents d)), None)"
    using handleIterator_rest [OF i(2), of "[]"] i(3,4) by auto
  have "(if r then DB_ReverseIterator_Handler (server_DBServer env) env else DB_Iterator_Handler (server_DBServer env) env) (rd_dc rd)
      (MEntity (new_Entity\<lparr>en_Start := start, en_End := end'\<rparr>)) =
      Ret (map (\<lambda>x. MIterator (pair_msg (start, end') x)) (kv_scan r start end' (ents d)), None)"
    using i(1) i' assms(1)
    by (cases r) (simp_all add: DB_ReverseIterator_Handler_def DB_Iterator_Handler_def server_ReverseIterator_def
        server_Iterator_def with_db_def server_serveIterator_def split_beta)
  then show ?thesis
    by (cases r)
       (simp_all add: RemoteDB_ReverseIterator_def RemoteDB_Iterator_def dBClient_ReverseIterator_def dBClient_Iterator_def
         open_stream_def serve_stream_def newStream sendMsg closeSend wire n comp_def remote_at_def makeIterator_def makeReverseIterator_def)
qed

lemma scan_answer:
  assumes "srv_db (rd_dc rd) = Some d" and "ok d" and "\<not> blank start" and "\<not> blank end'"
  shows "\<exists>i i'. (if r then RemoteDB_ReverseIterator env rd start end' else RemoteDB_Iterator env rd start end') =
      Ret (Some i, None) \<and>
    iter_loop (remote_iterator_iface (ge_net env)) i [] =
      Ret (map (\<lambda>(k, v). (Some k, norm_bytes (Some v))) (kv_scan r start end' (ents d)), i') \<and>
    I_Error (remote_iterator_iface (ge_net env)) i' = Some io_EOF \<and>
    I_Domain (remote_iterator_iface (ge_net env)) i' = (None, None)"
proof -
  have "\<forall>x\<in>set (kv_scan r start end' (ents d)). fst x \<noteq> []"
    using ents_wf [OF assms(2)] by (auto simp: set_kv_scan kv_wf_def)
  then have "map (\<lambda>(k, v). (norm_bytes (Some k), norm_bytes (Some v))) (kv_scan r start end' (ents d)) =
      map (\<lambda>(k, v). (Some k, norm_bytes (Some v))) (kv_scan r start end' (ents d))"
    by (auto simp: norm_bytes_def)
  with open_scan [OF assms] remote_loop [of "ge_net env" r "(start, end')" "kv_scan r start end' (ents d)" None None "[]"]
  show ?thesis by auto
qed

lemma write_over_wire:
  "(if sync then dBClient_BatchWriteSync env s \<lparr>pb_Ops = map (\<lambda>c. Some (remote_op c)) cs, pb_unrecognized = None\<rparr>
     else dBClient_BatchWrite env s \<lparr>pb_Ops = map (\<lambda>c. Some (remote_op c)) cs, pb_unrecognized = None\<rparr>) =
   (case server_batchWrite (ge_db env) s
           \<lparr>pb_Ops = map (\<lambda>c. Some (remote_op c)) (map norm_bcall cs), pb_unrecognized = None\<rparr> sync of
      Some (Inr (s', Inl n)) \<Rightarrow> (s', Inl (norm_Nothing n))
    | Some (Inr (s', Inr e)) \<Rightarrow> (s', Inr (nt_status (ge_net env) e))
    | _ \<Rightarrow> (\<lparr>srv_db = None\<rparr>, Inr (nt_lost (ge_net env))))"
proof -
  have wired: "nt_wire (ge_net env) (MBatch \<lparr>pb_Ops = map (\<lambda>c. Some (remote_op c)) cs, pb_unrecognized = None\<rparr>) =
      MBatch \<lparr>pb_Ops = map (\<lambda>c. Some (remote_op c)) (map norm_bcall cs), pb_unrecognized = None\<rparr>"
    using wire [OF encodable_remote_ops] by (simp add: norm_Batch_def norm_remote_op comp_def)
  show ?thesis
    by (cases sync)
       (auto simp: dBClient_BatchWriteSync_def dBClient_BatchWrite_def Invoke_def Invoke_on_def wired DB_BatchWriteSync_Handler_def
         DB_BatchWrite_Handler_def server_BatchWriteSync_def server_BatchWrite_def answer_with_def wire bindR_def
         split: option.splits sum.splits prod.splits dest: server_batchWrite_nothing)
qed

lemma norm_bcall_ok: "remote_bcall_ok c \<longleftrightarrow> fst (spec_batch_call (norm_bcall c)) = None"
  by (cases c) (auto simp: set_error_def key_error_def norm_bytes_def)

lemma norm_bcall_id:
  assumes "remote_bcall_ok c"
  shows "fst (spec_batch_call c) = None" and "norm_bcall c = c"
proof -
  have "len v \<noteq> 0 \<Longrightarrow> v \<noteq> None" for v by (cases v) simp_all
  with assms show "fst (spec_batch_call c) = None" "norm_bcall c = c"
    by (cases c; force simp: set_error_def key_error_def norm_bytes_def)+
qed

lemma batch_answer:
  assumes "srv_db (rd_dc rd) = Some d" and "ok d" and "batch_calls (batch_iface env) (RemoteDB_NewBatch rd) cs = (b, es)"
    and "(if sync then batch_WriteSync env b rd else batch_Write env b rd) = (b', rd', e)"
  shows "es = map (\<lambda>c. None) cs \<and>
    (if list_all remote_bcall_ok cs
     then list_all (op_fits fits) (accepted cs) \<longrightarrow> e = None \<and> rb_ops b' = None \<and> srv_ok ok (rd_dc rd') \<and>
       srv_ents ents (rd_dc rd') = kv_apply_all (accepted cs) (ents d)
     else e \<noteq> None \<and> b' = b \<and> rd' = rd \<and> rb_ops b = Some (map (\<lambda>c. Some (remote_op c)) cs))"
proof -
  have b: "b = \<lparr>rb_ops = Some (map (\<lambda>c. Some (remote_op c)) cs)\<rparr>" "es = map (\<lambda>c. None) cs"
    using assms(3) remote_batch_calls [of "RemoteDB_NewBatch rd" "[]" env cs]
    by (simp_all add: RemoteDB_NewBatch_def newBatch_def)
  let ?rpc = "if sync then dBClient_BatchWriteSync env (rd_dc rd) \<lparr>pb_Ops = map (\<lambda>c. Some (remote_op c)) cs, pb_unrecognized = None\<rparr>
      else dBClient_BatchWrite env (rd_dc rd) \<lparr>pb_Ops = map (\<lambda>c. Some (remote_op c)) cs, pb_unrecognized = None\<rparr>"
  have done': "e = None \<and> rb_ops b' = None \<and> rd_dc rd' = s'" if "?rpc = (s', Inl n)" for s' n
    using that b assms(4) by (cases sync) (auto simp: batch_WriteSync_def batch_Write_def batch_Close_def)
  have failed: "e \<noteq> None \<and> b' = b \<and> rd' = rd\<lparr>rd_dc := s'\<rparr>" if "?rpc = (s', Inr err)" for s' err
    using that b assms(4) by (cases sync) (auto simp: batch_WriteSync_def batch_Write_def)
  show ?thesis
  proof (cases "list_all remote_bcall_ok cs")
    case True
    then have cs: "map norm_bcall cs = cs" "list_all (\<lambda>c. fst (spec_batch_call c) = None) cs"
      using norm_bcall_id by (auto simp: list_all_iff intro: map_idI)
    have "e = None \<and> rb_ops b' = None \<and> srv_ok ok (rd_dc rd') \<and>
        srv_ents ents (rd_dc rd') = kv_apply_all (accepted cs) (ents d)" if fits: "list_all (op_fits fits) (accepted cs)"
    proof -
      obtain d' where d': "server_batchWrite (ge_db env) (rd_dc rd)
          \<lparr>pb_Ops = map (\<lambda>c. Some (remote_op c)) cs, pb_unrecognized = None\<rparr> sync =
          Ret (rd_dc rd\<lparr>srv_db := Some d'\<rparr>, Inl nothing)" "ok d'" "ents d' = kv_apply_all (accepted cs) (ents d)"
        using server_batchWrite_ok [OF assms(1,2) cs(2) fits] by blast
      have "?rpc = (rd_dc rd\<lparr>srv_db := Some d'\<rparr>, Inl nothing)"
        unfolding write_over_wire cs(1) d'(1) by simp
      from done' [OF this] d' show ?thesis by (simp add: srv_ok_def srv_ents_def)
    qed
    then show ?thesis using True b by simp
  next
    case False
    then have "\<not> list_all (\<lambda>c. fst (spec_batch_call c) = None) (map norm_bcall cs)"
      using norm_bcall_ok by (auto simp: list_all_iff)
    from server_batchWrite_error [OF assms(1,2) this] obtain err where err: "server_batchWrite (ge_db env) (rd_dc rd)
        \<lparr>pb_Ops = map (\<lambda>c. Some (remote_op c)) (map norm_bcall cs), pb_unrecognized = None\<rparr> sync = Ret (rd_dc rd, Inr err)"
      by blast
    have "?rpc = (rd_dc rd, Inr (nt_status (ge_net env) err))" unfolding write_over_wire err by simp
    from failed [OF this] False b show ?thesis by simp
  qed
qed

lemma one_call_answer:
  assumes "srv_ok ok (rd_dc rd)" and "remote_call_ok fits c"
  shows "\<exists>rd' a. db_call (RemoteDB_iface env) rd c = Ret (rd', a) \<and>
    remote_view a = remote_view (snd (spec_call (srv_ents ents (rd_dc rd)) c)) \<and> srv_ok ok (rd_dc rd') \<and>
    srv_ents ents (rd_dc rd') = fst (spec_call (srv_ents ents (rd_dc rd)) c)"
proof -
  obtain d where d: "srv_db (rd_dc rd) = Some d" "ok d" using assms(1) by (auto simp: srv_ok_def split: option.splits)
  have ents: "srv_ents ents (rd_dc rd) = ents d" using d(1) by (simp add: srv_ents_def)
  show ?thesis
  proof (cases c)
    case (CGet k)
    then show ?thesis using get_answer(1) [OF assms(1), of k] assms(1)
      by (auto simp: RemoteDB_iface_def key_error_def split: if_splits)
  next
    case (CHas k)
    then show ?thesis using get_answer(2) [OF assms(1), of k] assms(1)
      by (auto simp: RemoteDB_iface_def key_error_def split: if_splits)
  next
    case (CSet sync k v)
    obtain rd' e where 1: "(if sync then RemoteDB_SetSync env rd k v else RemoteDB_Set env rd k v) = (rd', e)" by force
    have "set_error (norm_bytes k) (norm_bytes v) = set_error k v" "set_fits fits (norm_bytes k) (norm_bytes v)"
      using assms(2) CSet by (auto simp: set_error_def set_fits_def norm_bytes_def)
    with set_answer [OF assms(1) _ 1] 1 CSet show ?thesis
      by (cases sync) (auto simp: RemoteDB_iface_def some_error_def)
  next
    case (CDelete sync k)
    obtain rd' e where 1: "(if sync then RemoteDB_DeleteSync env rd k else RemoteDB_Delete env rd k) = (rd', e)" by force
    with delete_answer [OF assms(1) _ 1] assms(2) CDelete show ?thesis
      by (cases sync) (auto simp: RemoteDB_iface_def some_error_def)
  next
    case (CScan r start end')
    then show ?thesis
      using scan_answer [OF d, of start end' r] assms ents
      by (auto simp: RemoteDB_iface_def domain_error_def case_prod_unfold comp_def)
  next
    case (CBatch sync cs)
    obtain b es where 1: "batch_calls (batch_iface env) (RemoteDB_NewBatch rd) cs = (b, es)" by force
    obtain b' rd' e where 2: "(if sync then batch_WriteSync env b rd else batch_Write env b rd) = (b', rd', e)"
      by (metis surj_pair)
    have "map (fst \<circ> spec_batch_call) cs = map (\<lambda>c. None) cs"
      using assms(2) CBatch norm_bcall_id(1) by (auto simp: list_all_iff)
    with batch_answer [OF d 1 2] 1 2 CBatch assms(2) ents show ?thesis
      by (cases sync) (auto simp: RemoteDB_iface_def batch_iface_def)
  qed
qed

end

sublocale remote_store \<subseteq> remote: kv_calls "RemoteDB_iface env" "\<lambda>rd. srv_ok ok (rd_dc rd)"
  "\<lambda>rd. srv_ents ents (rd_dc rd)" "remote_call_ok fits" remote_view
  by unfold_locales (rule one_call_answer)

context remote_store
begin

lemma RemoteDB_calls:
  "kv_calls (RemoteDB_iface env) (\<lambda>rd. srv_ok ok (rd_dc rd)) (\<lambda>rd. srv_ents ents (rd_dc rd)) (remote_call_ok fits) remote_view"
  by (rule remote.kv_calls_axioms)

end

context grpc_laws
begin

lemma empty_is_nil:
  assumes "ge_net env = net"
  shows "RemoteDB_Set env rd k v = RemoteDB_Set env rd (norm_bytes k) (norm_bytes v)"
    and "RemoteDB_SetSync env rd k v = RemoteDB_SetSync env rd (norm_bytes k) (norm_bytes v)"
    and "RemoteDB_Iterator env rd start end' = RemoteDB_Iterator env rd (norm_bytes start) (norm_bytes end')"
    and "RemoteDB_ReverseIterator env rd start end' = RemoteDB_ReverseIterator env rd (norm_bytes start) (norm_bytes end')"
  using assms
  by (simp_all add: RemoteDB_Set_def RemoteDB_SetSync_def RemoteDB_Iterator_def RemoteDB_ReverseIterator_def
      dBClient_Set_def dBClient_SetSync_def dBClient_Iterator_def dBClient_ReverseIterator_def Invoke_def Invoke_on_def open_stream_def
      serve_stream_def newStream sendMsg closeSend wire)

end

context remote_store
begin

lemma init_answer:
  assumes "ge_newDB env (ri_Name in') (ri_Type in') (ri_Dir in') = (db, err)"
    and "ascii_text (ri_Name in')" and "ascii_text (ri_Type in')" and "ascii_text (ri_Dir in')"
  shows "RemoteDB_InitRemote env rd in' =
    (rd\<lparr>rd_dc := (rd_dc rd)\<lparr>srv_db := db\<rparr>\<rparr>, map_option (nt_status (ge_net env)) err)"
  using assms
  by (cases err) (simp_all add: RemoteDB_InitRemote_def dBClient_Init_def Invoke_def Invoke_on_def DB_Init_Handler_def server_Init_def
      answer_with_def reply_def wire norm_Init_def)

end

section \<open>A connection to an in-memory database\<close>

text \<open>The laws can be met: messages are encoded as documented, and the server keeps a \<open>MemDB\<close>.\<close>

definition plain_net :: transport where
  "plain_net =
     \<lparr>nt_wire = proto3, nt_status = Wrap ''rpc error'', nt_newStream = None, nt_sendMsg = None, nt_closeSend = None,
      nt_lost = ErrorString ''unavailable'',
      nt_unimplemented = ErrorString ''unimplemented'', nt_decode = ErrorString ''internal''\<rparr>"

definition mem_env :: "(item list MemDB, memDBIterator, memDBBatch) grpc_env" where
  "mem_env =
     \<lparr>ge_net = plain_net, ge_interceptor = None, ge_db = MemDB_iface list_btree,
      ge_newDB = (\<lambda>name backend dir. if backend = ''memdb'' then (Some (NewMemDB list_btree), None)
        else (None, Some (ErrorString ''unknown db_backend''))),
      ge_now = 0\<rparr>"

interpretation plain: grpc_laws plain_net
  by unfold_locales (simp_all add: plain_net_def)

interpretation mem_env: remote_store mem_env memDBIterator_ok memDBIterator_rest
  "MemDB_ok list_btree (sorted_wrt item_Less)" "MemDB_ents list_btree" memDBBatch_ok memDBBatch_kvops any_size
proof (rule remote_store.intro [OF _ _ remote_store_axioms.intro], goal_cases)
  case 1
  show ?case using plain.grpc_laws_axioms by (simp add: mem_env_def)
next
  case 2
  show ?case using list_bt.MemDB_store by (simp add: mem_env_def)
qed (simp add: mem_env_def)

section \<open>Properties\<close>

text \<open>
  C20. A session with a remote database. \<open>InitRemote\<close> creates the database at the server, whatever
  the server kept before; every sequence of calls then answers what the ordered list of pairs
  answers, up to what the protocol keeps of errors and of empty values, and the content of the
  server is that of the list.
\<close>

theorem RemoteDB_refines_ordered_map:
  assumes "remote_store env iok rest ok ents bok bops fits"
    and "ge_newDB env (ri_Name in') (ri_Type in') (ri_Dir in') = (Some d, None)" and "ok d"
    and "ascii_text (ri_Name in')" and "ascii_text (ri_Type in')" and "ascii_text (ri_Dir in')"
    and "list_all (remote_call_ok fits) cs"
  shows "\<exists>rd1 rd2 as. RemoteDB_InitRemote env rd in' = (rd1, None) \<and>
    db_calls (RemoteDB_iface env) rd1 cs = Ret (rd2, as) \<and>
    map remote_view as = map remote_view (snd (spec_calls (ents d) cs)) \<and>
    srv_ents ents (rd_dc rd2) = fst (spec_calls (ents d) cs)"
  using remote_store.init_answer [OF assms(1,2,4,5,6), of rd] assms(3,7)
    kv_calls.all_calls [OF remote_store.RemoteDB_calls [OF assms(1)], of "rd\<lparr>rd_dc := (rd_dc rd)\<lparr>srv_db := Some d\<rparr>\<rparr>" cs]
  by (auto simp: srv_ok_def srv_ents_def)

theorem RemoteDB_refines_ordered_map_witness:
  "\<exists>rd1 rd2 as. RemoteDB_InitRemote mem_env \<lparr>rd_dc = \<lparr>srv_db = None\<rparr>\<rparr>
       \<lparr>ri_Dir = ''data'', ri_Name = ''state'', ri_Type = ''memdb''\<rparr> = (rd1, None) \<and>
     db_calls (RemoteDB_iface mem_env) rd1
       [CSet False (Some [2]) (Some [7]), CBatch True [BSet (Some [1]) (Some [5])], CGet None, CScan True None (Some [9])] =
       Ret (rd2, as) \<and>
     map remote_view as = [AErr None, ABatch [None] None, AGet (Some []) (Some errKeyEmpty),
       AScan [(Some [2], Some [7]), (Some [1], Some [5])] None] \<and>
     srv_ents (MemDB_ents list_btree) (rd_dc rd2) = [([1], [5]), ([2], [7])]"
proof -
  have new: "MemDB_ents list_btree (NewMemDB list_btree) = []" by (rule list_bt.New_ok)
  show ?thesis
    using RemoteDB_refines_ordered_map [OF mem_env.remote_store_axioms,
        of "\<lparr>ri_Dir = ''data'', ri_Name = ''state'', ri_Type = ''memdb''\<rparr>" "NewMemDB list_btree"
          "[CSet False (Some [2]) (Some [7]), CBatch True [BSet (Some [1]) (Some [5])], CGet None, CScan True None (Some [9])]"
          "\<lparr>rd_dc = \<lparr>srv_db = None\<rparr>\<rparr>"] list_bt.New_ok(1)
    by (simp add: new mem_env_def ascii_text_def set_error_def key_error_def domain_error_def accepted_def kv_set_def
        kv_scan_def kv_range_def IsKeyInDomain_iff blank_def)
qed

text \<open>
  C39. A scan of a remote database yields, in order, the pairs of the domain, with empty values
  turned into nil. The iterator then is invalid, but its error is \<open>io.EOF\<close> although nothing
  failed, and its domain is lost.
\<close>

theorem RemoteDB_scan_ends_with_EOF:
  assumes "remote_store env iok rest ok ents bok bops fits"
    and "srv_db (rd_dc rd) = Some d" and "ok d" and "\<not> blank start" and "\<not> blank end'"
  shows "\<exists>i i'. (if r then RemoteDB_ReverseIterator env rd start end' else RemoteDB_Iterator env rd start end') =
      Ret (Some i, None) \<and>
    iter_loop (remote_iterator_iface (ge_net env)) i [] =
      Ret (map (\<lambda>(k, v). (Some k, norm_bytes (Some v))) (kv_scan r start end' (ents d)), i') \<and>
    I_Error (remote_iterator_iface (ge_net env)) i' = Some io_EOF \<and>
    I_Domain (remote_iterator_iface (ge_net env)) i' = (None, None)"
  by (rule remote_store.scan_answer [OF assms])

theorem RemoteDB_scan_ends_with_EOF_witness:
  "\<exists>i i'. RemoteDB_ReverseIterator mem_env \<lparr>rd_dc = \<lparr>srv_db = Some mem_example\<rparr>\<rparr> None (Some [3]) = Ret (Some i, None) \<and>
    iter_loop (remote_iterator_iface plain_net) i [] = Ret ([(Some [1, 2], None), (Some [1], Some [10])], i') \<and>
    I_Error (remote_iterator_iface plain_net) i' = Some io_EOF \<and>
    I_Domain (remote_iterator_iface plain_net) i' = (None, None)"
proof -
  note ents = mem_example_ents
  have net: "ge_net mem_env = plain_net" by (simp add: mem_env_def)
  show ?thesis
    using RemoteDB_scan_ends_with_EOF [OF mem_env.remote_store_axioms _ mem_example_ok,
        of "\<lparr>rd_dc = \<lparr>srv_db = Some mem_example\<rparr>\<rparr>" None "Some [3]" True]
    by (simp add: ents net blank_def kv_scan_def kv_range_def IsKeyInDomain_iff norm_bytes_def)
qed

text \<open>
  C38. The protocol does not tell empty from nil. Writing an empty value, which the interface allows,
  is refused and changes nothing, with or without sync; an empty bound of a scan in either direction,
  which the interface refuses, is taken for no bound: each of the two on its own, whatever the other
  bound is.
\<close>

theorem RemoteDB_empty_is_nil:
  assumes "remote_store env iok rest ok ents bok bops fits" and "srv_db (rd_dc rd) = Some d" and "ok d"
    and "(if sync then RemoteDB_SetSync env rd key (Some []) else RemoteDB_Set env rd key (Some [])) = (rd', e)"
  shows "e \<noteq> None \<and> srv_ents ents (rd_dc rd') = ents d \<and>
    RemoteDB_Iterator env rd (Some []) end' = RemoteDB_Iterator env rd None end' \<and>
    RemoteDB_Iterator env rd start (Some []) = RemoteDB_Iterator env rd start None \<and>
    RemoteDB_ReverseIterator env rd (Some []) end' = RemoteDB_ReverseIterator env rd None end' \<and>
    RemoteDB_ReverseIterator env rd start (Some []) = RemoteDB_ReverseIterator env rd start None"
proof -
  note laws = remote_store.axioms(1) [OF assms(1)]
  have "srv_ok ok (rd_dc rd)" "set_fits fits (norm_bytes key) (norm_bytes (Some []))"
    using assms(2,3) by (simp_all add: srv_ok_def set_fits_def norm_bytes_def set_error_def)
  from remote_store.set_answer [OF assms(1) this, of sync rd' e] assms(2,4)
  have "e \<noteq> None \<and> srv_ents ents (rd_dc rd') = ents d"
    by (auto simp: norm_bytes_def set_error_def srv_ents_def split: if_splits)
  moreover have "norm_bytes (Some []) = norm_bytes None" by (simp add: norm_bytes_def)
  ultimately show ?thesis using grpc_laws.empty_is_nil(3,4) [OF laws refl, of rd] by metis
qed

theorem RemoteDB_empty_is_nil_witness:
  "let (rd', e) = RemoteDB_Set mem_env \<lparr>rd_dc = \<lparr>srv_db = Some mem_example\<rparr>\<rparr> (Some [9]) (Some [])
   in e \<noteq> None \<and> srv_ents (MemDB_ents list_btree) (rd_dc rd') = MemDB_ents list_btree mem_example \<and>
     RemoteDB_Iterator mem_env \<lparr>rd_dc = \<lparr>srv_db = Some mem_example\<rparr>\<rparr> (Some []) (Some [3]) =
       RemoteDB_Iterator mem_env \<lparr>rd_dc = \<lparr>srv_db = Some mem_example\<rparr>\<rparr> None (Some [3]) \<and>
     RemoteDB_ReverseIterator mem_env \<lparr>rd_dc = \<lparr>srv_db = Some mem_example\<rparr>\<rparr> (Some [1]) (Some []) =
       RemoteDB_ReverseIterator mem_env \<lparr>rd_dc = \<lparr>srv_db = Some mem_example\<rparr>\<rparr> (Some [1]) None"
  using RemoteDB_empty_is_nil [OF mem_env.remote_store_axioms _ mem_example_ok,
      of "\<lparr>rd_dc = \<lparr>srv_db = Some mem_example\<rparr>\<rparr>" False "Some [9]"]
  by (auto split: prod.splits)

text \<open>
  C21. A remote batch accepts every call without looking at it. Its write applies all calls in order
  if each is valid and non-empty; one that is not makes the server refuse the whole batch, the
  content stays, and the batch can be used again.
\<close>

theorem RemoteDB_batch_all_or_nothing:
  assumes "remote_store env iok rest ok ents bok bops fits" and "srv_db (rd_dc rd) = Some d" and "ok d"
    and "batch_calls (batch_iface env) (RemoteDB_NewBatch rd) cs = (b, es)"
    and "(if sync then batch_WriteSync env b rd else batch_Write env b rd) = (b', rd', e)"
  shows "es = map (\<lambda>c. None) cs \<and>
    (if list_all remote_bcall_ok cs
     then list_all (op_fits fits) (accepted cs) \<longrightarrow> e = None \<and> rb_ops b' = None \<and> srv_ok ok (rd_dc rd') \<and>
       srv_ents ents (rd_dc rd') = kv_apply_all (accepted cs) (ents d)
     else e \<noteq> None \<and> b' = b \<and> rd' = rd \<and> rb_ops b = Some (map (\<lambda>c. Some (remote_op c)) cs))"
  by (rule remote_store.batch_answer [OF assms])

theorem RemoteDB_batch_all_or_nothing_witness:
  "let rd = \<lparr>rd_dc = \<lparr>srv_db = Some mem_example\<rparr>\<rparr>;
       (b, es) = batch_calls (batch_iface mem_env) (RemoteDB_NewBatch rd) [BSet (Some [1]) (Some [5]), BDelete (Some [3])];
       (b', rd', e) = batch_Write mem_env b rd;
       (c, fs) = batch_calls (batch_iface mem_env) (RemoteDB_NewBatch rd) [BSet (Some [1]) (Some [5]), BDelete None];
       (c', rd2, f) = batch_Write mem_env c rd
   in es = [None, None] \<and> e = None \<and> srv_ents (MemDB_ents list_btree) (rd_dc rd') = [([1], [5]), ([1, 2], [])] \<and>
     fs = [None, None] \<and> f \<noteq> None \<and> rd2 = rd"
proof -
  let ?rd = "\<lparr>rd_dc = \<lparr>srv_db = Some mem_example\<rparr>\<rparr>"
  let ?cs = "[BSet (Some [1]) (Some [5]), BDelete (Some [3])]" and ?ds = "[BSet (Some [1]) (Some [5]), BDelete None]"
  note ents = mem_example_ents
  obtain b es c fs where 1: "batch_calls (batch_iface mem_env) (RemoteDB_NewBatch ?rd) ?cs = (b, es)"
    and 2: "batch_calls (batch_iface mem_env) (RemoteDB_NewBatch ?rd) ?ds = (c, fs)" by force
  obtain b' rd' e c' rd2 f where 3: "batch_Write mem_env b ?rd = (b', rd', e)"
    and 4: "batch_Write mem_env c ?rd = (c', rd2, f)" by (metis surj_pair)
  note all = RemoteDB_batch_all_or_nothing [OF mem_env.remote_store_axioms _ mem_example_ok, where sync = False]
  have "es = [None, None] \<and> e = None \<and> srv_ents (MemDB_ents list_btree) (rd_dc rd') = [([1], [5]), ([1, 2], [])]"
    using all [OF _ 1, of b' rd' e] 3 by (simp add: ents accepted_def kv_set_def kv_del_def set_error_def key_error_def)
  moreover have "fs = [None, None] \<and> f \<noteq> None \<and> rd2 = ?rd"
    using all [OF _ 2, of c' rd2 f] 4 by simp
  ultimately show ?thesis unfolding 1 2 Let_def by (simp add: 3 4)
qed

end
