(* ===== verification/Test_Helpers.thy ===== *)
theory Test_Helpers
  imports Prelude
begin

unbundle bit_operations_syntax

text \<open>
  \<open>test_helpers.go\<close>: two functions that the tests of the package use. The random numbers of
  \<open>rand.Int63\<close> are a sequence \<open>rnd\<close>; the outer loop of \<open>randStr\<close> need not end, so it is a
  partial function, and the theorem says when it returns.
\<close>

section \<open>Definitions\<close>

definition strChars :: string where
  "strChars = ''0123456789ABCDEFGHIJKLMNOPQRSTUVWXYZabcdefghijklmnopqrstuvwxyz''"

definition bz :: "string \<Rightarrow> slice" where
  "bz s = Some (map of_char s)"

text \<open>The inner loop, with the number of rounds left: \<open>Inl\<close> leaves \<open>MAIN_LOOP\<close>, \<open>Inr\<close> goes on with it.\<close>

fun randStr_digits :: "nat \<Rightarrow> 64 word \<Rightarrow> int \<Rightarrow> string \<Rightarrow> string + string" where
  "randStr_digits 0 val length' chars = Inr chars"
| "randStr_digits (Suc i) val length' chars =
     (let v = unat (val AND 0x3f) in
      if 62 \<le> v then randStr_digits i (drop_bit 6 val) length' chars
      else let chars = chars @ [strChars ! v] in
        if int (length chars) = length' then Inl chars
        else randStr_digits i (drop_bit 6 val) length' chars)"

partial_function (option) randStr_loop :: "(nat \<Rightarrow> 64 word) \<Rightarrow> nat \<Rightarrow> int \<Rightarrow> string \<Rightarrow> string option" where
  "randStr_loop rnd n length' chars =
     (case randStr_digits 10 (rnd n) length' chars of
        Inl s \<Rightarrow> Some s
      | Inr chars \<Rightarrow> randStr_loop rnd (Suc n) length' chars)"

definition randStr :: "(nat \<Rightarrow> 64 word) \<Rightarrow> int \<Rightarrow> string option" where
  "randStr rnd length' = randStr_loop rnd 0 length' []"

text \<open>A random number with one of its first \<open>i\<close> groups of six bits below 62.\<close>

fun usable :: "nat \<Rightarrow> 64 word \<Rightarrow> bool" where
  "usable 0 val = False"
| "usable (Suc i) val \<longleftrightarrow> unat (val AND 0x3f) < 62 \<or> usable i (drop_bit 6 val)"

section \<open>Lemmas\<close>

lemma length_strChars: "length strChars = 62"
  by (simp add: strChars_def)

lemma strChars_nth: "v < 62 \<Longrightarrow> strChars ! v \<in> set strChars"
  using length_strChars by simp

lemma digits_short:
  assumes "int (length chars) < length'" and "set chars \<subseteq> set strChars"
  shows "case randStr_digits i val length' chars of
      Inl s \<Rightarrow> int (length s) = length' \<and> set s \<subseteq> set strChars
    | Inr s \<Rightarrow> int (length s) < length' \<and> set s \<subseteq> set strChars \<and>
        length chars + (if usable i val then 1 else 0) \<le> length s"
  using assms
proof (induction i arbitrary: val chars)
  case (Suc i)
  show ?case
  proof (cases "unat (val AND 0x3f) < 62")
    case True
    let ?chars = "chars @ [strChars ! unat (val AND 0x3f)]"
    have "set ?chars \<subseteq> set strChars" using Suc.prems(2) strChars_nth [OF True] by simp
    then show ?thesis
      using True Suc.IH [of ?chars "drop_bit 6 val"] Suc.prems(1) by (auto simp: Let_def split: sum.splits if_splits)
  next
    case False
    then show ?thesis using Suc.IH [OF Suc.prems, of "drop_bit 6 val"] by (auto split: sum.splits)
  qed
qed simp

lemma digits_long:
  assumes "length' \<le> int (length chars)"
  shows "\<exists>s. randStr_digits i val length' chars = Inr s \<and> length' \<le> int (length s)"
  using assms by (induction i arbitrary: val chars) (auto simp: Let_def)

lemma loop_long:
  assumes "randStr_loop rnd n length' chars = Some s"
  shows "\<not> length' \<le> int (length chars)"
proof (rule randStr_loop.raw_induct [of "\<lambda>rnd n length' chars s. \<not> length' \<le> int (length chars)", OF _ assms])
  fix loop rnd n length' chars s
  assume "\<And>rnd n length' chars s. loop rnd n length' chars = Some s \<Longrightarrow> \<not> length' \<le> int (length chars)"
    and "(case randStr_digits 10 (rnd n) length' chars of Inl s \<Rightarrow> Some s | Inr chars \<Rightarrow> loop rnd (Suc n) length' chars) = Some s"
  then show "\<not> length' \<le> int (length chars)" using digits_long [of length' chars 10 "rnd n"] by (auto split: sum.splits)
qed

text \<open>The loop returns: every usable number adds a character.\<close>

lemma loop_short:
  assumes "int (length chars) < length'" and "set chars \<subseteq> set strChars" and "\<And>n. \<exists>m\<ge>n. usable 10 (rnd m)"
  shows "\<exists>s. randStr_loop rnd n length' chars = Some s \<and> int (length s) = length' \<and> set s \<subseteq> set strChars"
  using assms(1,2)
proof (induction "nat length' - length chars" arbitrary: n chars rule: less_induct)
  case less
  note outer = less.hyps
  obtain m where m: "n \<le> m" "usable 10 (rnd m)" using assms(3) by blast
  from m(1) less.prems outer show ?case
  proof (induction "m - n" arbitrary: n chars)
    case 0
    note short = digits_short [OF 0(3,4), of 10 "rnd n"]
    show ?case
    proof (cases "randStr_digits 10 (rnd n) length' chars")
      case (Inl s)
      then show ?thesis using short by (subst randStr_loop.simps) simp
    next
      case (Inr s)
      then have "int (length s) < length'" "set s \<subseteq> set strChars" "length chars < length s"
        using short 0(1,2) m(2) by auto
      with 0(5) [of s "Suc n"] Inr show ?thesis by (subst randStr_loop.simps) auto
    qed
  next
    case (Suc k)
    note short = digits_short [OF Suc(4,5), of 10 "rnd n"]
    show ?case
    proof (cases "randStr_digits 10 (rnd n) length' chars")
      case (Inl s)
      then show ?thesis using short by (subst randStr_loop.simps) simp
    next
      case (Inr s)
      then have s: "int (length s) < length'" "set s \<subseteq> set strChars" "length chars \<le> length s"
        using short by auto
      have "\<exists>t. randStr_loop rnd (Suc n) length' s = Some t \<and> int (length t) = length' \<and> set t \<subseteq> set strChars"
        using Suc(1) [of "Suc n" s] Suc(2,3,6) s by auto
      with Inr show ?thesis by (subst randStr_loop.simps) simp
    qed
  qed
qed

section \<open>Properties\<close>

text \<open>
  \<open>randStr\<close> returns for a positive length, as long as the random source does not stop giving
  usable numbers, and its result has exactly that length and only alphanumeric characters. For
  length zero, or a negative one, it never returns: the length is only compared after a
  character was added.
\<close>

theorem randStr_alphanumeric:
  assumes "\<And>n. \<exists>m\<ge>n. usable 10 (rnd m)"
  shows "(0 < length' \<longrightarrow> (\<exists>s. randStr rnd length' = Some s \<and> int (length s) = length' \<and> set s \<subseteq> set strChars)) \<and>
    (length' \<le> 0 \<longrightarrow> randStr rnd length' = None)"
proof -
  have "randStr rnd length' = None" if "length' \<le> 0"
    using loop_long [of rnd 0 length' "[]"] that by (cases "randStr rnd length'") (auto simp: randStr_def)
  then show ?thesis using loop_short [of "[]" length' rnd 0] assms by (auto simp: randStr_def)
qed

theorem randStr_alphanumeric_witness:
  "(\<exists>s. randStr (\<lambda>n. 0) 12 = Some s \<and> int (length s) = 12 \<and> set s \<subseteq> set strChars) \<and> randStr (\<lambda>n. 0) 0 = None"
proof -
  have "\<exists>m\<ge>n. usable 10 ((\<lambda>n. 0) m)" for n :: nat by (auto simp: numeral_eq_Suc)
  from randStr_alphanumeric [of "\<lambda>n. 0", OF this] show ?thesis by (metis order_refl zero_less_numeral)
qed

end
