(* ===== verification/Populate.thy ===== *)
theory Populate
  imports RemoteDB Test_Helpers "HOL-Library.State_Monad"
begin

text \<open>
  The functions of \<open>remotedb/proto/defs.pb.go\<close> that make random messages for tests, over a source of
  random numbers. They run in the state monad, whose state is that of the source. What they call
  of the source is the record \<open>randyDefs\<close>; the locale \<open>randy_laws\<close> says what is documented of \<open>Intn\<close>.
  The bytes they make up for unknown fields are read back by the decoder of \<open>Wire\<close>.
\<close>

section \<open>The source of random numbers\<close>

text \<open>The methods of the interface that are called; \<open>int\<close> results are not negative.\<close>

record 'r randyDefs =
  rnd_Int63 :: "('r, 64 word) state"
  rnd_Int31 :: "('r, 32 word) state"
  rnd_Intn :: "nat \<Rightarrow> ('r, nat) state"

locale randy_laws =
  fixes r :: "'r randyDefs"
  assumes Intn: "0 < n \<Longrightarrow> pred_state (\<lambda>k. k < n) (rnd_Intn r n)"

text \<open>A loop that fills a slice from index \<open>i\<close> up to its length \<open>v\<close>.\<close>

function fill_loop :: "('r, 'a) state \<Rightarrow> nat \<Rightarrow> nat \<Rightarrow> 'a list \<Rightarrow> ('r, 'a list) state" where
  "fill_loop gen i v xs =
     (if i < v then do { x \<leftarrow> gen; fill_loop gen (i + 1) v (xs[i := x]) } else State_Monad.return xs)"
  by auto

termination fill_loop
  by (relation "measure (\<lambda>(gen, i, v, xs). v - i)") auto

declare fill_loop.simps [simp del]

section \<open>Strings and bytes\<close>

definition rand_byte :: "'r randyDefs \<Rightarrow> ('r, byte) state" where
  "rand_byte r = do { k \<leftarrow> rnd_Intn r 256; State_Monad.return (of_nat k) }"

text \<open>A bytes field: \<open>make\<close> gives a slice that is not nil, also for length 0.\<close>

definition rand_bytes :: "'r randyDefs \<Rightarrow> ('r, slice) state" where
  "rand_bytes r =
     do { v \<leftarrow> rnd_Intn r 100; bs \<leftarrow> fill_loop (rand_byte r) 0 v (replicate v 0); State_Monad.return (Some bs) }"

type_synonym rune = nat

definition randUTF8RuneDefs :: "'r randyDefs \<Rightarrow> ('r, rune) state" where
  "randUTF8RuneDefs r =
     do { ru \<leftarrow> rnd_Intn r 62;
          State_Monad.return (if ru < 10 then ru + 48 else if ru < 36 then ru + 55 else ru + 61) }"

text \<open>The conversion of runes to a string is their encoding in UTF-8.\<close>

definition utf8_rune :: "rune \<Rightarrow> string" where
  "utf8_rune n =
     (if n < 0x80 then [char_of n]
      else if n < 0x800 then [char_of (0xC0 + n div 0x40), char_of (0x80 + n mod 0x40)]
      else if 0xD800 \<le> n \<and> n < 0xE000 \<or> 0x10FFFF < n then [char_of (0xEF :: nat), char_of (0xBF :: nat), char_of (0xBD :: nat)]
      else if n < 0x10000 then [char_of (0xE0 + n div 0x1000), char_of (0x80 + n div 0x40 mod 0x40), char_of (0x80 + n mod 0x40)]
      else [char_of (0xF0 + n div 0x40000), char_of (0x80 + n div 0x1000 mod 0x40), char_of (0x80 + n div 0x40 mod 0x40),
            char_of (0x80 + n mod 0x40)])"

definition randStringDefs :: "'r randyDefs \<Rightarrow> ('r, string) state" where
  "randStringDefs r =
     do { v11 \<leftarrow> rnd_Intn r 100; tmps \<leftarrow> fill_loop (randUTF8RuneDefs r) 0 v11 (replicate v11 0);
          State_Monad.return (concat (map utf8_rune tmps)) }"

section \<open>Unknown fields\<close>

text \<open>Random bytes appended one after the other.\<close>

primrec append_bytes :: "'r randyDefs \<Rightarrow> nat \<Rightarrow> slice \<Rightarrow> ('r, slice) state" where
  "append_bytes r 0 dAtA = State_Monad.return dAtA"
| "append_bytes r (Suc n) dAtA = do { b \<leftarrow> rand_byte r; append_bytes r n (Some (sl dAtA @ [b])) }"

definition append_varint :: "slice \<Rightarrow> 64 word \<Rightarrow> slice" where
  "append_varint dAtA v = Some (encodeVarintPopulateDefs (sl dAtA) v)"

definition randFieldDefs :: "'r randyDefs \<Rightarrow> slice \<Rightarrow> nat \<Rightarrow> nat \<Rightarrow> ('r, slice) state" where
  "randFieldDefs r dAtA fieldNumber wire =
     (let key = or (push_bit 3 (of_nat fieldNumber)) (of_nat wire) :: 32 word in
      if wire = 0 then
        do { let dAtA = append_varint dAtA (ucast key);
             v12 \<leftarrow> rnd_Int63 r;
             c \<leftarrow> rnd_Intn r 2;
             let v12 = (if c = 0 then v12 * - 1 else v12);
             State_Monad.return (append_varint dAtA v12) }
      else if wire = 1 then append_bytes r 8 (append_varint dAtA (ucast key))
      else if wire = 2 then
        do { let dAtA = append_varint dAtA (ucast key);
             ll \<leftarrow> rnd_Intn r 100;
             append_bytes r ll (append_varint dAtA (of_nat ll)) }
      else append_bytes r 4 (append_varint dAtA (ucast key)))"

primrec unrecognized_loop :: "'r randyDefs \<Rightarrow> nat \<Rightarrow> nat \<Rightarrow> slice \<Rightarrow> ('r, slice) state" where
  "unrecognized_loop r maxFieldNumber 0 dAtA = State_Monad.return dAtA"
| "unrecognized_loop r maxFieldNumber (Suc l) dAtA =
     do { wire \<leftarrow> rnd_Intn r 4;
          let wire = (if wire = 3 then 5 else wire);
          k \<leftarrow> rnd_Intn r 100;
          let fieldNumber = maxFieldNumber + k;
          dAtA \<leftarrow> randFieldDefs r dAtA fieldNumber wire;
          unrecognized_loop r maxFieldNumber l dAtA }"

definition randUnrecognizedDefs :: "'r randyDefs \<Rightarrow> nat \<Rightarrow> ('r, slice) state" where
  "randUnrecognizedDefs r maxFieldNumber = do { l \<leftarrow> rnd_Intn r 5; unrecognized_loop r maxFieldNumber l None }"

section \<open>Messages\<close>

text \<open>The end of every function: unknown fields, unless the message is to be easy.\<close>

definition rand_rest :: "'r randyDefs \<Rightarrow> bool \<Rightarrow> nat \<Rightarrow> ('r, slice) state" where
  "rand_rest r easy maxFieldNumber =
     (if \<not> easy then do { c \<leftarrow> rnd_Intn r 10; if c \<noteq> 0 then randUnrecognizedDefs r maxFieldNumber else State_Monad.return None }
      else State_Monad.return None)"

definition NewPopulatedEntity :: "'r randyDefs \<Rightarrow> bool \<Rightarrow> ('r, Entity) state" where
  "NewPopulatedEntity r easy =
     do { let this = new_Entity;
          id' \<leftarrow> rnd_Int31 r;
          let this = this\<lparr>en_Id := id'\<rparr>;
          c \<leftarrow> rnd_Intn r 2;
          let this = (if c = 0 then this\<lparr>en_Id := en_Id this * - 1\<rparr> else this);
          key \<leftarrow> rand_bytes r;
          let this = this\<lparr>en_Key := key\<rparr>;
          value' \<leftarrow> rand_bytes r;
          let this = this\<lparr>en_Value := value'\<rparr>;
          c \<leftarrow> rnd_Intn r 2;
          let this = this\<lparr>en_Exists := (c = 0)\<rparr>;
          start \<leftarrow> rand_bytes r;
          let this = this\<lparr>en_Start := start\<rparr>;
          end' \<leftarrow> rand_bytes r;
          let this = this\<lparr>en_End := end'\<rparr>;
          err \<leftarrow> randStringDefs r;
          let this = this\<lparr>en_Err := err\<rparr>;
          created \<leftarrow> rnd_Int63 r;
          let this = this\<lparr>en_CreatedAt := created\<rparr>;
          c \<leftarrow> rnd_Intn r 2;
          let this = (if c = 0 then this\<lparr>en_CreatedAt := en_CreatedAt this * - 1\<rparr> else this);
          u \<leftarrow> rand_rest r easy 9;
          State_Monad.return (this\<lparr>en_unrecognized := u\<rparr>) }"

definition NewPopulatedOperation :: "'r randyDefs \<Rightarrow> bool \<Rightarrow> ('r, Operation) state" where
  "NewPopulatedOperation r easy =
     do { let this = new_Operation;
          c \<leftarrow> rnd_Intn r 5;
          this \<leftarrow> (if c \<noteq> 0 then do { e \<leftarrow> NewPopulatedEntity r easy; State_Monad.return (this\<lparr>opn_Entity := Some e\<rparr>) }
                   else State_Monad.return this);
          t \<leftarrow> rnd_Intn r 2;
          let this = this\<lparr>opn_Type := [0, 1] ! t\<rparr>;
          u \<leftarrow> rand_rest r easy 3;
          State_Monad.return (this\<lparr>opn_unrecognized := u\<rparr>) }"

definition NewPopulatedBatch :: "'r randyDefs \<Rightarrow> bool \<Rightarrow> ('r, PBatch) state" where
  "NewPopulatedBatch r easy =
     do { let this = new_Batch;
          c \<leftarrow> rnd_Intn r 5;
          this \<leftarrow> (if c \<noteq> 0 then
               do { v1 \<leftarrow> rnd_Intn r 5;
                    ops \<leftarrow> fill_loop (do { op \<leftarrow> NewPopulatedOperation r easy; State_Monad.return (Some op) }) 0 v1 (replicate v1 None);
                    State_Monad.return (this\<lparr>pb_Ops := ops\<rparr>) }
             else State_Monad.return this);
          u \<leftarrow> rand_rest r easy 2;
          State_Monad.return (this\<lparr>pb_unrecognized := u\<rparr>) }"

definition NewPopulatedNothing :: "'r randyDefs \<Rightarrow> bool \<Rightarrow> ('r, Nothing) state" where
  "NewPopulatedNothing r easy =
     do { let this = new_Nothing;
          u \<leftarrow> rand_rest r easy 1;
          State_Monad.return (this\<lparr>no_unrecognized := u\<rparr>) }"

definition NewPopulatedDomain :: "'r randyDefs \<Rightarrow> bool \<Rightarrow> ('r, Domain) state" where
  "NewPopulatedDomain r easy =
     do { let this = new_Domain;
          start \<leftarrow> rand_bytes r;
          let this = this\<lparr>dm_Start := start\<rparr>;
          end' \<leftarrow> rand_bytes r;
          let this = this\<lparr>dm_End := end'\<rparr>;
          u \<leftarrow> rand_rest r easy 3;
          State_Monad.return (this\<lparr>dm_unrecognized := u\<rparr>) }"

definition NewPopulatedIterator :: "'r randyDefs \<Rightarrow> bool \<Rightarrow> ('r, PIterator) state" where
  "NewPopulatedIterator r easy =
     do { let this = new_Iterator;
          c \<leftarrow> rnd_Intn r 5;
          this \<leftarrow> (if c \<noteq> 0 then do { d \<leftarrow> NewPopulatedDomain r easy; State_Monad.return (this\<lparr>pi_Domain := Some d\<rparr>) }
                   else State_Monad.return this);
          c \<leftarrow> rnd_Intn r 2;
          let this = this\<lparr>pi_Valid := (c = 0)\<rparr>;
          key \<leftarrow> rand_bytes r;
          let this = this\<lparr>pi_Key := key\<rparr>;
          value' \<leftarrow> rand_bytes r;
          let this = this\<lparr>pi_Value := value'\<rparr>;
          u \<leftarrow> rand_rest r easy 5;
          State_Monad.return (this\<lparr>pi_unrecognized := u\<rparr>) }"

text \<open>In the assignment to an entry of the map the key is made before the value.\<close>

primrec stats_loop :: "'r randyDefs \<Rightarrow> nat \<Rightarrow> strmap \<Rightarrow> ('r, strmap) state" where
  "stats_loop r 0 data = State_Monad.return data"
| "stats_loop r (Suc n) data = do { k \<leftarrow> randStringDefs r; v \<leftarrow> randStringDefs r; stats_loop r n (data(k \<mapsto> v)) }"

definition NewPopulatedStats :: "'r randyDefs \<Rightarrow> bool \<Rightarrow> ('r, PStats) state" where
  "NewPopulatedStats r easy =
     do { let this = new_Stats;
          c \<leftarrow> rnd_Intn r 5;
          this \<leftarrow> (if c \<noteq> 0 then
               do { v10 \<leftarrow> rnd_Intn r 10; data \<leftarrow> stats_loop r v10 Map.empty; State_Monad.return (this\<lparr>ps_Data := data\<rparr>) }
             else State_Monad.return this);
          t \<leftarrow> rnd_Int63 r;
          let this = this\<lparr>ps_TimeAt := t\<rparr>;
          c \<leftarrow> rnd_Intn r 2;
          let this = (if c = 0 then this\<lparr>ps_TimeAt := ps_TimeAt this * - 1\<rparr> else this);
          u \<leftarrow> rand_rest r easy 3;
          State_Monad.return (this\<lparr>ps_unrecognized := u\<rparr>) }"

definition NewPopulatedInit :: "'r randyDefs \<Rightarrow> bool \<Rightarrow> ('r, PInit) state" where
  "NewPopulatedInit r easy =
     do { let this = new_Init;
          t \<leftarrow> randStringDefs r;
          let this = this\<lparr>in_Type := t\<rparr>;
          n \<leftarrow> randStringDefs r;
          let this = this\<lparr>in_Name := n\<rparr>;
          d \<leftarrow> randStringDefs r;
          let this = this\<lparr>in_Dir := d\<rparr>;
          u \<leftarrow> rand_rest r easy 4;
          State_Monad.return (this\<lparr>in_unrecognized := u\<rparr>) }"


section \<open>What the functions return\<close>

text \<open>Rules for a value returned in the state monad, one per source of values.\<close>

lemma pred_state_return [simp]: "pred_state P (State_Monad.return x) \<longleftrightarrow> P x"
  by (simp add: State_Monad.return_def)

lemma pred_state_mono: "pred_state P m \<Longrightarrow> (\<And>x. P x \<Longrightarrow> Q x) \<Longrightarrow> pred_state Q m"
  by (auto dest: pred_stateD)

lemma bind_spec: "pred_state Q m \<Longrightarrow> (\<And>x. Q x \<Longrightarrow> pred_state P (f x)) \<Longrightarrow> pred_state P (State_Monad.bind m f)"
  by (rule bind_predI) (rule pred_state_mono)

lemma bind_Int63: "(\<And>x. pred_state P (f x)) \<Longrightarrow> pred_state P (State_Monad.bind (rnd_Int63 r) f)"
  by (rule bind_spec [where Q = "\<lambda>_. True"]) auto

lemma bind_Int31: "(\<And>x. pred_state P (f x)) \<Longrightarrow> pred_state P (State_Monad.bind (rnd_Int31 r) f)"
  by (rule bind_spec [where Q = "\<lambda>_. True"]) auto

lemma bind_if:
  "(c \<Longrightarrow> pred_state P (State_Monad.bind m f)) \<Longrightarrow> (\<not> c \<Longrightarrow> pred_state P (State_Monad.bind n f)) \<Longrightarrow>
     pred_state P (State_Monad.bind (if c then m else n) f)"
  by simp

lemma bind_bind: "pred_state P (State_Monad.bind m (\<lambda>x. State_Monad.bind (g x) f)) \<Longrightarrow> pred_state P (State_Monad.bind (State_Monad.bind m g) f)"
  by simp

lemma bind_return: "pred_state P (f x) \<Longrightarrow> pred_state P (State_Monad.bind (State_Monad.return x) f)"
  by simp

lemma fill_loop_spec:
  assumes "pred_state P gen" and "length xs = v" and "i \<le> v" and "list_all P (take i xs)"
  shows "pred_state (\<lambda>ys. length ys = v \<and> list_all P ys) (fill_loop gen i v xs)"
  using assms
proof (induction gen i v xs rule: fill_loop.induct)
  case (1 gen i v xs)
  show ?case
  proof (cases "i < v")
    case True
    have "pred_state (\<lambda>ys. length ys = v \<and> list_all P ys) (fill_loop gen (i + 1) v (xs[i := x]))" if "P x" for x
      using 1(1) [OF True, of x] 1(2-5) True that by (simp add: take_Suc_conv_app_nth)
    with 1(2) True show ?thesis by (subst fill_loop.simps) (auto intro: bind_spec)
  next
    case False
    with 1(3-5) show ?thesis by (subst fill_loop.simps) simp
  qed
qed

text \<open>The runes are the letters and digits of \<open>strChars\<close>, in that order.\<close>

definition rune_of :: "nat \<Rightarrow> rune" where
  "rune_of ru = (if ru < 10 then ru + 48 else if ru < 36 then ru + 55 else ru + 61)"

lemma rune_of_strChars:
  assumes "k < 62"
  shows "rune_of k = of_char (strChars ! k)"
proof -
  have "map rune_of [0..<62] = map of_char strChars" by code_simp
  then have "map rune_of [0..<62] ! k = map of_char strChars ! k" by simp
  with assms length_strChars show ?thesis by simp
qed

text \<open>A string of at most 99 letters and digits; a bytes field that is not nil; and unknown fields.\<close>

definition short_text :: "string \<Rightarrow> bool" where
  "short_text s \<longleftrightarrow> length s < 100 \<and> set s \<subseteq> set strChars"

definition short_bytes :: "slice \<Rightarrow> bool" where
  "short_bytes b \<longleftrightarrow> b \<noteq> None \<and> len b < 100"

definition fields_from :: "nat \<Rightarrow> nat \<Rightarrow> slice \<Rightarrow> bool" where
  "fields_from maxFieldNumber n u \<longleftrightarrow>
     (case parse_fields (sl u) of
        None \<Rightarrow> False
      | Some fs \<Rightarrow> length fs = n \<and> list_all (\<lambda>(k, v). maxFieldNumber \<le> k \<and> k < maxFieldNumber + 100) fs)"

definition unknown_fields :: "bool \<Rightarrow> nat list \<Rightarrow> slice \<Rightarrow> bool" where
  "unknown_fields easy declared u \<longleftrightarrow>
     (easy \<longrightarrow> u = None) \<and> unknown_ok declared u \<and>
     (case parse_fields (sl u) of None \<Rightarrow> False | Some fs \<Rightarrow> length fs < 5)"

text \<open>A field appended to the bytes.\<close>

definition adds_field :: "slice \<Rightarrow> nat \<Rightarrow> slice \<Rightarrow> bool" where
  "adds_field dAtA fieldNumber d \<longleftrightarrow> (\<exists>bs v. sl d = sl dAtA @ bs \<and> parse_field bs = Some ((fieldNumber, v), []))"

context randy_laws
begin

lemma bind_Intn: "0 < n \<Longrightarrow> (\<And>k. k < n \<Longrightarrow> pred_state P (f k)) \<Longrightarrow> pred_state P (State_Monad.bind (rnd_Intn r n) f)"
  by (rule bind_spec [OF Intn])

lemma rand_bytes_spec: "pred_state short_bytes (rand_bytes r)"
  unfolding rand_bytes_def
  by (intro bind_Intn bind_spec [OF fill_loop_spec [where P = "\<lambda>_. True"]]) (auto simp: short_bytes_def len_def)

lemma rune_spec: "pred_state (\<lambda>n. n < 128 \<and> char_of n \<in> set strChars) (randUTF8RuneDefs r)"
  unfolding randUTF8RuneDefs_def
proof (intro bind_Intn)
  fix k :: nat assume k: "k < 62"
  have "char_of (rune_of k) = strChars ! k" by (simp add: rune_of_strChars [OF k])
  with strChars_nth [OF k] k show "pred_state (\<lambda>n. n < 128 \<and> char_of n \<in> set strChars)
      (State_Monad.return (if k < 10 then k + 48 else if k < 36 then k + 55 else k + 61))"
    by (auto simp: rune_of_def split: if_splits)
qed simp

lemma randString_spec: "pred_state short_text (randStringDefs r)"
  unfolding randStringDefs_def
proof (intro bind_Intn bind_spec [OF fill_loop_spec [OF rune_spec]])
  fix v :: nat and tmps :: "rune list" assume v: "v < 100" and t: "length tmps = v \<and> list_all (\<lambda>n. n < 128 \<and> char_of n \<in> set strChars) tmps"
  have "concat (map utf8_rune tmps) = map char_of tmps" if "list_all (\<lambda>n. n < 128) tmps"
    using that by (induction tmps) (simp_all add: utf8_rune_def)
  with v t show "pred_state short_text (State_Monad.return (concat (map utf8_rune tmps)))"
    by (auto simp: short_text_def list_all_iff)
qed auto

lemma append_bytes_spec:
  "pred_state (\<lambda>d. \<exists>bs. sl d = sl dAtA @ bs \<and> length bs = n) (append_bytes r n dAtA)"
proof (induction n arbitrary: dAtA)
  case (Suc n)
  have "pred_state (\<lambda>d. \<exists>bs. sl d = sl dAtA @ bs \<and> length bs = Suc n) (append_bytes r n (Some (sl dAtA @ [b])))" for b
    by (rule pred_state_mono [OF Suc.IH]) auto
  then show ?case by (simp, intro bind_spec [where Q = "\<lambda>_. True"]) auto
qed simp

lemma adds_fieldI:
  assumes "fieldNumber < 2 ^ 29" and "wire < 8" and "sl d = sl dAtA @ field_header fieldNumber wire @ bs"
    and "parse_value wire bs = Some (v, [])"
  shows "adds_field dAtA fieldNumber d"
  using assms parse_field_header [OF assms(1,2), of bs] by (auto simp: adds_field_def)

lemma unat_of_nat_100: "n < 100 \<Longrightarrow> unat (of_nat n :: 64 word) = n"
  by (simp add: unat_of_nat)

lemma randField_spec:
  assumes "fieldNumber < 2 ^ 29" and "wire \<in> {0, 1, 2, 5}"
  shows "pred_state (adds_field dAtA fieldNumber) (randFieldDefs r dAtA fieldNumber wire)"
proof -
  have "wire < 8" using assms(2) by auto
  note field = adds_fieldI [OF assms(1) this]
  let ?d = "sl dAtA @ field_header fieldNumber wire"
  have key: "append_varint dAtA (ucast (or (push_bit 3 (of_nat fieldNumber)) (of_nat wire) :: 32 word)) = Some ?d"
    by (simp add: append_varint_def encodeVarint_varint field_header_def)
  have fixed: "pred_state (adds_field dAtA fieldNumber) (append_bytes r n (Some (?d @ bs)))"
    if v: "\<And>cs. length cs = n \<Longrightarrow> \<exists>v. parse_value wire (bs @ cs) = Some (v, [])" for n bs
  proof (rule pred_state_mono [OF append_bytes_spec])
    fix d assume "\<exists>cs. sl d = sl (Some (?d @ bs)) @ cs \<and> length cs = n"
    then obtain cs where "sl d = ?d @ bs @ cs" "length cs = n" by auto
    with v [of cs] field [of d dAtA "bs @ cs"] show "adds_field dAtA fieldNumber d" by auto
  qed
  consider "wire = 0" | "wire = 1" | "wire = 2" | "wire = 5" using assms(2) by auto
  then show ?thesis
  proof cases
    case 1
    then have "adds_field dAtA fieldNumber (append_varint (Some ?d) n)" for n
      by (intro field [where bs = "varint n"]) (auto simp: append_varint_def encodeVarint_varint parse_value_def)
    with 1 key show ?thesis by (simp add: randFieldDefs_def Let_def) (intro bind_Int63 bind_Intn, auto)
  next
    case 2
    with key fixed [of 8 "[]"] show ?thesis by (simp add: randFieldDefs_def Let_def parse_value_def take_exact_def)
  next
    case 3
    have "pred_state (adds_field dAtA fieldNumber) (append_bytes r ll (append_varint (Some ?d) (of_nat ll)))" if "ll < 100" for ll
      using fixed [of ll "varint (of_nat ll)"] 3 that
      by (simp add: append_varint_def encodeVarint_varint parse_value_def take_exact_def unat_of_nat_100)
    with 3 key show ?thesis by (simp add: randFieldDefs_def Let_def) (intro bind_Intn, auto)
  next
    case 4
    with key fixed [of 4 "[]"] show ?thesis by (simp add: randFieldDefs_def Let_def parse_value_def take_exact_def)
  qed
qed

lemma unrecognized_loop_spec:
  assumes "maxFieldNumber < 2 ^ 28" and "fields_from maxFieldNumber n dAtA"
  shows "pred_state (fields_from maxFieldNumber (n + l)) (unrecognized_loop r maxFieldNumber l dAtA)"
  using assms(2)
proof (induction l arbitrary: n dAtA)
  case (Suc l)
  have next': "pred_state (fields_from maxFieldNumber (n + Suc l)) (unrecognized_loop r maxFieldNumber l d)"
    if "adds_field dAtA (maxFieldNumber + k) d" "k < 100" for d k
  proof -
    have "fields_from maxFieldNumber (Suc n) d"
      using that Suc.prems parse_fields_append [OF _ parse_fields_one]
      by (fastforce simp: fields_from_def adds_field_def split: option.splits)
    from Suc.IH [OF this] show ?thesis by simp
  qed
  show ?case
    unfolding unrecognized_loop.simps Let_def
    by (intro bind_Intn bind_spec [OF randField_spec] next') (use assms(1) in auto)
qed simp

lemma randUnrecognized_spec:
  assumes "maxFieldNumber < 2 ^ 28"
  shows "pred_state (\<lambda>u. \<exists>n<5. fields_from maxFieldNumber n u) (randUnrecognizedDefs r maxFieldNumber)"
proof -
  have "fields_from maxFieldNumber 0 None" by (simp add: fields_from_def parse_fields.simps)
  from unrecognized_loop_spec [OF assms this] show ?thesis
    unfolding randUnrecognizedDefs_def
    by (intro bind_Intn) (auto elim: pred_state_mono)
qed

end

section \<open>Well-formed messages\<close>

definition wf_Entity :: "bool \<Rightarrow> Entity \<Rightarrow> bool" where
  "wf_Entity easy e \<longleftrightarrow>
     short_bytes (en_Key e) \<and> short_bytes (en_Value e) \<and> short_bytes (en_Start e) \<and> short_bytes (en_End e) \<and>
     short_text (en_Err e) \<and> unknown_fields easy Entity_fields (en_unrecognized e)"

definition wf_Operation :: "bool \<Rightarrow> Operation \<Rightarrow> bool" where
  "wf_Operation easy op \<longleftrightarrow>
     pred_option (wf_Entity easy) (opn_Entity op) \<and> opn_Type op \<in> {Operation_SET, Operation_DELETE} \<and>
     unknown_fields easy Operation_fields (opn_unrecognized op)"

definition wf_Batch :: "bool \<Rightarrow> PBatch \<Rightarrow> bool" where
  "wf_Batch easy b \<longleftrightarrow>
     length (pb_Ops b) < 5 \<and> list_all (\<lambda>p. case p of None \<Rightarrow> False | Some op \<Rightarrow> wf_Operation easy op) (pb_Ops b) \<and>
     unknown_fields easy Batch_fields (pb_unrecognized b)"

definition wf_Nothing :: "bool \<Rightarrow> Nothing \<Rightarrow> bool" where
  "wf_Nothing easy n \<longleftrightarrow> unknown_fields easy Nothing_fields (no_unrecognized n)"

definition wf_Domain :: "bool \<Rightarrow> Domain \<Rightarrow> bool" where
  "wf_Domain easy d \<longleftrightarrow>
     short_bytes (dm_Start d) \<and> short_bytes (dm_End d) \<and> unknown_fields easy Domain_fields (dm_unrecognized d)"

definition wf_Iterator :: "bool \<Rightarrow> PIterator \<Rightarrow> bool" where
  "wf_Iterator easy i \<longleftrightarrow>
     pred_option (wf_Domain easy) (pi_Domain i) \<and> short_bytes (pi_Key i) \<and> short_bytes (pi_Value i) \<and>
     unknown_fields easy Iterator_fields (pi_unrecognized i)"

definition text_map :: "nat \<Rightarrow> strmap \<Rightarrow> bool" where
  "text_map n m \<longleftrightarrow> finite (dom m) \<and> card (dom m) \<le> n \<and> (\<forall>k v. m k = Some v \<longrightarrow> short_text k \<and> short_text v)"

definition wf_Stats :: "bool \<Rightarrow> PStats \<Rightarrow> bool" where
  "wf_Stats easy s \<longleftrightarrow> text_map 9 (ps_Data s) \<and> unknown_fields easy Stats_fields (ps_unrecognized s)"

definition wf_Init :: "bool \<Rightarrow> PInit \<Rightarrow> bool" where
  "wf_Init easy i \<longleftrightarrow>
     short_text (in_Type i) \<and> short_text (in_Name i) \<and> short_text (in_Dir i) \<and>
     unknown_fields easy Init_fields (in_unrecognized i)"

lemma text_map_update:
  assumes "text_map n m" and "short_text k" and "short_text v"
  shows "text_map (Suc n) (m(k \<mapsto> v))"
  using assms card_insert_le_m1 [of "Suc n" "dom m" k] by (auto simp: text_map_def split: if_splits)

lemma unknown_fields_None [simp]: "unknown_fields easy declared None"
  by (simp add: unknown_fields_def parse_fields.simps)

context randy_laws
begin

lemma rand_rest_spec:
  assumes "0 < maxFieldNumber" and "maxFieldNumber < 2 ^ 28" and "list_all (\<lambda>k. k < maxFieldNumber) declared"
  shows "pred_state (unknown_fields easy declared) (rand_rest r easy maxFieldNumber)"
proof (cases easy)
  case False
  have "unknown_fields easy declared u" if "\<exists>n<5. fields_from maxFieldNumber n u" for u
    using that assms False
    by (fastforce simp: fields_from_def unknown_fields_def unknown_ok_def list_all_iff split: option.splits)
  from pred_state_mono [OF randUnrecognized_spec [OF assms(2)] this]
  show ?thesis by (auto simp: rand_rest_def False intro!: bind_Intn)
qed (simp add: rand_rest_def)

lemmas populate_rules =
  bind_Intn bind_Int63 bind_Int31 bind_spec [OF rand_bytes_spec] bind_spec [OF randString_spec] bind_if bind_bind bind_return

lemma NewPopulatedEntity_spec: "pred_state (wf_Entity easy) (NewPopulatedEntity r easy)"
  unfolding NewPopulatedEntity_def Let_def
  by (intro populate_rules bind_spec [OF rand_rest_spec [where declared = Entity_fields]])
     (auto simp: wf_Entity_def declared_fields)

lemma NewPopulatedOperation_spec: "pred_state (wf_Operation easy) (NewPopulatedOperation r easy)"
  unfolding NewPopulatedOperation_def Let_def
  by (intro populate_rules bind_spec [OF NewPopulatedEntity_spec] bind_spec [OF rand_rest_spec [where declared = Operation_fields]])
     (auto simp: wf_Operation_def declared_fields Operation_SET_def Operation_DELETE_def less_2_cases_iff new_Operation_def)

lemma NewPopulatedBatch_spec: "pred_state (wf_Batch easy) (NewPopulatedBatch r easy)"
proof -
  have op: "pred_state (\<lambda>p. case p of None \<Rightarrow> False | Some op \<Rightarrow> wf_Operation easy op)
      (do { op \<leftarrow> NewPopulatedOperation r easy; State_Monad.return (Some op) })"
    by (intro bind_spec [OF NewPopulatedOperation_spec]) simp
  show ?thesis
    unfolding NewPopulatedBatch_def Let_def
    by (intro populate_rules bind_spec [OF fill_loop_spec [OF op]] bind_spec [OF rand_rest_spec [where declared = Batch_fields]])
       (auto simp: wf_Batch_def declared_fields new_Batch_def)
qed

lemma NewPopulatedNothing_spec: "pred_state (wf_Nothing easy) (NewPopulatedNothing r easy)"
  unfolding NewPopulatedNothing_def Let_def
  by (intro bind_spec [OF rand_rest_spec [where declared = Nothing_fields]]) (auto simp: wf_Nothing_def declared_fields)

lemma NewPopulatedDomain_spec: "pred_state (wf_Domain easy) (NewPopulatedDomain r easy)"
  unfolding NewPopulatedDomain_def Let_def
  by (intro populate_rules bind_spec [OF rand_rest_spec [where declared = Domain_fields]])
     (auto simp: wf_Domain_def declared_fields)

lemma NewPopulatedIterator_spec: "pred_state (wf_Iterator easy) (NewPopulatedIterator r easy)"
  unfolding NewPopulatedIterator_def Let_def
  by (intro populate_rules bind_spec [OF NewPopulatedDomain_spec] bind_spec [OF rand_rest_spec [where declared = Iterator_fields]])
     (auto simp: wf_Iterator_def declared_fields new_Iterator_def)

lemma stats_loop_spec: "text_map n m \<Longrightarrow> pred_state (text_map (n + l)) (stats_loop r l m)"
proof (induction l arbitrary: n m)
  case (Suc l)
  have "pred_state (text_map (n + Suc l)) (stats_loop r l (m(k \<mapsto> v)))" if "short_text k" "short_text v" for k v
    using Suc.IH [OF text_map_update [OF Suc.prems that]] by (simp only: add_Suc add_Suc_right)
  then show ?case unfolding stats_loop.simps by (intro bind_spec [OF randString_spec])
qed simp

lemma NewPopulatedStats_spec: "pred_state (wf_Stats easy) (NewPopulatedStats r easy)"
proof -
  have data: "pred_state (text_map 9) (stats_loop r n Map.empty)" if "n < 10" for n
    using stats_loop_spec [of 0 Map.empty n] that by (auto simp: text_map_def elim: pred_state_mono)
  show ?thesis
    unfolding NewPopulatedStats_def Let_def
    by (intro populate_rules bind_spec [OF data] bind_spec [OF rand_rest_spec [where declared = Stats_fields]])
       (auto simp: wf_Stats_def declared_fields new_Stats_def text_map_def)
qed

lemma NewPopulatedInit_spec: "pred_state (wf_Init easy) (NewPopulatedInit r easy)"
  unfolding NewPopulatedInit_def Let_def
  by (intro populate_rules bind_spec [OF rand_rest_spec [where declared = Init_fields]])
     (auto simp: wf_Init_def declared_fields)

end

lemma short_text_ascii: "short_text s \<Longrightarrow> ascii_text s"
proof -
  have "list_all (\<lambda>c. of_char c < (128 :: nat)) strChars" by (simp add: strChars_def)
  then show "short_text s \<Longrightarrow> ascii_text s" by (auto simp: short_text_def ascii_text_def list_all_iff)
qed

lemma norm_idem [simp]:
  "norm_Entity (norm_Entity e) = norm_Entity e" "norm_Domain (norm_Domain d) = norm_Domain d"
  "norm_Operation (norm_Operation p) = norm_Operation p" "norm_Batch (norm_Batch b) = norm_Batch b"
  "norm_Nothing (norm_Nothing n) = norm_Nothing n" "norm_Iterator (norm_Iterator i) = norm_Iterator i"
  "norm_Init (norm_Init t) = norm_Init t"
proof -
  show e: "norm_Entity (norm_Entity e) = norm_Entity e" for e by (simp add: norm_Entity_def)
  show d: "norm_Domain (norm_Domain d) = norm_Domain d" for d by (simp add: norm_Domain_def)
  have "norm_Entity \<circ> norm_Entity = norm_Entity" by (rule ext) (simp add: e)
  then show p: "norm_Operation (norm_Operation p) = norm_Operation p" for p
    by (simp add: norm_Operation_def option.map_comp)
  have "norm_Operation \<circ> norm_Operation = norm_Operation" by (rule ext) (simp add: p)
  then show "norm_Batch (norm_Batch b) = norm_Batch b" by (simp add: norm_Batch_def option.map_comp comp_def)
  have "norm_Domain \<circ> norm_Domain = norm_Domain" by (rule ext) (simp add: d)
  then show "norm_Iterator (norm_Iterator i) = norm_Iterator i" by (simp add: norm_Iterator_def option.map_comp)
qed (simp_all add: norm_Nothing_def norm_Init_def)

lemma unknown_fields_ok: "unknown_fields easy declared u \<Longrightarrow> unknown_ok declared u"
  by (simp add: unknown_fields_def)

lemma Entity_encodable_wf: "wf_Entity easy e \<Longrightarrow> Entity_encodable e"
  by (auto simp: wf_Entity_def Entity_encodable_def short_text_ascii unknown_fields_ok)

lemma Operation_encodable_wf: "wf_Operation easy op \<Longrightarrow> Operation_encodable op"
  by (auto simp: wf_Operation_def Operation_encodable_def Entity_encodable_wf unknown_fields_ok pred_option_def)

lemma encodable_wf:
  "wf_Entity easy e \<Longrightarrow> encodable (MEntity e)" "wf_Batch easy b \<Longrightarrow> encodable (MBatch b)"
  "wf_Nothing easy n \<Longrightarrow> encodable (MNothing n)" "wf_Iterator easy i \<Longrightarrow> encodable (MIterator i)"
  "wf_Stats easy t \<Longrightarrow> encodable (MStats t)" "wf_Init easy t' \<Longrightarrow> encodable (MInit t')"
proof -
  show "wf_Batch easy b \<Longrightarrow> encodable (MBatch b)"
    using Operation_encodable_wf [of easy]
    by (fastforce simp: wf_Batch_def unknown_fields_ok list_all_iff split: option.splits)
qed (auto simp: wf_Nothing_def wf_Domain_def wf_Iterator_def wf_Stats_def wf_Init_def Domain_encodable_def text_map_def
      Entity_encodable_wf short_text_ascii unknown_fields_ok pred_option_def)

lemma Stats_Equal_norm_self: "Stats_Equal (Some t) (Pointer (Some (norm_Stats t)))"
  by (auto simp: Stats_Equal_def Equal_on_def norm_Stats_def bytes_Equal_norm)

section \<open>A source\<close>

text \<open>The law can be met: a linear congruential generator.\<close>

definition lcg_next :: "nat \<Rightarrow> nat" where
  "lcg_next s = (1103515245 * s + 12345) mod 2147483648"

definition lcg :: "nat randyDefs" where
  "lcg =
     \<lparr>rnd_Int63 = State (\<lambda>s. (of_nat s, lcg_next s)), rnd_Int31 = State (\<lambda>s. (of_nat s, lcg_next s)),
      rnd_Intn = (\<lambda>n. State (\<lambda>s. (s div 65536 mod n, lcg_next s)))\<rparr>"

interpretation lcg: randy_laws lcg
  by unfold_locales (auto simp: lcg_def)

section \<open>Properties\<close>

text \<open>
  C35. The bytes that are made up for unknown fields are a sequence of at most four fields of the wire
  format, with the numbers that were asked for: the encoding of numbers, the keys and the lengths
  are decoded to what was encoded, whatever the random numbers are.
\<close>

theorem randUnrecognized_decodes:
  assumes "randy_laws r" and "maxFieldNumber < 2 ^ 28"
    and "run_state (randUnrecognizedDefs r maxFieldNumber) s = (u, s')"
  shows "\<exists>fs. parse_fields (sl u) = Some fs \<and> length fs < 5 \<and>
    list_all (\<lambda>(k, v). maxFieldNumber \<le> k \<and> k < maxFieldNumber + 100) fs"
  using pred_stateD [OF randy_laws.randUnrecognized_spec [OF assms(1,2)] assms(3)]
  by (auto simp: fields_from_def split: option.splits)

theorem randUnrecognized_decodes_witness:
  "\<exists>fs. parse_fields (sl (fst (run_state (randUnrecognizedDefs lcg 9) 1))) = Some fs \<and> length fs < 5 \<and>
    list_all (\<lambda>(k, v). 9 \<le> k \<and> k < 109) fs"
  using randUnrecognized_decodes [OF lcg.randy_laws_axioms, of 9 1] by (simp add: prod_eq_iff)

text \<open>
  C34. The random messages are well-formed whatever the random numbers are: bytes fields are not nil
  and shorter than 100, texts are letters and digits, the operations of a batch are at most four,
  none nil and each of a declared type, the map of statistics has at most nine entries, and the
  unknown fields, none in easy messages, have numbers that the message does not declare.
\<close>

theorem NewPopulated_wellformed:
  assumes "randy_laws r"
  shows "wf_Batch easy (fst (run_state (NewPopulatedBatch r easy) s)) \<and>
    wf_Operation easy (fst (run_state (NewPopulatedOperation r easy) s)) \<and>
    wf_Entity easy (fst (run_state (NewPopulatedEntity r easy) s)) \<and>
    wf_Nothing easy (fst (run_state (NewPopulatedNothing r easy) s)) \<and>
    wf_Domain easy (fst (run_state (NewPopulatedDomain r easy) s)) \<and>
    wf_Iterator easy (fst (run_state (NewPopulatedIterator r easy) s)) \<and>
    wf_Stats easy (fst (run_state (NewPopulatedStats r easy) s)) \<and>
    wf_Init easy (fst (run_state (NewPopulatedInit r easy) s))"
  by (simp add: pred_state_run_state [OF randy_laws.NewPopulatedBatch_spec [OF assms]]
      pred_state_run_state [OF randy_laws.NewPopulatedOperation_spec [OF assms]]
      pred_state_run_state [OF randy_laws.NewPopulatedEntity_spec [OF assms]]
      pred_state_run_state [OF randy_laws.NewPopulatedNothing_spec [OF assms]]
      pred_state_run_state [OF randy_laws.NewPopulatedDomain_spec [OF assms]]
      pred_state_run_state [OF randy_laws.NewPopulatedIterator_spec [OF assms]]
      pred_state_run_state [OF randy_laws.NewPopulatedStats_spec [OF assms]]
      pred_state_run_state [OF randy_laws.NewPopulatedInit_spec [OF assms]])

theorem NewPopulated_wellformed_witness:
  "wf_Batch False (fst (run_state (NewPopulatedBatch lcg False) 42)) \<and> wf_Stats True (fst (run_state (NewPopulatedStats lcg True) 42))"
  using NewPopulated_wellformed [OF lcg.randy_laws_axioms, of False 42] NewPopulated_wellformed [OF lcg.randy_laws_axioms, of True 42]
  by simp

text \<open>
  C36. A random message of any type that a call or a stream carries, sent over a connection that works,
  arrives, and \<open>Equal\<close> finds the message that arrives equal to the one that was sent. A connection keeps only messages whose
  strings are text and whose unknown fields are well-formed and not declared, so this rests on what
  the functions put there.
\<close>

theorem NewPopulated_survives_wire:
  assumes "randy_laws r" and "grpc_laws net"
    and "run_state (NewPopulatedEntity r easy) s1 = (e, s1')" and "run_state (NewPopulatedBatch r easy) s2 = (b, s2')"
    and "run_state (NewPopulatedIterator r easy) s3 = (i, s3')" and "run_state (NewPopulatedStats r easy) s4 = (t, s4')"
    and "run_state (NewPopulatedInit r easy) s5 = (n, s5')" and "run_state (NewPopulatedNothing r easy) s6 = (o', s6')"
  shows "\<exists>e' b' i' t' n' o''.
    nt_wire net (MEntity e) = MEntity e' \<and> Entity_Equal (Some e) (Pointer (Some e')) \<and>
    nt_wire net (MBatch b) = MBatch b' \<and> Batch_Equal (Some b) (Pointer (Some b')) \<and>
    nt_wire net (MIterator i) = MIterator i' \<and> Iterator_Equal (Some i) (Pointer (Some i')) \<and>
    nt_wire net (MStats t) = MStats t' \<and> Stats_Equal (Some t) (Pointer (Some t')) \<and>
    nt_wire net (MInit n) = MInit n' \<and> Init_Equal (Some n) (Pointer (Some n')) \<and>
    nt_wire net (MNothing o') = MNothing o'' \<and> Nothing_Equal (Some o') (Pointer (Some o''))"
proof -
  note wf = pred_stateD [OF randy_laws.NewPopulatedEntity_spec [OF assms(1)] assms(3)]
    pred_stateD [OF randy_laws.NewPopulatedBatch_spec [OF assms(1)] assms(4)]
    pred_stateD [OF randy_laws.NewPopulatedIterator_spec [OF assms(1)] assms(5)]
    pred_stateD [OF randy_laws.NewPopulatedStats_spec [OF assms(1)] assms(6)]
    pred_stateD [OF randy_laws.NewPopulatedInit_spec [OF assms(1)] assms(7)]
    pred_stateD [OF randy_laws.NewPopulatedNothing_spec [OF assms(1)] assms(8)]
  note wire = grpc_laws.wire [OF assms(2)]
  show ?thesis
    using wire [OF encodable_wf(1) [OF wf(1)]] wire [OF encodable_wf(2) [OF wf(2)]] wire [OF encodable_wf(4) [OF wf(3)]]
      wire [OF encodable_wf(5) [OF wf(4)]] wire [OF encodable_wf(6) [OF wf(5)]] wire [OF encodable_wf(3) [OF wf(6)]]
    by (auto simp: Entity_Equal_norm Batch_Equal_norm Iterator_Equal_norm Init_Equal_norm Nothing_Equal_norm
        Stats_Equal_norm_self)
qed

theorem NewPopulated_survives_wire_witness:
  "let e = fst (run_state (NewPopulatedEntity lcg False) 7) in
     \<exists>e'. nt_wire plain_net (MEntity e) = MEntity e' \<and> Entity_Equal (Some e) (Pointer (Some e'))"
proof -
  obtain e s1 b s2 i s3 t s4 n s5 o' s6 where runs: "run_state (NewPopulatedEntity lcg False) 7 = (e, s1)"
    "run_state (NewPopulatedBatch lcg False) 7 = (b, s2)" "run_state (NewPopulatedIterator lcg False) 7 = (i, s3)"
    "run_state (NewPopulatedStats lcg False) 7 = (t, s4)" "run_state (NewPopulatedInit lcg False) 7 = (n, s5)"
    "run_state (NewPopulatedNothing lcg False) 7 = (o', s6)"
    by (metis surj_pair)
  from NewPopulated_survives_wire [OF lcg.randy_laws_axioms plain.grpc_laws_axioms runs] runs(1)
  show ?thesis by auto
qed

end
