(* ===== verification/Cursor.thy ===== *)
theory Cursor
  imports Interfaces
begin

text \<open>
  The storage engines behind the disk backends are third-party packages. What the backends use
  of an engine's iterator is the record \<open>cursor_ops\<close>; its documented behaviour is the locale
  \<open>cursor_laws\<close>, over an abstract position that splits the snapshot of the iterator into the
  pairs before the position, nearest first, and the pairs from it on. The lemmas here serve the
  iterators of \<open>goleveldb_iterator.go\<close>, \<open>cleveldb_iterator.go\<close> and \<open>rocksdb_iterator.go\<close>,
  which all walk a cursor between two bounds.
\<close>

section \<open>Definitions\<close>

record 'c cursor_ops =
  cu_SeekToFirst :: "'c \<Rightarrow> 'c"
  cu_SeekToLast :: "'c \<Rightarrow> 'c"
  cu_Seek :: "'c \<Rightarrow> slice \<Rightarrow> 'c"
  cu_Next :: "'c \<Rightarrow> 'c"
  cu_Prev :: "'c \<Rightarrow> 'c"
  cu_Valid :: "'c \<Rightarrow> bool"
  cu_Key :: "'c \<Rightarrow> slice"
  cu_Value :: "'c \<Rightarrow> slice"
  cu_Error :: "'c \<Rightarrow> error option"
  cu_Close :: "'c \<Rightarrow> 'c"

type_synonym zipper = "kv list \<times> kv list"

definition zip_first :: "kv list \<Rightarrow> zipper" where
  "zip_first xs = ([], xs)"

definition zip_last :: "kv list \<Rightarrow> zipper" where
  "zip_last xs = (if xs = [] then ([], []) else (rev (butlast xs), [last xs]))"

definition zip_seek :: "byte list \<Rightarrow> kv list \<Rightarrow> zipper" where
  "zip_seek k xs = (rev (filter (\<lambda>x. fst x < k) xs), filter (\<lambda>x. k \<le> fst x) xs)"

fun zip_next :: "zipper \<Rightarrow> zipper" where
  "zip_next (ls, []) = (ls, [])"
| "zip_next (ls, x # rs) = (x # ls, rs)"

fun zip_prev :: "zipper \<Rightarrow> zipper" where
  "zip_prev ([], rs) = ([], [])"
| "zip_prev (l # ls, rs) = (ls, l # rs)"

text \<open>
  The pairs that a walk in one direction still meets, and those of them before the bound that
  ends the walk: the start when it goes down, the end when it goes up.
\<close>

definition zip_items :: "bool \<Rightarrow> zipper \<Rightarrow> kv list" where
  "zip_items reverse z = (case snd z of [] \<Rightarrow> [] | x # rs \<Rightarrow> if reverse then x # fst z else x # rs)"

definition in_bounds :: "bool \<Rightarrow> slice \<Rightarrow> slice \<Rightarrow> kv \<Rightarrow> bool" where
  "in_bounds reverse start end' x =
     (if reverse then start = None \<or> sl start \<le> fst x else end' = None \<or> fst x < sl end')"

definition walk_rest :: "bool \<Rightarrow> slice \<Rightarrow> slice \<Rightarrow> zipper \<Rightarrow> kv list" where
  "walk_rest reverse start end' z = takeWhile (in_bounds reverse start end') (zip_items reverse z)"

text \<open>Where a walk starts: below the end when it goes down, at the start when it goes up.\<close>

definition walk_items :: "bool \<Rightarrow> slice \<Rightarrow> slice \<Rightarrow> kv list \<Rightarrow> kv list" where
  "walk_items reverse start end' xs =
     (if reverse then rev (filter (\<lambda>x. end' = None \<or> fst x < sl end') xs)
      else filter (\<lambda>x. start = None \<or> sl start \<le> fst x) xs)"

text \<open>The test by which the iterators decide whether the cursor stands on a pair of their domain.\<close>

definition cu_live :: "'c cursor_ops \<Rightarrow> bool \<Rightarrow> slice \<Rightarrow> slice \<Rightarrow> 'c \<Rightarrow> bool" where
  "cu_live cu reverse start end' c \<longleftrightarrow> cu_Error cu c = None \<and> cu_Valid cu c \<and>
     (if reverse then \<not> (start \<noteq> None \<and> bytes_Compare (cu_Key cu c) start < 0)
      else \<not> (end' \<noteq> None \<and> bytes_Compare end' (cu_Key cu c) \<le> 0))"

section \<open>Positions\<close>

lemma zip_items_simps [simp]:
  "zip_items r (ls, []) = []" "zip_items False (ls, x # rs) = x # rs" "zip_items True (ls, x # rs) = x # ls"
  by (simp_all add: zip_items_def)

lemma zip_items_Nil [simp]: "zip_items r z = [] \<longleftrightarrow> snd z = []"
  by (simp add: zip_items_def split: list.splits)

lemma zip_items_first: "zip_items False (zip_first xs) = xs"
  by (cases xs) (simp_all add: zip_first_def)

lemma zip_items_last: "zip_items True (zip_last xs) = rev xs"
  by (cases xs rule: rev_cases) (simp_all add: zip_last_def)

lemma zip_items_seek: "zip_items False (zip_seek k xs) = filter (\<lambda>x. k \<le> fst x) xs"
  by (cases "filter (\<lambda>x. k \<le> fst x) xs") (simp_all add: zip_seek_def)

lemma zip_items_step:
  "zip_items r z = x # xs \<Longrightarrow> zip_items r (if r then zip_prev z else zip_next z) = xs"
  by (cases z rule: zip_prev.cases; cases "snd z"; cases r) (auto split: list.splits simp: zip_items_def)

text \<open>Seeking the end and stepping back, or going to the last pair when the seek finds nothing.\<close>

lemma zip_items_before:
  "zip_items True (if snd (zip_seek e xs) = [] then zip_last xs else zip_prev (zip_seek e xs))
     = rev (filter (\<lambda>x. fst x < e) xs)"
proof (cases "snd (zip_seek e xs) = []")
  case True
  then have "filter (\<lambda>x. fst x < e) xs = xs"
    by (auto simp: zip_seek_def filter_empty_conv filter_id_conv not_le)
  then show ?thesis using True by (simp add: zip_items_last)
next
  case False
  then show ?thesis
    by (cases "rev (filter (\<lambda>x. fst x < e) xs)") (simp_all add: zip_seek_def)
qed

lemma takeWhile_walk:
  assumes "kv_sorted xs"
  shows "takeWhile (in_bounds r start end') (walk_items r start end' xs) = kv_scan r start end' xs"
proof -
  let ?ys = "walk_items r start end' xs"
  have srt: "sorted_wrt (\<lambda>x y. if r then fst y < fst x else fst x < fst y) ?ys"
    using kv_sorted_filter [OF assms]
    by (cases r) (auto simp: walk_items_def kv_sorted_def sorted_wrt_map sorted_wrt_rev)
  have "takeWhile (in_bounds r start end') ?ys = filter (in_bounds r start end') ?ys"
    by (rule takeWhile_filter_sorted [OF srt]) (auto simp: in_bounds_def split: if_splits)
  also have "\<dots> = kv_scan r start end' xs"
    by (cases r; cases start; cases end')
       (auto simp: walk_items_def in_bounds_def kv_scan_def kv_range_def IsKeyInDomain_iff rev_filter
         intro!: filter_cong)
  finally show ?thesis .
qed

lemma walk_rest_scan:
  "kv_sorted xs \<Longrightarrow> zip_items r z = walk_items r start end' xs \<Longrightarrow>
     walk_rest r start end' z = kv_scan r start end' xs"
  by (simp add: walk_rest_def takeWhile_walk)

lemma walk_rest_ConsD:
  assumes "walk_rest r start end' z = x # xs"
  obtains ys where "zip_items r z = x # ys" "xs = takeWhile (in_bounds r start end') ys"
proof (cases "zip_items r z")
  case Nil
  with assms show ?thesis by (simp add: walk_rest_def del: zip_items_Nil)
next
  case (Cons y ys)
  with assms that show ?thesis by (auto simp: walk_rest_def split: if_splits)
qed

lemma kv_scan_range: "kv_scan r start end' (kv_range start end' xs) = kv_scan r start end' xs"
  by (simp add: kv_scan_def kv_range_def)

lemma kv_sorted_range: "kv_sorted xs \<Longrightarrow> kv_sorted (kv_range start end' xs)"
  by (simp add: kv_range_def kv_sorted_filter)

section \<open>The documented behaviour of a cursor\<close>

locale cursor_laws =
  fixes cu :: "'c cursor_ops"
    and cok :: "'c \<Rightarrow> bool"
    and items :: "'c \<Rightarrow> kv list"
    and pos :: "'c \<Rightarrow> zipper"
  assumes cu_first: "cok c \<Longrightarrow> cok (cu_SeekToFirst cu c) \<and> items (cu_SeekToFirst cu c) = items c
      \<and> pos (cu_SeekToFirst cu c) = zip_first (items c)"
    and cu_last: "cok c \<Longrightarrow> cok (cu_SeekToLast cu c) \<and> items (cu_SeekToLast cu c) = items c
      \<and> pos (cu_SeekToLast cu c) = zip_last (items c)"
    and cu_seek: "cok c \<Longrightarrow> cok (cu_Seek cu c key) \<and> items (cu_Seek cu c key) = items c
      \<and> pos (cu_Seek cu c key) = zip_seek (sl key) (items c)"
    and cu_next: "cok c \<Longrightarrow> snd (pos c) \<noteq> [] \<Longrightarrow> cok (cu_Next cu c) \<and> items (cu_Next cu c) = items c
      \<and> pos (cu_Next cu c) = zip_next (pos c)"
    and cu_prev: "cok c \<Longrightarrow> snd (pos c) \<noteq> [] \<Longrightarrow> cok (cu_Prev cu c) \<and> items (cu_Prev cu c) = items c
      \<and> pos (cu_Prev cu c) = zip_prev (pos c)"
    and cu_valid: "cok c \<Longrightarrow> cu_Valid cu c \<longleftrightarrow> snd (pos c) \<noteq> []"
    and cu_key: "cok c \<Longrightarrow> snd (pos c) = (k, v) # rs \<Longrightarrow> cu_Key cu c = Some k"
    and cu_value: "cok c \<Longrightarrow> snd (pos c) = (k, v) # rs \<Longrightarrow> cu_Value cu c = Some v"
    and cu_error: "cok c \<Longrightarrow> cu_Error cu c = None"
begin

lemma cu_head:
  "cok c \<Longrightarrow> zip_items r (pos c) = (k, v) # xs \<Longrightarrow>
     cu_Valid cu c \<and> cu_Key cu c = Some k \<and> cu_Value cu c = Some v"
  using cu_valid [of c] cu_key [of c k v] cu_value [of c k v]
  by (cases "pos c"; cases "snd (pos c)"; cases r) (auto simp: zip_items_def)

lemma cu_step:
  assumes "cok c" and "zip_items r (pos c) = x # xs"
  shows "cok (if r then cu_Prev cu c else cu_Next cu c)
    \<and> zip_items r (pos (if r then cu_Prev cu c else cu_Next cu c)) = xs"
proof -
  have "snd (pos c) \<noteq> []" using assms(2) by (metis list.distinct(1) zip_items_Nil)
  then show ?thesis using zip_items_step [OF assms(2)] cu_next [OF assms(1)] cu_prev [OF assms(1)] by auto
qed

text \<open>The placement of the cursor that the three iterators share.\<close>

lemma cu_before:
  assumes "cok c" and "c1 = cu_Seek cu c e"
    and "c2 = (if cu_Valid cu c1 then if bytes_Compare e (cu_Key cu c1) \<le> 0 then cu_Prev cu c1 else c1
               else cu_SeekToLast cu c1)"
  shows "cok c2 \<and> zip_items True (pos c2) = rev (filter (\<lambda>x. fst x < sl e) (items c))"
proof -
  have 1: "cok c1" "items c1 = items c" "pos c1 = zip_seek (sl e) (items c)"
    using cu_seek [OF assms(1)] assms(2) by simp_all
  show ?thesis
  proof (cases "snd (zip_seek (sl e) (items c))")
    case Nil
    then show ?thesis
      using assms(3) 1 cu_valid [OF 1(1)] cu_last [OF 1(1)] zip_items_before [of "sl e" "items c"] by simp
  next
    case (Cons x rs)
    have "x \<in> set (snd (zip_seek (sl e) (items c)))" using Cons by simp
    then have "sl e \<le> fst x" by (simp add: zip_seek_def)
    moreover have "cu_Key cu c1 = Some (fst x)" using cu_key [OF 1(1), of "fst x" "snd x" rs] 1 Cons by simp
    ultimately have "c2 = cu_Prev cu c1"
      using assms(3) cu_valid [OF 1(1)] 1 Cons by (simp add: bytes_Compare_le)
    then show ?thesis
      using cu_prev [OF 1(1)] 1 Cons zip_items_before [of "sl e" "items c"] by simp
  qed
qed

lemma cu_place:
  assumes "cok c" and "kv_sorted (items c)"
    and "c2 = (if r then
                 if end' = None then cu_SeekToLast cu c
                 else let c1 = cu_Seek cu c end' in
                   if cu_Valid cu c1 then if bytes_Compare end' (cu_Key cu c1) \<le> 0 then cu_Prev cu c1 else c1
                   else cu_SeekToLast cu c1
               else if start = None then cu_SeekToFirst cu c else cu_Seek cu c start)"
  shows "cok c2 \<and> walk_rest r start end' (pos c2) = kv_scan r start end' (items c)"
proof -
  have "cok c2 \<and> zip_items r (pos c2) = walk_items r start end' (items c)"
  proof (cases r)
    case True
    show ?thesis
    proof (cases end')
      case None
      then show ?thesis using True assms(3) cu_last [OF assms(1)] by (simp add: walk_items_def zip_items_last)
    next
      case (Some e)
      then have "c2 = (if cu_Valid cu (cu_Seek cu c end')
          then if bytes_Compare end' (cu_Key cu (cu_Seek cu c end')) \<le> 0 then cu_Prev cu (cu_Seek cu c end')
            else cu_Seek cu c end'
          else cu_SeekToLast cu (cu_Seek cu c end'))"
        unfolding assms(3) using True by (simp add: Let_def)
      from cu_before [OF assms(1) refl this] True Some show ?thesis by (simp add: walk_items_def)
    qed
  next
    case False
    then show ?thesis
      using assms(3) cu_first [OF assms(1)] cu_seek [OF assms(1)]
      by (cases start) (simp_all add: walk_items_def zip_items_first zip_items_seek)
  qed
  then show ?thesis using walk_rest_scan [OF assms(2)] by auto
qed

lemma cu_live_iff: "cok c \<Longrightarrow> cu_live cu r start end' c \<longleftrightarrow> walk_rest r start end' (pos c) \<noteq> []"
proof (cases "zip_items r (pos c)")
  case Nil
  moreover assume "cok c"
  ultimately show ?thesis using cu_valid [of c] by (simp add: cu_live_def walk_rest_def del: zip_items_Nil)
     (metis zip_items_Nil)
next
  case (Cons x xs)
  moreover assume "cok c"
  moreover obtain k v where "x = (k, v)" by (cases x)
  ultimately show ?thesis
    using cu_head [of c r k v xs] cu_error [of c]
    by (auto simp: cu_live_def walk_rest_def in_bounds_def bytes_Compare_neg bytes_Compare_le not_less not_le)
qed

lemma cu_live_head:
  assumes "cok c" and "walk_rest r start end' (pos c) = (k, v) # xs"
  shows "cu_Key cu c = Some k" and "cu_Value cu c = Some v"
  using walk_rest_ConsD [OF assms(2)] cu_head [OF assms(1), of r k v] by metis+

lemma cu_live_step:
  assumes "cok c" and "walk_rest r start end' (pos c) = x # xs"
  shows "cok (if r then cu_Prev cu c else cu_Next cu c)"
    and "walk_rest r start end' (pos (if r then cu_Prev cu c else cu_Next cu c)) = xs"
  using walk_rest_ConsD [OF assms(2)] cu_step [OF assms(1), of r x] by (metis walk_rest_def)+

end

section \<open>A cursor over an ordered list\<close>

record list_cursor =
  lc_items :: "kv list"
  lc_pos :: zipper

definition list_cursor_ops :: "list_cursor cursor_ops" where
  "list_cursor_ops =
     \<lparr>cu_SeekToFirst = (\<lambda>c. c\<lparr>lc_pos := zip_first (lc_items c)\<rparr>),
      cu_SeekToLast = (\<lambda>c. c\<lparr>lc_pos := zip_last (lc_items c)\<rparr>),
      cu_Seek = (\<lambda>c k. c\<lparr>lc_pos := zip_seek (sl k) (lc_items c)\<rparr>),
      cu_Next = (\<lambda>c. c\<lparr>lc_pos := zip_next (lc_pos c)\<rparr>),
      cu_Prev = (\<lambda>c. c\<lparr>lc_pos := zip_prev (lc_pos c)\<rparr>),
      cu_Valid = (\<lambda>c. snd (lc_pos c) \<noteq> []),
      cu_Key = (\<lambda>c. map_option fst (case snd (lc_pos c) of [] \<Rightarrow> None | x # _ \<Rightarrow> Some x)),
      cu_Value = (\<lambda>c. map_option snd (case snd (lc_pos c) of [] \<Rightarrow> None | x # _ \<Rightarrow> Some x)),
      cu_Error = (\<lambda>c. None),
      cu_Close = (\<lambda>c. c)\<rparr>"

interpretation list_cu: cursor_laws list_cursor_ops "\<lambda>c. True" lc_items lc_pos
  by unfold_locales (simp_all add: list_cursor_ops_def)

end
