(* ===== verification/GoLevelDB.thy ===== *)
theory GoLevelDB
  imports Cursor
begin

text \<open>
  \<open>goleveldb.go\<close>, \<open>goleveldb_iterator.go\<close> and \<open>goleveldb_batch.go\<close>: the backend over
  \<open>github.com/syndtr/goleveldb\<close>. The operations of that package are the argument \<open>ld\<close>, its
  iterators the argument's field \<open>ld_iter\<close>; their documented behaviour on a database that works
  without I/O errors is the locale \<open>goleveldb_laws\<close>.
\<close>

section \<open>The operations of the package\<close>

text \<open>The methods that move a \<open>goleveldb\<close> iterator answer whether it stands on a pair then.\<close>

record 'c goleveldb_iterator_ops =
  gi_First :: "'c \<Rightarrow> bool \<times> 'c"
  gi_Last :: "'c \<Rightarrow> bool \<times> 'c"
  gi_Seek :: "'c \<Rightarrow> slice \<Rightarrow> bool \<times> 'c"
  gi_Next :: "'c \<Rightarrow> bool \<times> 'c"
  gi_Prev :: "'c \<Rightarrow> bool \<times> 'c"
  gi_Valid :: "'c \<Rightarrow> bool"
  gi_Key :: "'c \<Rightarrow> slice"
  gi_Value :: "'c \<Rightarrow> slice"
  gi_Error :: "'c \<Rightarrow> error option"
  gi_Release :: "'c \<Rightarrow> 'c"

text \<open>The Boolean argument of the writing operations is the option \<open>Sync\<close>.\<close>

record ('d, 'c, 'w) goleveldb_ops =
  ld_Get :: "'d \<Rightarrow> slice \<Rightarrow> slice \<times> error option"
  ld_Put :: "'d \<Rightarrow> slice \<Rightarrow> slice \<Rightarrow> bool \<Rightarrow> 'd \<times> error option"
  ld_Delete :: "'d \<Rightarrow> slice \<Rightarrow> bool \<Rightarrow> 'd \<times> error option"
  ld_Write :: "'d \<Rightarrow> 'w \<Rightarrow> bool \<Rightarrow> 'd \<times> error option"
  ld_Close :: "'d \<Rightarrow> 'd \<times> error option"
  ld_GetProperty :: "'d \<Rightarrow> string \<Rightarrow> string \<times> error option"
  ld_CompactRange :: "'d \<Rightarrow> slice \<times> slice \<Rightarrow> 'd \<times> error option"
  ld_NewIterator :: "'d \<Rightarrow> (slice \<times> slice) option \<Rightarrow> 'c"
  ld_NewBatch :: 'w
  ld_BatchPut :: "'w \<Rightarrow> slice \<Rightarrow> slice \<Rightarrow> 'w"
  ld_BatchDelete :: "'w \<Rightarrow> slice \<Rightarrow> 'w"
  ld_ErrNotFound :: error
  ld_iter :: "'c goleveldb_iterator_ops"

section \<open>The database\<close>

record 'd GoLevelDB =
  gl_db :: 'd

definition NewGoLevelDBWithOpts ::
  "(string \<Rightarrow> 'o option \<Rightarrow> 'd + error) \<Rightarrow> string \<Rightarrow> string \<Rightarrow> 'o option \<Rightarrow> 'd GoLevelDB option \<times> error option" where
  "NewGoLevelDBWithOpts leveldb_OpenFile name dir o' =
     (let dbPath = filepath_Join [dir, name @ ''.db''] in
      case leveldb_OpenFile dbPath o' of
        Inr err \<Rightarrow> (None, Some err)
      | Inl db \<Rightarrow> (Some \<lparr>gl_db = db\<rparr>, None))"

definition NewGoLevelDB ::
  "(string \<Rightarrow> 'o option \<Rightarrow> 'd + error) \<Rightarrow> string \<Rightarrow> string \<Rightarrow> 'd GoLevelDB option \<times> error option" where
  "NewGoLevelDB leveldb_OpenFile name dir = NewGoLevelDBWithOpts leveldb_OpenFile name dir None"

definition GoLevelDB_Get ::
  "('d, 'c, 'w) goleveldb_ops \<Rightarrow> 'd GoLevelDB \<Rightarrow> slice \<Rightarrow> slice \<times> error option" where
  "GoLevelDB_Get ld db key =
     (if len key = 0 then (None, Some errKeyEmpty)
      else let (res, err) = ld_Get ld (gl_db db) key in
        if err \<noteq> None then if err = Some (ld_ErrNotFound ld) then (None, None) else (None, err)
        else (res, None))"

definition GoLevelDB_Has ::
  "('d, 'c, 'w) goleveldb_ops \<Rightarrow> 'd GoLevelDB \<Rightarrow> slice \<Rightarrow> bool \<times> error option" where
  "GoLevelDB_Has ld db key =
     (let (bytes, err) = GoLevelDB_Get ld db key in
      if err \<noteq> None then (False, err) else (bytes \<noteq> None, None))"

definition GoLevelDB_Set ::
  "('d, 'c, 'w) goleveldb_ops \<Rightarrow> 'd GoLevelDB \<Rightarrow> slice \<Rightarrow> slice \<Rightarrow> 'd GoLevelDB \<times> error option" where
  "GoLevelDB_Set ld db key value' =
     (if len key = 0 then (db, Some errKeyEmpty)
      else if value' = None then (db, Some errValueNil)
      else let (d, err) = ld_Put ld (gl_db db) key value' False in (db\<lparr>gl_db := d\<rparr>, err))"

definition GoLevelDB_SetSync ::
  "('d, 'c, 'w) goleveldb_ops \<Rightarrow> 'd GoLevelDB \<Rightarrow> slice \<Rightarrow> slice \<Rightarrow> 'd GoLevelDB \<times> error option" where
  "GoLevelDB_SetSync ld db key value' =
     (if len key = 0 then (db, Some errKeyEmpty)
      else if value' = None then (db, Some errValueNil)
      else let (d, err) = ld_Put ld (gl_db db) key value' True in (db\<lparr>gl_db := d\<rparr>, err))"

definition GoLevelDB_Delete ::
  "('d, 'c, 'w) goleveldb_ops \<Rightarrow> 'd GoLevelDB \<Rightarrow> slice \<Rightarrow> 'd GoLevelDB \<times> error option" where
  "GoLevelDB_Delete ld db key =
     (if len key = 0 then (db, Some errKeyEmpty)
      else let (d, err) = ld_Delete ld (gl_db db) key False in (db\<lparr>gl_db := d\<rparr>, err))"

definition GoLevelDB_DeleteSync ::
  "('d, 'c, 'w) goleveldb_ops \<Rightarrow> 'd GoLevelDB \<Rightarrow> slice \<Rightarrow> 'd GoLevelDB \<times> error option" where
  "GoLevelDB_DeleteSync ld db key =
     (if len key = 0 then (db, Some errKeyEmpty)
      else let (d, err) = ld_Delete ld (gl_db db) key True in (db\<lparr>gl_db := d\<rparr>, err))"

definition GoLevelDB_DB :: "'d GoLevelDB \<Rightarrow> 'd" where
  "GoLevelDB_DB db = gl_db db"

definition GoLevelDB_Close ::
  "('d, 'c, 'w) goleveldb_ops \<Rightarrow> 'd GoLevelDB \<Rightarrow> 'd GoLevelDB \<times> error option" where
  "GoLevelDB_Close ld db = (let (d, err) = ld_Close ld (gl_db db) in (db\<lparr>gl_db := d\<rparr>, err))"

text \<open>The loop of \<open>Print\<close> runs as long as the iterator of the package says that it moved.\<close>

partial_function (option) GoLevelDB_print_loop :: "'c goleveldb_iterator_ops \<Rightarrow> 'c \<Rightarrow> string \<Rightarrow> string res" where
  "GoLevelDB_print_loop gi itr out =
     (let (more, itr) = gi_Next gi itr in
      if more then GoLevelDB_print_loop gi itr (out @ print_pair (gi_Key gi itr, gi_Value gi itr)) else Ret out)"

definition GoLevelDB_Print ::
  "('d, 'c, 'w) goleveldb_ops \<Rightarrow> 'd GoLevelDB \<Rightarrow> (string \<times> error option) res" where
  "GoLevelDB_Print ld db =
     (let (str, err) = ld_GetProperty ld (gl_db db) ''leveldb.stats'' in
      if err \<noteq> None then Ret ([], err)
      else bindR (GoLevelDB_print_loop (ld_iter ld) (ld_NewIterator ld (gl_db db) None) (str @ [CHR 0x0A]))
             (\<lambda>out. Ret (out, None)))"

definition GoLevelDB_stat_keys :: "string list" where
  "GoLevelDB_stat_keys =
     [''leveldb.num-files-at-level{n}'', ''leveldb.stats'', ''leveldb.sstables'', ''leveldb.blockpool'',
      ''leveldb.cachedblock'', ''leveldb.openedtables'', ''leveldb.alivesnaps'', ''leveldb.aliveiters'']"

definition GoLevelDB_Stats :: "('d, 'c, 'w) goleveldb_ops \<Rightarrow> 'd GoLevelDB \<Rightarrow> strmap" where
  "GoLevelDB_Stats ld db =
     fold (\<lambda>key stats. let (str, err) = ld_GetProperty ld (gl_db db) key
             in if err = None then stats(key \<mapsto> str) else stats)
       GoLevelDB_stat_keys Map.empty"

definition GoLevelDB_ForceCompact ::
  "('d, 'c, 'w) goleveldb_ops \<Rightarrow> 'd GoLevelDB \<Rightarrow> slice \<Rightarrow> slice \<Rightarrow> 'd GoLevelDB \<times> error option" where
  "GoLevelDB_ForceCompact ld db start limit =
     (let (d, err) = ld_CompactRange ld (gl_db db) (start, limit) in (db\<lparr>gl_db := d\<rparr>, err))"

section \<open>The iterator\<close>

record 'c goLevelDBIterator =
  gli_source :: 'c
  gli_start :: slice
  gli_end :: slice
  gli_isReverse :: bool
  gli_isInvalid :: bool

definition newGoLevelDBIterator ::
  "'c goleveldb_iterator_ops \<Rightarrow> 'c \<Rightarrow> slice \<Rightarrow> slice \<Rightarrow> bool \<Rightarrow> 'c goLevelDBIterator" where
  "newGoLevelDBIterator gi source start end' isReverse =
     (let source =
        (if isReverse then
           if end' = None then snd (gi_Last gi source)
           else let (valid, source) = gi_Seek gi source end' in
             if valid then
               let eoakey = gi_Key gi source in
               if bytes_Compare end' eoakey \<le> 0 then snd (gi_Prev gi source) else source
             else snd (gi_Last gi source)
         else if start = None then snd (gi_First gi source)
         else snd (gi_Seek gi source start))
      in \<lparr>gli_source = source, gli_start = start, gli_end = end', gli_isReverse = isReverse,
          gli_isInvalid = False\<rparr>)"

definition goLevelDBIterator_Domain :: "'c goLevelDBIterator \<Rightarrow> slice \<times> slice" where
  "goLevelDBIterator_Domain itr = (gli_start itr, gli_end itr)"

definition goLevelDBIterator_Error :: "'c goleveldb_iterator_ops \<Rightarrow> 'c goLevelDBIterator \<Rightarrow> error option" where
  "goLevelDBIterator_Error gi itr = gi_Error gi (gli_source itr)"

definition goLevelDBIterator_Valid ::
  "'c goleveldb_iterator_ops \<Rightarrow> 'c goLevelDBIterator \<Rightarrow> bool \<times> 'c goLevelDBIterator" where
  "goLevelDBIterator_Valid gi itr =
     (if gli_isInvalid itr then (False, itr)
      else if goLevelDBIterator_Error gi itr \<noteq> None then (False, itr\<lparr>gli_isInvalid := True\<rparr>)
      else if \<not> gi_Valid gi (gli_source itr) then (False, itr\<lparr>gli_isInvalid := True\<rparr>)
      else let start = gli_start itr; end' = gli_end itr; key = gi_Key gi (gli_source itr) in
        if gli_isReverse itr then
          if start \<noteq> None \<and> bytes_Compare key start < 0 then (False, itr\<lparr>gli_isInvalid := True\<rparr>) else (True, itr)
        else if end' \<noteq> None \<and> bytes_Compare end' key \<le> 0 then (False, itr\<lparr>gli_isInvalid := True\<rparr>) else (True, itr))"

text \<open>\<open>assertIsValid\<close> works on a copy of the iterator, so what it learns is not kept.\<close>

definition goLevelDBIterator_assertIsValid :: "'c goleveldb_iterator_ops \<Rightarrow> 'c goLevelDBIterator \<Rightarrow> unit res" where
  "goLevelDBIterator_assertIsValid gi itr =
     (if \<not> fst (goLevelDBIterator_Valid gi itr) then Panic ''iterator is invalid'' else Ret ())"

definition goLevelDBIterator_Key ::
  "'c goleveldb_iterator_ops \<Rightarrow> 'c goLevelDBIterator \<Rightarrow> (slice \<times> 'c goLevelDBIterator) res" where
  "goLevelDBIterator_Key gi itr =
     bindR (goLevelDBIterator_assertIsValid gi itr) (\<lambda>_. Ret (cp (gi_Key gi (gli_source itr)), itr))"

definition goLevelDBIterator_Value ::
  "'c goleveldb_iterator_ops \<Rightarrow> 'c goLevelDBIterator \<Rightarrow> (slice \<times> 'c goLevelDBIterator) res" where
  "goLevelDBIterator_Value gi itr =
     bindR (goLevelDBIterator_assertIsValid gi itr) (\<lambda>_. Ret (cp (gi_Value gi (gli_source itr)), itr))"

definition goLevelDBIterator_Next ::
  "'c goleveldb_iterator_ops \<Rightarrow> 'c goLevelDBIterator \<Rightarrow> 'c goLevelDBIterator res" where
  "goLevelDBIterator_Next gi itr =
     bindR (goLevelDBIterator_assertIsValid gi itr) (\<lambda>_.
       if gli_isReverse itr then Ret (itr\<lparr>gli_source := snd (gi_Prev gi (gli_source itr))\<rparr>)
       else Ret (itr\<lparr>gli_source := snd (gi_Next gi (gli_source itr))\<rparr>))"

definition goLevelDBIterator_Close ::
  "'c goleveldb_iterator_ops \<Rightarrow> 'c goLevelDBIterator \<Rightarrow> 'c goLevelDBIterator \<times> error option" where
  "goLevelDBIterator_Close gi itr = (itr\<lparr>gli_source := gi_Release gi (gli_source itr)\<rparr>, None)"

definition goLevelDBIterator_iface :: "'c goleveldb_iterator_ops \<Rightarrow> 'c goLevelDBIterator Iterator" where
  "goLevelDBIterator_iface gi =
     \<lparr>I_Domain = goLevelDBIterator_Domain, I_Valid = (\<lambda>itr. Ret (goLevelDBIterator_Valid gi itr)),
      I_Next = goLevelDBIterator_Next gi, I_Key = goLevelDBIterator_Key gi,
      I_Value = goLevelDBIterator_Value gi, I_Error = goLevelDBIterator_Error gi,
      I_Close = goLevelDBIterator_Close gi\<rparr>"

definition GoLevelDB_Iterator ::
  "('d, 'c, 'w) goleveldb_ops \<Rightarrow> 'd GoLevelDB \<Rightarrow> slice \<Rightarrow> slice \<Rightarrow> ('c goLevelDBIterator option \<times> error option) res" where
  "GoLevelDB_Iterator ld db start end' =
     (if blank start \<or> blank end' then Ret (None, Some errKeyEmpty)
      else let itr = ld_NewIterator ld (gl_db db) (Some (start, end'))
        in Ret (Some (newGoLevelDBIterator (ld_iter ld) itr start end' False), None))"

definition GoLevelDB_ReverseIterator ::
  "('d, 'c, 'w) goleveldb_ops \<Rightarrow> 'd GoLevelDB \<Rightarrow> slice \<Rightarrow> slice \<Rightarrow> ('c goLevelDBIterator option \<times> error option) res" where
  "GoLevelDB_ReverseIterator ld db start end' =
     (if blank start \<or> blank end' then Ret (None, Some errKeyEmpty)
      else let itr = ld_NewIterator ld (gl_db db) (Some (start, end'))
        in Ret (Some (newGoLevelDBIterator (ld_iter ld) itr start end' True), None))"

section \<open>The batch\<close>

record 'w goLevelDBBatch =
  glb_batch :: "'w option"

definition newGoLevelDBBatch :: "('d, 'c, 'w) goleveldb_ops \<Rightarrow> 'd GoLevelDB \<Rightarrow> 'w goLevelDBBatch" where
  "newGoLevelDBBatch ld db = \<lparr>glb_batch = Some (ld_NewBatch ld)\<rparr>"

definition goLevelDBBatch_Set ::
  "('d, 'c, 'w) goleveldb_ops \<Rightarrow> 'w goLevelDBBatch \<Rightarrow> slice \<Rightarrow> slice \<Rightarrow> 'w goLevelDBBatch \<times> error option" where
  "goLevelDBBatch_Set ld b key value' =
     (if len key = 0 then (b, Some errKeyEmpty)
      else if value' = None then (b, Some errValueNil)
      else case glb_batch b of
             None \<Rightarrow> (b, Some errBatchClosed)
           | Some w \<Rightarrow> (b\<lparr>glb_batch := Some (ld_BatchPut ld w key value')\<rparr>, None))"

definition goLevelDBBatch_Delete ::
  "('d, 'c, 'w) goleveldb_ops \<Rightarrow> 'w goLevelDBBatch \<Rightarrow> slice \<Rightarrow> 'w goLevelDBBatch \<times> error option" where
  "goLevelDBBatch_Delete ld b key =
     (if len key = 0 then (b, Some errKeyEmpty)
      else case glb_batch b of
             None \<Rightarrow> (b, Some errBatchClosed)
           | Some w \<Rightarrow> (b\<lparr>glb_batch := Some (ld_BatchDelete ld w key)\<rparr>, None))"

text \<open>
  \<open>Close\<close> also resets the batch object of the package, which nobody can reach afterwards.
\<close>

definition goLevelDBBatch_Close :: "'w goLevelDBBatch \<Rightarrow> 'w goLevelDBBatch \<times> error option" where
  "goLevelDBBatch_Close b = (if glb_batch b \<noteq> None then (b\<lparr>glb_batch := None\<rparr>, None) else (b, None))"

definition goLevelDBBatch_write ::
  "('d, 'c, 'w) goleveldb_ops \<Rightarrow> 'w goLevelDBBatch \<Rightarrow> 'd GoLevelDB \<Rightarrow> bool \<Rightarrow>
     'w goLevelDBBatch \<times> 'd GoLevelDB \<times> error option" where
  "goLevelDBBatch_write ld b db sync =
     (case glb_batch b of
        None \<Rightarrow> (b, db, Some errBatchClosed)
      | Some w \<Rightarrow>
          (let (d, err) = ld_Write ld (gl_db db) w sync in
           if err \<noteq> None then (b, db\<lparr>gl_db := d\<rparr>, err)
           else let (b', err) = goLevelDBBatch_Close b in (b', db\<lparr>gl_db := d\<rparr>, err)))"

definition goLevelDBBatch_Write ::
  "('d, 'c, 'w) goleveldb_ops \<Rightarrow> 'w goLevelDBBatch \<Rightarrow> 'd GoLevelDB \<Rightarrow>
     'w goLevelDBBatch \<times> 'd GoLevelDB \<times> error option" where
  "goLevelDBBatch_Write ld b db = goLevelDBBatch_write ld b db False"

definition goLevelDBBatch_WriteSync ::
  "('d, 'c, 'w) goleveldb_ops \<Rightarrow> 'w goLevelDBBatch \<Rightarrow> 'd GoLevelDB \<Rightarrow>
     'w goLevelDBBatch \<times> 'd GoLevelDB \<times> error option" where
  "goLevelDBBatch_WriteSync ld b db = goLevelDBBatch_write ld b db True"

definition goLevelDBBatch_iface :: "('d, 'c, 'w) goleveldb_ops \<Rightarrow> ('d GoLevelDB, 'w goLevelDBBatch) Batch" where
  "goLevelDBBatch_iface ld =
     \<lparr>B_Set = goLevelDBBatch_Set ld, B_Delete = goLevelDBBatch_Delete ld, B_Write = goLevelDBBatch_Write ld,
      B_WriteSync = goLevelDBBatch_WriteSync ld, B_Close = goLevelDBBatch_Close\<rparr>"

definition GoLevelDB_NewBatch :: "('d, 'c, 'w) goleveldb_ops \<Rightarrow> 'd GoLevelDB \<Rightarrow> 'w goLevelDBBatch" where
  "GoLevelDB_NewBatch ld db = newGoLevelDBBatch ld db"

definition GoLevelDB_iface ::
  "('d, 'c, 'w) goleveldb_ops \<Rightarrow> ('d GoLevelDB, 'c goLevelDBIterator, 'w goLevelDBBatch) DB" where
  "GoLevelDB_iface ld =
     \<lparr>D_Get = GoLevelDB_Get ld, D_Has = GoLevelDB_Has ld, D_Set = GoLevelDB_Set ld,
      D_SetSync = GoLevelDB_SetSync ld, D_Delete = GoLevelDB_Delete ld, D_DeleteSync = GoLevelDB_DeleteSync ld,
      D_Iterator = GoLevelDB_Iterator ld, D_ReverseIterator = GoLevelDB_ReverseIterator ld,
      D_Close = GoLevelDB_Close ld, D_NewBatch = GoLevelDB_NewBatch ld, D_Print = GoLevelDB_Print ld,
      D_Stats = GoLevelDB_Stats ld, D_itr = goLevelDBIterator_iface (ld_iter ld),
      D_bat = goLevelDBBatch_iface ld\<rparr>"

lemmas GoLevelDB_defs [op_defs] =
  GoLevelDB_Get_def GoLevelDB_Has_def GoLevelDB_Set_def GoLevelDB_SetSync_def GoLevelDB_Delete_def
  GoLevelDB_DeleteSync_def GoLevelDB_Iterator_def GoLevelDB_ReverseIterator_def GoLevelDB_NewBatch_def
  newGoLevelDBBatch_def

lemmas goLevelDBIterator_defs [op_defs] =
  goLevelDBIterator_iface_def goLevelDBIterator_Domain_def goLevelDBIterator_assertIsValid_def
  goLevelDBIterator_Key_def goLevelDBIterator_Value_def goLevelDBIterator_Next_def goLevelDBIterator_Close_def

lemmas goLevelDBBatch_defs [op_defs] =
  goLevelDBBatch_iface_def goLevelDBBatch_Set_def goLevelDBBatch_Delete_def goLevelDBBatch_Close_def
  goLevelDBBatch_write_def goLevelDBBatch_Write_def goLevelDBBatch_WriteSync_def

section \<open>Abstraction\<close>

text \<open>The iterator of the package as a cursor, without the answers of the methods that move it.\<close>

definition plain_cursor :: "'c goleveldb_iterator_ops \<Rightarrow> 'c cursor_ops" where
  "plain_cursor gi =
     \<lparr>cu_SeekToFirst = (\<lambda>c. snd (gi_First gi c)), cu_SeekToLast = (\<lambda>c. snd (gi_Last gi c)),
      cu_Seek = (\<lambda>c k. snd (gi_Seek gi c k)), cu_Next = (\<lambda>c. snd (gi_Next gi c)),
      cu_Prev = (\<lambda>c. snd (gi_Prev gi c)), cu_Valid = gi_Valid gi, cu_Key = gi_Key gi, cu_Value = gi_Value gi,
      cu_Error = gi_Error gi, cu_Close = gi_Release gi\<rparr>"

definition gli_ok :: "('c \<Rightarrow> bool) \<Rightarrow> 'c goLevelDBIterator \<Rightarrow> bool" where
  "gli_ok cok itr \<longleftrightarrow> cok (gli_source itr)"

definition gli_rest :: "('c \<Rightarrow> zipper) \<Rightarrow> 'c goLevelDBIterator \<Rightarrow> kv list" where
  "gli_rest pos itr =
     (if gli_isInvalid itr then []
      else walk_rest (gli_isReverse itr) (gli_start itr) (gli_end itr) (pos (gli_source itr)))"

definition glb_ok :: "('w \<Rightarrow> kvop list) \<Rightarrow> 'w goLevelDBBatch \<Rightarrow> bool" where
  "glb_ok wops b \<longleftrightarrow> pred_option (\<lambda>w. list_all (\<lambda>p. kvop_key p \<noteq> []) (wops w)) (glb_batch b)"

definition glb_ops :: "('w \<Rightarrow> kvop list) \<Rightarrow> 'w goLevelDBBatch \<Rightarrow> kvop list option" where
  "glb_ops wops b = map_option wops (glb_batch b)"

section \<open>The documented behaviour of the package\<close>

locale goleveldb_laws = cursor_laws "plain_cursor (ld_iter ld)" cok items pos
  for ld :: "('d, 'c, 'w) goleveldb_ops" and cok :: "'c \<Rightarrow> bool" and items :: "'c \<Rightarrow> kv list"
    and pos :: "'c \<Rightarrow> zipper" +
  fixes dok :: "'d \<Rightarrow> bool"
    and dents :: "'d \<Rightarrow> kv list"
    and wops :: "'w \<Rightarrow> kvop list"
  assumes seek_answer: "cok c \<Longrightarrow> fst (gi_Seek (ld_iter ld) c key) \<longleftrightarrow> gi_Valid (ld_iter ld) (snd (gi_Seek (ld_iter ld) c key))"
    and next_answer: "cok c \<Longrightarrow> fst (gi_Next (ld_iter ld) c) \<longleftrightarrow> gi_Valid (ld_iter ld) (snd (gi_Next (ld_iter ld) c))"
    and dents_wf: "dok d \<Longrightarrow> kv_wf (dents d)"
    and Get: "dok d \<Longrightarrow> ld_Get ld d key =
      (case map_of (dents d) (sl key) of Some v \<Rightarrow> (Some v, None) | None \<Rightarrow> (None, Some (ld_ErrNotFound ld)))"
    and Put: "dok d \<Longrightarrow> len key \<noteq> 0 \<Longrightarrow> ld_Put ld d key value' sync = (d', e) \<Longrightarrow>
      e = None \<and> dok d' \<and> dents d' = kv_set (sl key) (sl value') (dents d)"
    and Delete: "dok d \<Longrightarrow> ld_Delete ld d key sync = (d', e) \<Longrightarrow>
      e = None \<and> dok d' \<and> dents d' = kv_del (sl key) (dents d)"
    and Write: "dok d \<Longrightarrow> list_all (\<lambda>p. kvop_key p \<noteq> []) (wops w) \<Longrightarrow> ld_Write ld d w sync = (d', e) \<Longrightarrow>
      e = None \<and> dok d' \<and> dents d' = kv_apply_all (wops w) (dents d)"
    and NewIterator: "dok d \<Longrightarrow> cok (ld_NewIterator ld d slc) \<and>
      items (ld_NewIterator ld d slc) = (case slc of None \<Rightarrow> dents d | Some (s, l) \<Rightarrow> kv_range s l (dents d))"
    and fresh_next: "dok d \<Longrightarrow> snd (gi_Next (ld_iter ld) (ld_NewIterator ld d slc))
      = snd (gi_First (ld_iter ld) (ld_NewIterator ld d slc))"
    and NewBatch: "wops (ld_NewBatch ld) = []"
    and BatchPut: "wops (ld_BatchPut ld w key value') = wops w @ [Put (sl key) (sl value')]"
    and BatchDelete: "wops (ld_BatchDelete ld w key) = wops w @ [Del (sl key)]"
begin

lemma Valid_eq:
  "goLevelDBIterator_Valid (ld_iter ld) itr =
     (if \<not> gli_isInvalid itr \<and> cu_live (plain_cursor (ld_iter ld)) (gli_isReverse itr) (gli_start itr) (gli_end itr) (gli_source itr)
      then (True, itr) else (False, itr\<lparr>gli_isInvalid := True\<rparr>))"
  by (cases itr) (simp add: goLevelDBIterator_Valid_def goLevelDBIterator_Error_def cu_live_def plain_cursor_def Let_def)

lemma Valid_rest:
  "gli_ok cok itr \<Longrightarrow> goLevelDBIterator_Valid (ld_iter ld) itr =
     (gli_rest pos itr \<noteq> [], if gli_rest pos itr \<noteq> [] then itr else itr\<lparr>gli_isInvalid := True\<rparr>)"
  by (auto simp: Valid_eq cu_live_iff gli_ok_def gli_rest_def)

lemma iterator_laws: "iterator_contract (goLevelDBIterator_iface (ld_iter ld)) (gli_ok cok) (gli_rest pos)"
proof (unfold_locales, goal_cases)
  case (1 itr)
  then show ?case
    by (auto simp: goLevelDBIterator_defs Valid_rest it_moved_def gli_ok_def) (simp_all add: gli_rest_def)
next
  case (2 itr k v xs)
  then show ?case
    using cu_live_head(1) [of "gli_source itr" "gli_isReverse itr" "gli_start itr" "gli_end itr" k v xs]
    by (simp add: goLevelDBIterator_defs Valid_rest it_moved_def)
       (auto simp: gli_ok_def gli_rest_def plain_cursor_def split: if_splits)
next
  case (3 itr k v xs)
  then show ?case
    using cu_live_head(2) [of "gli_source itr" "gli_isReverse itr" "gli_start itr" "gli_end itr" k v xs]
    by (simp add: goLevelDBIterator_defs Valid_rest it_moved_def)
       (auto simp: gli_ok_def gli_rest_def plain_cursor_def split: if_splits)
next
  case (4 itr x xs)
  then show ?case
    using cu_live_step [of "gli_source itr" "gli_isReverse itr" "gli_start itr" "gli_end itr" x xs]
    by (simp add: goLevelDBIterator_defs Valid_rest it_moved_def)
       (auto simp: gli_ok_def gli_rest_def plain_cursor_def split: if_splits)
next
  case (8 itr)
  then show ?case
    using cu_error [of "gli_source itr"]
    by (simp add: goLevelDBIterator_iface_def goLevelDBIterator_Error_def gli_ok_def plain_cursor_def)
qed (simp_all add: goLevelDBIterator_defs Valid_rest)

lemma new_iterator_at:
  assumes "cok c" and "kv_sorted (items c)"
  shows "gli_ok cok (newGoLevelDBIterator (ld_iter ld) c start end' r)"
    and "gli_rest pos (newGoLevelDBIterator (ld_iter ld) c start end' r) = kv_scan r start end' (items c)"
    and "goLevelDBIterator_Domain (newGoLevelDBIterator (ld_iter ld) c start end' r) = (start, end')"
proof -
  let ?itr = "newGoLevelDBIterator (ld_iter ld) c start end' r"
  have "cok (gli_source ?itr)
      \<and> walk_rest r start end' (pos (gli_source ?itr)) = kv_scan r start end' (items c)"
    by (rule cu_place [OF assms])
       (simp add: newGoLevelDBIterator_def plain_cursor_def Let_def split_beta seek_answer [OF assms(1)])
  then show "gli_ok cok ?itr" and "gli_rest pos ?itr = kv_scan r start end' (items c)"
    by (simp_all add: gli_ok_def gli_rest_def newGoLevelDBIterator_def)
qed (simp add: newGoLevelDBIterator_def goLevelDBIterator_Domain_def)

lemma new_iterator:
  assumes "dok (gl_db db)"
    and "itr = newGoLevelDBIterator (ld_iter ld) (ld_NewIterator ld (gl_db db) (Some (start, end'))) start end' r"
  shows "gli_ok cok itr" and "gli_rest pos itr = kv_scan r start end' (dents (gl_db db))"
    and "goLevelDBIterator_Domain itr = (start, end')"
  using new_iterator_at [of "ld_NewIterator ld (gl_db db) (Some (start, end'))"] NewIterator [OF assms(1)]
    dents_wf [OF assms(1)]
  by (simp_all add: assms(2) kv_sorted_range kv_wf_def kv_scan_range)

lemma GoLevelDB_db: "kv_db (GoLevelDB_iface ld) (gli_ok cok) (gli_rest pos)
  (\<lambda>db. dok (gl_db db)) (\<lambda>db. dents (gl_db db)) any_size"
proof (rule kv_db.intro [OF _ kv_db_axioms.intro], goal_cases)
  case 1
  show ?case by (simp add: GoLevelDB_iface_def iterator_laws)
next
  case (5 db k v db' e)
  then show ?case
    by (auto simp: GoLevelDB_iface_def GoLevelDB_Set_def set_error_def Let_def split: if_splits prod.splits dest!: Put [rotated 2])
next
  case (6 db k v db' e)
  then show ?case
    by (auto simp: GoLevelDB_iface_def GoLevelDB_SetSync_def set_error_def Let_def split: if_splits prod.splits dest!: Put [rotated 2])
next
  case (7 db k db' e)
  then show ?case
    by (auto simp: GoLevelDB_iface_def GoLevelDB_Delete_def key_error_def Let_def split: if_splits prod.splits dest!: Delete [rotated])
next
  case (8 db k db' e)
  then show ?case
    by (auto simp: GoLevelDB_iface_def GoLevelDB_DeleteSync_def key_error_def Let_def split: if_splits prod.splits dest!: Delete [rotated])
next
  case (10 db start end')
  then show ?case
    using new_iterator [OF 10(1) refl, of start end' False]
    by (auto simp: GoLevelDB_iface_def GoLevelDB_Iterator_def goLevelDBIterator_iface_def domain_error_def split: if_splits)
next
  case (12 db start end')
  then show ?case
    using new_iterator [OF 12(1) refl, of start end' True]
    by (auto simp: GoLevelDB_iface_def GoLevelDB_ReverseIterator_def goLevelDBIterator_iface_def domain_error_def split: if_splits)
qed (auto simp: GoLevelDB_iface_def GoLevelDB_defs domain_error_def glb_ok_def glb_ops_def NewBatch dents_wf Get
       split: option.splits if_splits)

lemma GoLevelDB_batch: "kv_batch (D_bat (GoLevelDB_iface ld)) (D_NewBatch (GoLevelDB_iface ld))
  (\<lambda>db. dok (gl_db db)) (\<lambda>db. dents (gl_db db)) (glb_ok wops) (glb_ops wops) any_size"
proof (rule kv_batch.intro, goal_cases)
  case (2 b k v b' e)
  then show ?case
    by (auto simp: GoLevelDB_iface_def goLevelDBBatch_defs glb_ok_def glb_ops_def set_error_def batch_error_def BatchPut len_def
        split: if_splits option.splits)
next
  case (3 b k b' e)
  then show ?case
    by (auto simp: GoLevelDB_iface_def goLevelDBBatch_defs glb_ok_def glb_ops_def key_error_def batch_error_def BatchDelete len_def
        split: if_splits option.splits)
next
  case (4 b db b' db' e)
  then show ?case
    by (auto simp: GoLevelDB_iface_def goLevelDBBatch_defs glb_ok_def glb_ops_def Let_def
        split: option.splits prod.splits if_splits dest!: Write [rotated 2])
next
  case (5 b db b' db' e)
  then show ?case
    by (auto simp: GoLevelDB_iface_def goLevelDBBatch_defs glb_ok_def glb_ops_def Let_def
        split: option.splits prod.splits if_splits dest!: Write [rotated 2])
next
  case (6 b b' e)
  then show ?case
    by (auto simp: GoLevelDB_iface_def goLevelDBBatch_defs glb_ok_def glb_ops_def split: if_splits)
qed (auto simp: GoLevelDB_iface_def GoLevelDB_defs domain_error_def glb_ok_def glb_ops_def NewBatch dents_wf Get
       split: option.splits if_splits)

lemma GoLevelDB_store:
  "kv_store (GoLevelDB_iface ld) (gli_ok cok) (gli_rest pos) (\<lambda>db. dok (gl_db db)) (\<lambda>db. dents (gl_db db))
     (glb_ok wops) (glb_ops wops) any_size"
  by (rule kv_store.intro [OF GoLevelDB_db GoLevelDB_batch])

end

sublocale goleveldb_laws \<subseteq> golevel: kv_store "GoLevelDB_iface ld" "gli_ok cok" "gli_rest pos"
  "\<lambda>db. dok (gl_db db)" "\<lambda>db. dents (gl_db db)" "glb_ok wops" "glb_ops wops" any_size
  by (rule GoLevelDB_store)

context goleveldb_laws
begin

text \<open>The loop of \<open>Print\<close> ends after the last pair.\<close>

lemma print_loop_rest:
  assumes "cok c" and "cok (snd (gi_Next (ld_iter ld) c))"
    and "zip_items False (pos (snd (gi_Next (ld_iter ld) c))) = xs"
  shows "GoLevelDB_print_loop (ld_iter ld) c out =
    Ret (out @ concat (map (\<lambda>(k, v). print_pair (Some k, Some v)) xs))"
  using assms
proof (induction xs arbitrary: c out)
  case Nil
  then have "\<not> fst (gi_Next (ld_iter ld) c)"
    using next_answer [OF Nil.prems(1)] cu_valid [OF Nil.prems(2)]
    by (metis cursor_ops.select_convs(6) plain_cursor_def zip_items_Nil)
  then show ?case by (simp add: GoLevelDB_print_loop.simps split_beta Let_def)
next
  case (Cons x xs)
  let ?c = "snd (gi_Next (ld_iter ld) c)"
  obtain k v where x: "x = (k, v)" by (cases x)
  then have at: "gi_Valid (ld_iter ld) ?c" "gi_Key (ld_iter ld) ?c = Some k" "gi_Value (ld_iter ld) ?c = Some v"
    using cu_head [OF Cons.prems(2), of False k v xs] Cons.prems(3) by (simp_all add: plain_cursor_def)
  have "cok (snd (gi_Next (ld_iter ld) ?c))" "zip_items False (pos (snd (gi_Next (ld_iter ld) ?c))) = xs"
    using cu_step [OF Cons.prems(2), of False x xs] Cons.prems(3) by (simp_all add: plain_cursor_def)
  note rest = Cons.IH [OF Cons.prems(2) this]
  show ?case
    using at x next_answer [OF Cons.prems(1)]
    by (subst GoLevelDB_print_loop.simps) (simp add: case_prod_unfold Let_def rest)
qed

lemma Print_all:
  assumes "dok (gl_db db)" and "ld_GetProperty ld (gl_db db) ''leveldb.stats'' = (str, None)"
  shows "GoLevelDB_Print ld db = Ret (str @ [CHR 0x0A] @
    concat (map (\<lambda>(k, v). print_pair (Some k, Some v)) (dents (gl_db db))), None)"
proof -
  let ?c = "ld_NewIterator ld (gl_db db) None"
  have c: "cok ?c" "items ?c = dents (gl_db db)" using NewIterator [OF assms(1)] by simp_all
  have "cok (snd (gi_Next (ld_iter ld) ?c))" "zip_items False (pos (snd (gi_Next (ld_iter ld) ?c))) = dents (gl_db db)"
    using cu_first [OF c(1)] c(2) fresh_next [OF assms(1)] by (simp_all add: plain_cursor_def zip_items_first)
  from print_loop_rest [OF c(1) this] assms(2) show ?thesis by (simp add: GoLevelDB_Print_def)
qed

end

section \<open>An ordered list as the package's database\<close>

text \<open>The flag of an iterator says that it is fresh: the first \<open>Next\<close> moves it to the first pair.\<close>

definition list_goleveldb_iter :: "(bool \<times> list_cursor) goleveldb_iterator_ops" where
  "list_goleveldb_iter =
     (let cu = list_cursor_ops; at = (\<lambda>c. (cu_Valid cu c, (False, c))) in
      \<lparr>gi_First = (\<lambda>c. at (cu_SeekToFirst cu (snd c))), gi_Last = (\<lambda>c. at (cu_SeekToLast cu (snd c))),
       gi_Seek = (\<lambda>c k. at (cu_Seek cu (snd c) k)),
       gi_Next = (\<lambda>c. at (if fst c then cu_SeekToFirst cu (snd c) else cu_Next cu (snd c))),
       gi_Prev = (\<lambda>c. at (cu_Prev cu (snd c))),
       gi_Valid = (\<lambda>c. cu_Valid cu (snd c)), gi_Key = (\<lambda>c. cu_Key cu (snd c)), gi_Value = (\<lambda>c. cu_Value cu (snd c)),
       gi_Error = (\<lambda>c. None), gi_Release = (\<lambda>c. c)\<rparr>)"

definition list_goleveldb :: "(kv list, bool \<times> list_cursor, kvop list) goleveldb_ops" where
  "list_goleveldb =
     \<lparr>ld_Get = (\<lambda>d k. case map_of d (sl k) of Some v \<Rightarrow> (Some v, None) | None \<Rightarrow> (None, Some (Foreign ''leveldb: not found''))),
      ld_Put = (\<lambda>d k v sync. (kv_set (sl k) (sl v) d, None)), ld_Delete = (\<lambda>d k sync. (kv_del (sl k) d, None)),
      ld_Write = (\<lambda>d w sync. (kv_apply_all w d, None)), ld_Close = (\<lambda>d. (d, None)),
      ld_GetProperty = (\<lambda>d name. (''ok'', None)), ld_CompactRange = (\<lambda>d range. (d, None)),
      ld_NewIterator = (\<lambda>d r. (True, \<lparr>lc_items = (case r of None \<Rightarrow> d | Some (s, l) \<Rightarrow> kv_range s l d), lc_pos = ([], [])\<rparr>)),
      ld_NewBatch = [], ld_BatchPut = (\<lambda>w k v. w @ [Put (sl k) (sl v)]), ld_BatchDelete = (\<lambda>w k. w @ [Del (sl k)]),
      ld_ErrNotFound = Foreign ''leveldb: not found'', ld_iter = list_goleveldb_iter\<rparr>"

interpretation list_ld: goleveldb_laws list_goleveldb "\<lambda>c. fst c \<longrightarrow> snd (lc_pos (snd c)) = []" "\<lambda>c. lc_items (snd c)"
  "\<lambda>c. lc_pos (snd c)" kv_wf "\<lambda>d. d" "\<lambda>w. w"
  by unfold_locales
     (auto simp: list_goleveldb_def list_goleveldb_iter_def plain_cursor_def list_cursor_ops_def Let_def
       kv_simps kv_wf_apply_all len_def list_all_iff split: option.splits)

section \<open>Properties\<close>

text \<open>
  C26. A GoLevelDB over a database of the package that works without I/O errors answers every
  sequence of calls (reads, writes, scans in both directions, batches) as the ordered list of
  pairs does.
\<close>

theorem GoLevelDB_refines_ordered_map:
  assumes "goleveldb_laws ld cok items pos dok dents wops" and "dok (gl_db db)"
  shows "\<exists>db'. db_calls (GoLevelDB_iface ld) db cs = Ret (db', snd (spec_calls (dents (gl_db db)) cs))
    \<and> dents (gl_db db') = fst (spec_calls (dents (gl_db db)) cs)"
  using kv_store.db_calls_spec [OF goleveldb_laws.GoLevelDB_store [OF assms(1)] assms(2), of cs] by auto

theorem GoLevelDB_refines_ordered_map_witness:
  "\<exists>db'. db_calls (GoLevelDB_iface list_goleveldb) \<lparr>gl_db = [([1], [10]), ([4], [40])]\<rparr>
      [CSet True (Some [3]) (Some []), CScan True (Some [2]) (Some [4]), CGet (Some [9])] =
      Ret (db', [AErr None, AScan [(Some [3], Some [])] None, AGet None None])
    \<and> gl_db db' = [([1], [10]), ([3], []), ([4], [40])]"
proof -
  have "kv_wf (gl_db \<lparr>gl_db = [([1], [10]), ([4], [40])]\<rparr>)" by (simp add: kv_wf_def)
  from GoLevelDB_refines_ordered_map [OF list_ld.goleveldb_laws_axioms this,
      of "[CSet True (Some [3]) (Some []), CScan True (Some [2]) (Some [4]), CGet (Some [9])]"]
  show ?thesis
    by (simp add: set_error_def domain_error_def kv_set_def kv_scan_def kv_range_def IsKeyInDomain_iff)
qed

text \<open>
  \<open>Print\<close> of a GoLevelDB returns and writes the statistics line and then every pair of the
  database, once and in ascending key order.
\<close>

theorem GoLevelDB_Print_prints_all:
  assumes "goleveldb_laws ld cok items pos dok dents wops" and "dok (gl_db db)"
    and "ld_GetProperty ld (gl_db db) ''leveldb.stats'' = (str, None)"
  shows "GoLevelDB_Print ld db = Ret (str @ [CHR 0x0A] @
    concat (map (\<lambda>(k, v). print_pair (Some k, Some v)) (dents (gl_db db))), None)"
  by (rule goleveldb_laws.Print_all [OF assms])

theorem GoLevelDB_Print_prints_all_witness:
  "GoLevelDB_Print list_goleveldb \<lparr>gl_db = [([1], [0xAB])]\<rparr> =
     Ret (''ok'' @ [CHR 0x0A] @ ''[01]:'' @ [CHR 0x09] @ ''[AB]'' @ [CHR 0x0A], None)"
proof -
  have "kv_wf (gl_db \<lparr>gl_db = [([1], [0xAB])]\<rparr>)" by (simp add: kv_wf_def)
  moreover have "ld_GetProperty list_goleveldb (gl_db \<lparr>gl_db = [([1], [0xAB])]\<rparr>) ''leveldb.stats'' = (''ok'', None)"
    by (simp add: list_goleveldb_def)
  moreover have "print_pair (Some [1], Some [0xAB]) = ''[01]:'' @ [CHR 0x09] @ ''[AB]'' @ [CHR 0x0A]"
    by code_simp
  ultimately show ?thesis
    using GoLevelDB_Print_prints_all [OF list_ld.goleveldb_laws_axioms, of "\<lparr>gl_db = [([1], [0xAB])]\<rparr>" "''ok''"]
    by simp
qed

end
