(* ===== verification/CLevelDB.thy ===== *)
theory CLevelDB
  imports Cursor
begin

text \<open>
  \<open>cleveldb.go\<close>, \<open>cleveldb_iterator.go\<close> and \<open>cleveldb_batch.go\<close>: the backend over the C
  library LevelDB through \<open>github.com/jmhodges/levigo\<close>. The operations of that package are the
  argument \<open>lv\<close>; their documented behaviour on a database that works without I/O errors is the
  locale \<open>levigo_laws\<close>. The methods of the iterator have value receivers, so \<open>Valid\<close> never
  records that the iterator became invalid; only the position of the source changes.
\<close>

section \<open>The operations of the package\<close>

text \<open>The options of \<open>levigo.Open\<close> that the code sets.\<close>

record levigo_Options =
  lo_Cache :: "nat option"
  lo_CreateIfMissing :: bool

record ('d, 'r, 'o, 'c, 'w) levigo_ops =
  lv_Open :: "string \<Rightarrow> levigo_Options \<Rightarrow> 'd + error"
  lv_NewReadOptions :: 'r
  lv_NewWriteOptions :: 'o
  lv_SetSync :: "'o \<Rightarrow> bool \<Rightarrow> 'o"
  lv_CloseReadOptions :: "'r \<Rightarrow> 'r"
  lv_CloseWriteOptions :: "'o \<Rightarrow> 'o"
  lv_Get :: "'d \<Rightarrow> 'r \<Rightarrow> slice \<Rightarrow> slice \<times> error option"
  lv_Put :: "'d \<Rightarrow> 'o \<Rightarrow> slice \<Rightarrow> slice \<Rightarrow> 'd \<times> error option"
  lv_Delete :: "'d \<Rightarrow> 'o \<Rightarrow> slice \<Rightarrow> 'd \<times> error option"
  lv_Write :: "'d \<Rightarrow> 'o \<Rightarrow> 'w \<Rightarrow> 'd \<times> error option"
  lv_Close :: "'d \<Rightarrow> 'd"
  lv_PropertyValue :: "'d \<Rightarrow> string \<Rightarrow> string"
  lv_NewIterator :: "'d \<Rightarrow> 'r \<Rightarrow> 'c"
  lv_NewWriteBatch :: 'w
  lv_BatchPut :: "'w \<Rightarrow> slice \<Rightarrow> slice \<Rightarrow> 'w"
  lv_BatchDelete :: "'w \<Rightarrow> slice \<Rightarrow> 'w"
  lv_cursor :: "'c cursor_ops"

section \<open>The database\<close>

record ('d, 'r, 'o) CLevelDB =
  cl_db :: 'd
  cl_ro :: 'r
  cl_wo :: 'o
  cl_woSync :: 'o

definition NewCLevelDB ::
  "('d, 'r, 'o, 'c, 'w) levigo_ops \<Rightarrow> string \<Rightarrow> string \<Rightarrow> ('d, 'r, 'o) CLevelDB option \<times> error option" where
  "NewCLevelDB lv name dir =
     (let dbPath = filepath_Join [dir, name @ ''.db''];
          opts = \<lparr>lo_Cache = Some (2 ^ 30), lo_CreateIfMissing = True\<rparr>
      in case lv_Open lv dbPath opts of
           Inr err \<Rightarrow> (None, Some err)
         | Inl db \<Rightarrow>
             (let ro = lv_NewReadOptions lv; wo = lv_NewWriteOptions lv;
                  woSync = lv_SetSync lv (lv_NewWriteOptions lv) True
              in (Some \<lparr>cl_db = db, cl_ro = ro, cl_wo = wo, cl_woSync = woSync\<rparr>, None)))"

definition CLevelDB_Get ::
  "('d, 'r, 'o, 'c, 'w) levigo_ops \<Rightarrow> ('d, 'r, 'o) CLevelDB \<Rightarrow> slice \<Rightarrow> slice \<times> error option" where
  "CLevelDB_Get lv db key =
     (if len key = 0 then (None, Some errKeyEmpty)
      else let (res, err) = lv_Get lv (cl_db db) (cl_ro db) key in
        if err \<noteq> None then (None, err) else (res, None))"

definition CLevelDB_Has ::
  "('d, 'r, 'o, 'c, 'w) levigo_ops \<Rightarrow> ('d, 'r, 'o) CLevelDB \<Rightarrow> slice \<Rightarrow> bool \<times> error option" where
  "CLevelDB_Has lv db key =
     (let (bytes, err) = CLevelDB_Get lv db key in
      if err \<noteq> None then (False, err) else (bytes \<noteq> None, None))"

definition CLevelDB_Set ::
  "('d, 'r, 'o, 'c, 'w) levigo_ops \<Rightarrow> ('d, 'r, 'o) CLevelDB \<Rightarrow> slice \<Rightarrow> slice \<Rightarrow> ('d, 'r, 'o) CLevelDB \<times> error option" where
  "CLevelDB_Set lv db key value' =
     (if len key = 0 then (db, Some errKeyEmpty)
      else if value' = None then (db, Some errValueNil)
      else let (d, err) = lv_Put lv (cl_db db) (cl_wo db) key value' in (db\<lparr>cl_db := d\<rparr>, err))"

definition CLevelDB_SetSync ::
  "('d, 'r, 'o, 'c, 'w) levigo_ops \<Rightarrow> ('d, 'r, 'o) CLevelDB \<Rightarrow> slice \<Rightarrow> slice \<Rightarrow> ('d, 'r, 'o) CLevelDB \<times> error option" where
  "CLevelDB_SetSync lv db key value' =
     (if len key = 0 then (db, Some errKeyEmpty)
      else if value' = None then (db, Some errValueNil)
      else let (d, err) = lv_Put lv (cl_db db) (cl_woSync db) key value' in (db\<lparr>cl_db := d\<rparr>, err))"

definition CLevelDB_Delete ::
  "('d, 'r, 'o, 'c, 'w) levigo_ops \<Rightarrow> ('d, 'r, 'o) CLevelDB \<Rightarrow> slice \<Rightarrow> ('d, 'r, 'o) CLevelDB \<times> error option" where
  "CLevelDB_Delete lv db key =
     (if len key = 0 then (db, Some errKeyEmpty)
      else let (d, err) = lv_Delete lv (cl_db db) (cl_wo db) key in (db\<lparr>cl_db := d\<rparr>, err))"

definition CLevelDB_DeleteSync ::
  "('d, 'r, 'o, 'c, 'w) levigo_ops \<Rightarrow> ('d, 'r, 'o) CLevelDB \<Rightarrow> slice \<Rightarrow> ('d, 'r, 'o) CLevelDB \<times> error option" where
  "CLevelDB_DeleteSync lv db key =
     (if len key = 0 then (db, Some errKeyEmpty)
      else let (d, err) = lv_Delete lv (cl_db db) (cl_woSync db) key in (db\<lparr>cl_db := d\<rparr>, err))"

definition CLevelDB_DB :: "('d, 'r, 'o) CLevelDB \<Rightarrow> 'd" where
  "CLevelDB_DB db = cl_db db"

definition CLevelDB_Close ::
  "('d, 'r, 'o, 'c, 'w) levigo_ops \<Rightarrow> ('d, 'r, 'o) CLevelDB \<Rightarrow> ('d, 'r, 'o) CLevelDB \<times> error option" where
  "CLevelDB_Close lv db =
     (db\<lparr>cl_db := lv_Close lv (cl_db db), cl_ro := lv_CloseReadOptions lv (cl_ro db),
         cl_wo := lv_CloseWriteOptions lv (cl_wo db), cl_woSync := lv_CloseWriteOptions lv (cl_woSync db)\<rparr>, None)"

section \<open>The iterator\<close>

record 'c cLevelDBIterator =
  cli_source :: 'c
  cli_start :: slice
  cli_end :: slice
  cli_isReverse :: bool
  cli_isInvalid :: bool

definition newCLevelDBIterator ::
  "'c cursor_ops \<Rightarrow> 'c \<Rightarrow> slice \<Rightarrow> slice \<Rightarrow> bool \<Rightarrow> 'c cLevelDBIterator" where
  "newCLevelDBIterator cu source start end' isReverse =
     (let source =
        (if isReverse then
           if len end' = 0 then cu_SeekToLast cu source
           else let source = cu_Seek cu source end' in
             if cu_Valid cu source then
               let eoakey = cu_Key cu source in
               if bytes_Compare end' eoakey \<le> 0 then cu_Prev cu source else source
             else cu_SeekToLast cu source
         else if len start = 0 then cu_SeekToFirst cu source
         else cu_Seek cu source start)
      in \<lparr>cli_source = source, cli_start = start, cli_end = end', cli_isReverse = isReverse,
          cli_isInvalid = False\<rparr>)"

definition cLevelDBIterator_Domain :: "'c cLevelDBIterator \<Rightarrow> slice \<times> slice" where
  "cLevelDBIterator_Domain itr = (cli_start itr, cli_end itr)"

definition cLevelDBIterator_Valid :: "'c cursor_ops \<Rightarrow> 'c cLevelDBIterator \<Rightarrow> bool" where
  "cLevelDBIterator_Valid cu itr =
     (if cli_isInvalid itr then False
      else if cu_Error cu (cli_source itr) \<noteq> None then False
      else if \<not> cu_Valid cu (cli_source itr) then False
      else let start = cli_start itr; end' = cli_end itr; key = cu_Key cu (cli_source itr) in
        if cli_isReverse itr then
          if start \<noteq> None \<and> bytes_Compare key start < 0 then False else True
        else if end' \<noteq> None \<and> bytes_Compare end' key \<le> 0 then False else True)"

definition cLevelDBIterator_assertIsValid :: "'c cursor_ops \<Rightarrow> 'c cLevelDBIterator \<Rightarrow> unit res" where
  "cLevelDBIterator_assertIsValid cu itr =
     (if \<not> cLevelDBIterator_Valid cu itr then Panic ''iterator is invalid'' else Ret ())"

definition cLevelDBIterator_Key ::
  "'c cursor_ops \<Rightarrow> 'c cLevelDBIterator \<Rightarrow> (slice \<times> 'c cLevelDBIterator) res" where
  "cLevelDBIterator_Key cu itr =
     bindR (cLevelDBIterator_assertIsValid cu itr) (\<lambda>_. Ret (cu_Key cu (cli_source itr), itr))"

definition cLevelDBIterator_Value ::
  "'c cursor_ops \<Rightarrow> 'c cLevelDBIterator \<Rightarrow> (slice \<times> 'c cLevelDBIterator) res" where
  "cLevelDBIterator_Value cu itr =
     bindR (cLevelDBIterator_assertIsValid cu itr) (\<lambda>_. Ret (cu_Value cu (cli_source itr), itr))"

definition cLevelDBIterator_Next :: "'c cursor_ops \<Rightarrow> 'c cLevelDBIterator \<Rightarrow> 'c cLevelDBIterator res" where
  "cLevelDBIterator_Next cu itr =
     bindR (cLevelDBIterator_assertIsValid cu itr) (\<lambda>_.
       if cli_isReverse itr then Ret (itr\<lparr>cli_source := cu_Prev cu (cli_source itr)\<rparr>)
       else Ret (itr\<lparr>cli_source := cu_Next cu (cli_source itr)\<rparr>))"

definition cLevelDBIterator_Error :: "'c cursor_ops \<Rightarrow> 'c cLevelDBIterator \<Rightarrow> error option" where
  "cLevelDBIterator_Error cu itr = cu_Error cu (cli_source itr)"

definition cLevelDBIterator_Close ::
  "'c cursor_ops \<Rightarrow> 'c cLevelDBIterator \<Rightarrow> 'c cLevelDBIterator \<times> error option" where
  "cLevelDBIterator_Close cu itr = (itr\<lparr>cli_source := cu_Close cu (cli_source itr)\<rparr>, None)"

definition cLevelDBIterator_iface :: "'c cursor_ops \<Rightarrow> 'c cLevelDBIterator Iterator" where
  "cLevelDBIterator_iface cu =
     \<lparr>I_Domain = cLevelDBIterator_Domain, I_Valid = (\<lambda>itr. Ret (cLevelDBIterator_Valid cu itr, itr)),
      I_Next = cLevelDBIterator_Next cu, I_Key = cLevelDBIterator_Key cu, I_Value = cLevelDBIterator_Value cu,
      I_Error = cLevelDBIterator_Error cu, I_Close = cLevelDBIterator_Close cu\<rparr>"

definition CLevelDB_Iterator ::
  "('d, 'r, 'o, 'c, 'w) levigo_ops \<Rightarrow> ('d, 'r, 'o) CLevelDB \<Rightarrow> slice \<Rightarrow> slice \<Rightarrow> ('c cLevelDBIterator option \<times> error option) res" where
  "CLevelDB_Iterator lv db start end' =
     (if blank start \<or> blank end' then Ret (None, Some errKeyEmpty)
      else let itr = lv_NewIterator lv (cl_db db) (cl_ro db)
        in Ret (Some (newCLevelDBIterator (lv_cursor lv) itr start end' False), None))"

definition CLevelDB_ReverseIterator ::
  "('d, 'r, 'o, 'c, 'w) levigo_ops \<Rightarrow> ('d, 'r, 'o) CLevelDB \<Rightarrow> slice \<Rightarrow> slice \<Rightarrow> ('c cLevelDBIterator option \<times> error option) res" where
  "CLevelDB_ReverseIterator lv db start end' =
     (if blank start \<or> blank end' then Ret (None, Some errKeyEmpty)
      else let itr = lv_NewIterator lv (cl_db db) (cl_ro db)
        in Ret (Some (newCLevelDBIterator (lv_cursor lv) itr start end' True), None))"

definition CLevelDB_Print ::
  "('d, 'r, 'o, 'c, 'w) levigo_ops \<Rightarrow> ('d, 'r, 'o) CLevelDB \<Rightarrow> (string \<times> error option) res" where
  "CLevelDB_Print lv db =
     bindR (CLevelDB_Iterator lv db None None) (\<lambda>(itr, err).
       if err \<noteq> None then Ret ([], err)
       else case itr of
              None \<Rightarrow> Panic ''nil pointer dereference''
            | Some i \<Rightarrow> bindR (iter_loop (cLevelDBIterator_iface (lv_cursor lv)) i [])
                (\<lambda>(xs, i). Ret (concat (map print_pair xs), None)))"

definition CLevelDB_stat_keys :: "string list" where
  "CLevelDB_stat_keys =
     [''leveldb.num-files-at-level{n}'', ''leveldb.sstables'', ''leveldb.stats'', ''leveldb.approximate-memory-usage'']"

definition CLevelDB_Stats :: "('d, 'r, 'o, 'c, 'w) levigo_ops \<Rightarrow> ('d, 'r, 'o) CLevelDB \<Rightarrow> strmap" where
  "CLevelDB_Stats lv db =
     fold (\<lambda>key stats. stats(key \<mapsto> lv_PropertyValue lv (cl_db db) key)) CLevelDB_stat_keys Map.empty"

section \<open>The batch\<close>

record 'w cLevelDBBatch =
  clb_batch :: "'w option"

definition newCLevelDBBatch ::
  "('d, 'r, 'o, 'c, 'w) levigo_ops \<Rightarrow> ('d, 'r, 'o) CLevelDB \<Rightarrow> 'w cLevelDBBatch" where
  "newCLevelDBBatch lv db = \<lparr>clb_batch = Some (lv_NewWriteBatch lv)\<rparr>"

definition cLevelDBBatch_Set ::
  "('d, 'r, 'o, 'c, 'w) levigo_ops \<Rightarrow> 'w cLevelDBBatch \<Rightarrow> slice \<Rightarrow> slice \<Rightarrow> 'w cLevelDBBatch \<times> error option" where
  "cLevelDBBatch_Set lv b key value' =
     (if len key = 0 then (b, Some errKeyEmpty)
      else if value' = None then (b, Some errValueNil)
      else case clb_batch b of
             None \<Rightarrow> (b, Some errBatchClosed)
           | Some w \<Rightarrow> (b\<lparr>clb_batch := Some (lv_BatchPut lv w key value')\<rparr>, None))"

definition cLevelDBBatch_Delete ::
  "('d, 'r, 'o, 'c, 'w) levigo_ops \<Rightarrow> 'w cLevelDBBatch \<Rightarrow> slice \<Rightarrow> 'w cLevelDBBatch \<times> error option" where
  "cLevelDBBatch_Delete lv b key =
     (if len key = 0 then (b, Some errKeyEmpty)
      else case clb_batch b of
             None \<Rightarrow> (b, Some errBatchClosed)
           | Some w \<Rightarrow> (b\<lparr>clb_batch := Some (lv_BatchDelete lv w key)\<rparr>, None))"

text \<open>\<open>Close\<close> also frees the batch object of the package, which nobody can reach afterwards.\<close>

definition cLevelDBBatch_Close :: "'w cLevelDBBatch \<Rightarrow> 'w cLevelDBBatch \<times> error option" where
  "cLevelDBBatch_Close b = (if clb_batch b \<noteq> None then (b\<lparr>clb_batch := None\<rparr>, None) else (b, None))"

definition cLevelDBBatch_Write ::
  "('d, 'r, 'o, 'c, 'w) levigo_ops \<Rightarrow> 'w cLevelDBBatch \<Rightarrow> ('d, 'r, 'o) CLevelDB \<Rightarrow>
     'w cLevelDBBatch \<times> ('d, 'r, 'o) CLevelDB \<times> error option" where
  "cLevelDBBatch_Write lv b db =
     (case clb_batch b of
        None \<Rightarrow> (b, db, Some errBatchClosed)
      | Some w \<Rightarrow>
          (let (d, err) = lv_Write lv (cl_db db) (cl_wo db) w in
           if err \<noteq> None then (b, db\<lparr>cl_db := d\<rparr>, err)
           else let (b', err) = cLevelDBBatch_Close b in (b', db\<lparr>cl_db := d\<rparr>, err)))"

definition cLevelDBBatch_WriteSync ::
  "('d, 'r, 'o, 'c, 'w) levigo_ops \<Rightarrow> 'w cLevelDBBatch \<Rightarrow> ('d, 'r, 'o) CLevelDB \<Rightarrow>
     'w cLevelDBBatch \<times> ('d, 'r, 'o) CLevelDB \<times> error option" where
  "cLevelDBBatch_WriteSync lv b db =
     (case clb_batch b of
        None \<Rightarrow> (b, db, Some errBatchClosed)
      | Some w \<Rightarrow>
          (let (d, err) = lv_Write lv (cl_db db) (cl_woSync db) w in
           if err \<noteq> None then (b, db\<lparr>cl_db := d\<rparr>, err)
           else let (b', _) = cLevelDBBatch_Close b in (b', db\<lparr>cl_db := d\<rparr>, None)))"

definition cLevelDBBatch_iface ::
  "('d, 'r, 'o, 'c, 'w) levigo_ops \<Rightarrow> (('d, 'r, 'o) CLevelDB, 'w cLevelDBBatch) Batch" where
  "cLevelDBBatch_iface lv =
     \<lparr>B_Set = cLevelDBBatch_Set lv, B_Delete = cLevelDBBatch_Delete lv, B_Write = cLevelDBBatch_Write lv,
      B_WriteSync = cLevelDBBatch_WriteSync lv, B_Close = cLevelDBBatch_Close\<rparr>"

definition CLevelDB_NewBatch ::
  "('d, 'r, 'o, 'c, 'w) levigo_ops \<Rightarrow> ('d, 'r, 'o) CLevelDB \<Rightarrow> 'w cLevelDBBatch" where
  "CLevelDB_NewBatch lv db = newCLevelDBBatch lv db"

definition CLevelDB_iface ::
  "('d, 'r, 'o, 'c, 'w) levigo_ops \<Rightarrow> (('d, 'r, 'o) CLevelDB, 'c cLevelDBIterator, 'w cLevelDBBatch) DB" where
  "CLevelDB_iface lv =
     \<lparr>D_Get = CLevelDB_Get lv, D_Has = CLevelDB_Has lv, D_Set = CLevelDB_Set lv, D_SetSync = CLevelDB_SetSync lv,
      D_Delete = CLevelDB_Delete lv, D_DeleteSync = CLevelDB_DeleteSync lv, D_Iterator = CLevelDB_Iterator lv,
      D_ReverseIterator = CLevelDB_ReverseIterator lv, D_Close = CLevelDB_Close lv,
      D_NewBatch = CLevelDB_NewBatch lv, D_Print = CLevelDB_Print lv, D_Stats = CLevelDB_Stats lv,
      D_itr = cLevelDBIterator_iface (lv_cursor lv), D_bat = cLevelDBBatch_iface lv\<rparr>"

lemmas CLevelDB_defs [op_defs] =
  CLevelDB_Get_def CLevelDB_Has_def CLevelDB_Set_def CLevelDB_SetSync_def CLevelDB_Delete_def
  CLevelDB_DeleteSync_def CLevelDB_Iterator_def CLevelDB_ReverseIterator_def CLevelDB_NewBatch_def
  newCLevelDBBatch_def

lemmas cLevelDBIterator_defs [op_defs] =
  cLevelDBIterator_iface_def cLevelDBIterator_Domain_def cLevelDBIterator_assertIsValid_def
  cLevelDBIterator_Key_def cLevelDBIterator_Value_def cLevelDBIterator_Next_def cLevelDBIterator_Close_def
  cLevelDBIterator_Error_def

lemmas cLevelDBBatch_defs [op_defs] =
  cLevelDBBatch_iface_def cLevelDBBatch_Set_def cLevelDBBatch_Delete_def cLevelDBBatch_Close_def
  cLevelDBBatch_Write_def cLevelDBBatch_WriteSync_def

section \<open>Abstraction\<close>

definition cli_ok :: "('c \<Rightarrow> bool) \<Rightarrow> 'c cLevelDBIterator \<Rightarrow> bool" where
  "cli_ok cok itr \<longleftrightarrow> cok (cli_source itr) \<and> \<not> cli_isInvalid itr"

definition cli_rest :: "('c \<Rightarrow> zipper) \<Rightarrow> 'c cLevelDBIterator \<Rightarrow> kv list" where
  "cli_rest pos itr = walk_rest (cli_isReverse itr) (cli_start itr) (cli_end itr) (pos (cli_source itr))"

definition clb_ok :: "('w \<Rightarrow> kvop list) \<Rightarrow> 'w cLevelDBBatch \<Rightarrow> bool" where
  "clb_ok wops b \<longleftrightarrow> pred_option (\<lambda>w. list_all (\<lambda>p. kvop_key p \<noteq> []) (wops w)) (clb_batch b)"

definition clb_ops :: "('w \<Rightarrow> kvop list) \<Rightarrow> 'w cLevelDBBatch \<Rightarrow> kvop list option" where
  "clb_ops wops b = map_option wops (clb_batch b)"

section \<open>The documented behaviour of the package\<close>

locale levigo_laws = cursor_laws "lv_cursor lv" cok items pos
  for lv :: "('d, 'r, 'o, 'c, 'w) levigo_ops" and cok :: "'c \<Rightarrow> bool" and items :: "'c \<Rightarrow> kv list"
    and pos :: "'c \<Rightarrow> zipper" +
  fixes dok :: "'d \<Rightarrow> bool"
    and dents :: "'d \<Rightarrow> kv list"
    and wops :: "'w \<Rightarrow> kvop list"
  assumes Open: "lv_Open lv path \<lparr>lo_Cache = cache, lo_CreateIfMissing = True\<rparr> = Inl d \<Longrightarrow> dok d"
    and dents_wf: "dok d \<Longrightarrow> kv_wf (dents d)"
    and Get: "dok d \<Longrightarrow> lv_Get lv d ro key = (map_of (dents d) (sl key), None)"
    and Put: "dok d \<Longrightarrow> len key \<noteq> 0 \<Longrightarrow> lv_Put lv d wo key value' = (d', e) \<Longrightarrow>
      e = None \<and> dok d' \<and> dents d' = kv_set (sl key) (sl value') (dents d)"
    and Delete: "dok d \<Longrightarrow> lv_Delete lv d wo key = (d', e) \<Longrightarrow>
      e = None \<and> dok d' \<and> dents d' = kv_del (sl key) (dents d)"
    and Write: "dok d \<Longrightarrow> list_all (\<lambda>p. kvop_key p \<noteq> []) (wops w) \<Longrightarrow> lv_Write lv d wo w = (d', e) \<Longrightarrow>
      e = None \<and> dok d' \<and> dents d' = kv_apply_all (wops w) (dents d)"
    and NewIterator: "dok d \<Longrightarrow> cok (lv_NewIterator lv d ro) \<and> items (lv_NewIterator lv d ro) = dents d"
    and NewWriteBatch: "wops (lv_NewWriteBatch lv) = []"
    and BatchPut: "wops (lv_BatchPut lv w key value') = wops w @ [Put (sl key) (sl value')]"
    and BatchDelete: "wops (lv_BatchDelete lv w key) = wops w @ [Del (sl key)]"
begin

lemma Valid_rest:
  "cli_ok cok itr \<Longrightarrow> cLevelDBIterator_Valid (lv_cursor lv) itr \<longleftrightarrow> cli_rest pos itr \<noteq> []"
  unfolding cli_rest_def
  by (subst cu_live_iff [symmetric])
     (auto simp: cli_ok_def cLevelDBIterator_Valid_def cu_live_def Let_def)

lemma iterator_laws: "iterator_contract (cLevelDBIterator_iface (lv_cursor lv)) (cli_ok cok) (cli_rest pos)"
proof (unfold_locales, goal_cases)
  case (2 itr k v xs)
  then show ?case
    using cu_live_head(1) [of "cli_source itr" "cli_isReverse itr" "cli_start itr" "cli_end itr" k v xs]
    by (simp add: cLevelDBIterator_defs Valid_rest it_moved_def) (simp add: cli_ok_def cli_rest_def)
next
  case (3 itr k v xs)
  then show ?case
    using cu_live_head(2) [of "cli_source itr" "cli_isReverse itr" "cli_start itr" "cli_end itr" k v xs]
    by (simp add: cLevelDBIterator_defs Valid_rest it_moved_def) (simp add: cli_ok_def cli_rest_def)
next
  case (4 itr x xs)
  then show ?case
    using cu_live_step [of "cli_source itr" "cli_isReverse itr" "cli_start itr" "cli_end itr" x xs]
    by (simp add: cLevelDBIterator_defs Valid_rest it_moved_def) (auto simp: cli_ok_def cli_rest_def split: if_splits)
next
  case (8 itr)
  then show ?case using cu_error [of "cli_source itr"] by (simp add: cLevelDBIterator_defs cli_ok_def)
qed (simp_all add: cLevelDBIterator_defs Valid_rest it_moved_def)

lemma new_iterator_at:
  assumes "cok c" and "kv_sorted (items c)" and "\<not> blank start" and "\<not> blank end'"
  shows "cli_ok cok (newCLevelDBIterator (lv_cursor lv) c start end' r)"
    and "cli_rest pos (newCLevelDBIterator (lv_cursor lv) c start end' r) = kv_scan r start end' (items c)"
    and "cLevelDBIterator_Domain (newCLevelDBIterator (lv_cursor lv) c start end' r) = (start, end')"
proof -
  let ?itr = "newCLevelDBIterator (lv_cursor lv) c start end' r"
  have "len start = 0 \<longleftrightarrow> start = None" "len end' = 0 \<longleftrightarrow> end' = None"
    using assms(3,4) by (auto simp: blank_def)
  then have "cok (cli_source ?itr)
      \<and> walk_rest r start end' (pos (cli_source ?itr)) = kv_scan r start end' (items c)"
    by (intro cu_place [OF assms(1,2)]) (simp add: newCLevelDBIterator_def Let_def)
  then show "cli_ok cok ?itr" and "cli_rest pos ?itr = kv_scan r start end' (items c)"
    by (simp_all add: cli_ok_def cli_rest_def newCLevelDBIterator_def)
qed (simp add: newCLevelDBIterator_def cLevelDBIterator_Domain_def)

lemma new_iterator:
  assumes "dok (cl_db db)" and "domain_error start end' = None"
    and "itr = newCLevelDBIterator (lv_cursor lv) (lv_NewIterator lv (cl_db db) (cl_ro db)) start end' r"
  shows "cli_ok cok itr" and "cli_rest pos itr = kv_scan r start end' (dents (cl_db db))"
    and "cLevelDBIterator_Domain itr = (start, end')"
  using new_iterator_at [of "lv_NewIterator lv (cl_db db) (cl_ro db)" start end'] NewIterator [OF assms(1)]
    dents_wf [OF assms(1)] assms(2)
  by (simp_all add: assms(3) kv_wf_def domain_error_def split: if_splits)

lemma CLevelDB_db: "kv_db (CLevelDB_iface lv) (cli_ok cok) (cli_rest pos)
  (\<lambda>db. dok (cl_db db)) (\<lambda>db. dents (cl_db db)) any_size"
proof (rule kv_db.intro [OF _ kv_db_axioms.intro], goal_cases)
  case 1
  show ?case by (simp add: CLevelDB_iface_def iterator_laws)
next
  case (5 db k v db' e)
  then show ?case
    by (auto simp: CLevelDB_iface_def CLevelDB_Set_def set_error_def Let_def split: if_splits prod.splits dest!: Put [rotated 2])
next
  case (6 db k v db' e)
  then show ?case
    by (auto simp: CLevelDB_iface_def CLevelDB_SetSync_def set_error_def Let_def split: if_splits prod.splits dest!: Put [rotated 2])
next
  case (7 db k db' e)
  then show ?case
    by (auto simp: CLevelDB_iface_def CLevelDB_Delete_def key_error_def Let_def split: if_splits prod.splits dest!: Delete [rotated])
next
  case (8 db k db' e)
  then show ?case
    by (auto simp: CLevelDB_iface_def CLevelDB_DeleteSync_def key_error_def Let_def split: if_splits prod.splits dest!: Delete [rotated])
next
  case (10 db start end')
  then show ?case
    using new_iterator [OF 10 refl, of False]
    by (auto simp: CLevelDB_iface_def CLevelDB_Iterator_def cLevelDBIterator_iface_def domain_error_def split: if_splits)
next
  case (12 db start end')
  then show ?case
    using new_iterator [OF 12 refl, of True]
    by (auto simp: CLevelDB_iface_def CLevelDB_ReverseIterator_def cLevelDBIterator_iface_def domain_error_def split: if_splits)
qed (auto simp: CLevelDB_iface_def CLevelDB_defs domain_error_def clb_ok_def clb_ops_def NewWriteBatch dents_wf Get
       split: if_splits)

lemma CLevelDB_batch: "kv_batch (D_bat (CLevelDB_iface lv)) (D_NewBatch (CLevelDB_iface lv))
  (\<lambda>db. dok (cl_db db)) (\<lambda>db. dents (cl_db db)) (clb_ok wops) (clb_ops wops) any_size"
proof (rule kv_batch.intro, goal_cases)
  case (2 b k v b' e)
  then show ?case
    by (auto simp: CLevelDB_iface_def cLevelDBBatch_defs clb_ok_def clb_ops_def set_error_def batch_error_def BatchPut len_def
        split: if_splits option.splits)
next
  case (3 b k b' e)
  then show ?case
    by (auto simp: CLevelDB_iface_def cLevelDBBatch_defs clb_ok_def clb_ops_def key_error_def batch_error_def BatchDelete len_def
        split: if_splits option.splits)
next
  case (4 b db b' db' e)
  then show ?case
    by (auto simp: CLevelDB_iface_def cLevelDBBatch_defs clb_ok_def clb_ops_def Let_def
        split: option.splits prod.splits if_splits dest!: Write [rotated 2])
next
  case (5 b db b' db' e)
  then show ?case
    by (auto simp: CLevelDB_iface_def cLevelDBBatch_defs clb_ok_def clb_ops_def Let_def
        split: option.splits prod.splits if_splits dest!: Write [rotated 2])
next
  case (6 b b' e)
  then show ?case
    by (auto simp: CLevelDB_iface_def cLevelDBBatch_defs clb_ok_def clb_ops_def split: if_splits)
qed (auto simp: CLevelDB_iface_def CLevelDB_defs domain_error_def clb_ok_def clb_ops_def NewWriteBatch dents_wf Get
       split: if_splits)

lemma CLevelDB_store:
  "kv_store (CLevelDB_iface lv) (cli_ok cok) (cli_rest pos) (\<lambda>db. dok (cl_db db)) (\<lambda>db. dents (cl_db db))
     (clb_ok wops) (clb_ops wops) any_size"
  by (rule kv_store.intro [OF CLevelDB_db CLevelDB_batch])

end

sublocale levigo_laws \<subseteq> clevel: kv_store "CLevelDB_iface lv" "cli_ok cok" "cli_rest pos"
  "\<lambda>db. dok (cl_db db)" "\<lambda>db. dents (cl_db db)" "clb_ok wops" "clb_ops wops" any_size
  by (rule CLevelDB_store)

section \<open>An ordered list as the package's database\<close>

definition list_levigo :: "(kv list, unit, bool, list_cursor, kvop list) levigo_ops" where
  "list_levigo =
     \<lparr>lv_Open = (\<lambda>path opts. Inl []), lv_NewReadOptions = (), lv_NewWriteOptions = False, lv_SetSync = (\<lambda>wo b. b),
      lv_CloseReadOptions = (\<lambda>ro. ro), lv_CloseWriteOptions = (\<lambda>wo. wo),
      lv_Get = (\<lambda>d ro k. (map_of d (sl k), None)), lv_Put = (\<lambda>d wo k v. (kv_set (sl k) (sl v) d, None)),
      lv_Delete = (\<lambda>d wo k. (kv_del (sl k) d, None)), lv_Write = (\<lambda>d wo w. (kv_apply_all w d, None)),
      lv_Close = (\<lambda>d. d), lv_PropertyValue = (\<lambda>d name. []),
      lv_NewIterator = (\<lambda>d ro. \<lparr>lc_items = d, lc_pos = ([], [])\<rparr>), lv_NewWriteBatch = [],
      lv_BatchPut = (\<lambda>w k v. w @ [Put (sl k) (sl v)]), lv_BatchDelete = (\<lambda>w k. w @ [Del (sl k)]),
      lv_cursor = list_cursor_ops\<rparr>"

interpretation list_lv: levigo_laws list_levigo "\<lambda>c. True" lc_items lc_pos kv_wf "\<lambda>d. d" "\<lambda>w. w"
  by unfold_locales
     (auto simp: list_levigo_def list_cursor_ops_def kv_simps kv_wf_apply_all len_def list_all_iff kv_wf_def [of "[]"])

lemma NewCLevelDB_ok:
  "levigo_laws lv cok items pos dok dents wops \<Longrightarrow> NewCLevelDB lv name dir = (Some db, err) \<Longrightarrow> dok (cl_db db)"
  using levigo_laws.Open [of lv cok items pos dok dents wops] by (auto simp: NewCLevelDB_def Let_def split: sum.splits)

section \<open>Properties\<close>

text \<open>
  C27. A CLevelDB over a LevelDB that works without I/O errors answers every sequence of calls as
  the ordered list of pairs does, although \<open>Valid\<close> of its iterator records nothing.
\<close>

theorem CLevelDB_refines_ordered_map:
  assumes "levigo_laws lv cok items pos dok dents wops" and "NewCLevelDB lv name dir = (Some db, err)"
  shows "\<exists>db'. db_calls (CLevelDB_iface lv) db cs = Ret (db', snd (spec_calls (dents (cl_db db)) cs))
    \<and> dents (cl_db db') = fst (spec_calls (dents (cl_db db)) cs)"
  using kv_store.db_calls_spec [OF levigo_laws.CLevelDB_store [OF assms(1)] NewCLevelDB_ok [OF assms], of cs] by auto

theorem CLevelDB_refines_ordered_map_witness:
  "\<exists>db'. db_calls (CLevelDB_iface list_levigo) \<lparr>cl_db = [], cl_ro = (), cl_wo = False, cl_woSync = True\<rparr>
      [CBatch True [BSet (Some [2]) (Some [7]), BSet (Some [1]) (Some [8]), BDelete (Some [])],
       CScan False None (Some [2]), CHas (Some [2])] =
      Ret (db', [ABatch [None, None, Some errKeyEmpty] None, AScan [(Some [1], Some [8])] None, AHas True None])
    \<and> cl_db db' = [([1], [8]), ([2], [7])]"
proof -
  have "NewCLevelDB list_levigo ''app'' ''data'' =
      (Some \<lparr>cl_db = [], cl_ro = (), cl_wo = False, cl_woSync = True\<rparr>, None)"
    by (simp add: NewCLevelDB_def list_levigo_def)
  from CLevelDB_refines_ordered_map [OF list_lv.levigo_laws_axioms this,
      of "[CBatch True [BSet (Some [2]) (Some [7]), BSet (Some [1]) (Some [8]), BDelete (Some [])],
           CScan False None (Some [2]), CHas (Some [2])]"]
  show ?thesis
    by (simp add: set_error_def key_error_def domain_error_def accepted_def kv_set_def kv_scan_def kv_range_def IsKeyInDomain_iff)
qed

end
