(* ===== verification/RocksDB.thy ===== *)
theory RocksDB
  imports Cursor
begin

text \<open>
  \<open>rocksdb.go\<close>, \<open>rocksdb_iterator.go\<close> and \<open>rocksdb_batch.go\<close>: the backend over RocksDB through
  \<open>github.com/cosmos/gorocksdb\<close>. The operations of that package are the argument \<open>rk\<close>; keys and
  values come back as slices of C memory, which \<open>moveSliceToBytes\<close> copies. The documented
  behaviour on a database that works without I/O errors is the locale \<open>gorocksdb_laws\<close>.
\<close>

section \<open>The operations of the package\<close>

record gorocksdb_Slice =
  rs_Exists :: bool
  rs_Data :: "byte list"

record 'c gorocksdb_iterator_ops =
  ri_SeekToFirst :: "'c \<Rightarrow> 'c"
  ri_SeekToLast :: "'c \<Rightarrow> 'c"
  ri_Seek :: "'c \<Rightarrow> slice \<Rightarrow> 'c"
  ri_Next :: "'c \<Rightarrow> 'c"
  ri_Prev :: "'c \<Rightarrow> 'c"
  ri_Valid :: "'c \<Rightarrow> bool"
  ri_Key :: "'c \<Rightarrow> gorocksdb_Slice"
  ri_Value :: "'c \<Rightarrow> gorocksdb_Slice"
  ri_Err :: "'c \<Rightarrow> error option"
  ri_Close :: "'c \<Rightarrow> 'c"

text \<open>The options that \<open>NewRocksDB\<close> sets.\<close>

record gorocksdb_Options =
  ro_BlockCache :: nat
  ro_BloomFilterBits :: nat
  ro_MaxOpenFiles :: nat
  ro_CreateIfMissing :: bool
  ro_Parallelism :: nat
  ro_LevelStyleCompaction :: nat

record ('d, 'r, 'o, 'c, 'w) gorocksdb_ops =
  rk_OpenDb :: "gorocksdb_Options \<Rightarrow> string \<Rightarrow> 'd + error"
  rk_NewDefaultReadOptions :: 'r
  rk_NewDefaultWriteOptions :: 'o
  rk_SetSync :: "'o \<Rightarrow> bool \<Rightarrow> 'o"
  rk_DestroyReadOptions :: "'r \<Rightarrow> 'r"
  rk_DestroyWriteOptions :: "'o \<Rightarrow> 'o"
  rk_Get :: "'d \<Rightarrow> 'r \<Rightarrow> slice \<Rightarrow> gorocksdb_Slice \<times> error option"
  rk_Put :: "'d \<Rightarrow> 'o \<Rightarrow> slice \<Rightarrow> slice \<Rightarrow> 'd \<times> error option"
  rk_Delete :: "'d \<Rightarrow> 'o \<Rightarrow> slice \<Rightarrow> 'd \<times> error option"
  rk_Write :: "'d \<Rightarrow> 'o \<Rightarrow> 'w \<Rightarrow> 'd \<times> error option"
  rk_Close :: "'d \<Rightarrow> 'd"
  rk_GetProperty :: "'d \<Rightarrow> string \<Rightarrow> string"
  rk_NewIterator :: "'d \<Rightarrow> 'r \<Rightarrow> 'c"
  rk_NewWriteBatch :: 'w
  rk_BatchPut :: "'w \<Rightarrow> slice \<Rightarrow> slice \<Rightarrow> 'w"
  rk_BatchDelete :: "'w \<Rightarrow> slice \<Rightarrow> 'w"
  rk_iter :: "'c gorocksdb_iterator_ops"

section \<open>The database\<close>

record ('d, 'r, 'o) RocksDB =
  rd_db :: 'd
  rd_ro :: 'r
  rd_wo :: 'o
  rd_woSync :: 'o

definition NewRocksDBWithOptions ::
  "('d, 'r, 'o, 'c, 'w) gorocksdb_ops \<Rightarrow> string \<Rightarrow> string \<Rightarrow> gorocksdb_Options \<Rightarrow>
     ('d, 'r, 'o) RocksDB option \<times> error option" where
  "NewRocksDBWithOptions rk name dir opts =
     (let dbPath = filepath_Join [dir, name @ ''.db''] in
      case rk_OpenDb rk opts dbPath of
        Inr err \<Rightarrow> (None, Some err)
      | Inl db \<Rightarrow>
          (let ro = rk_NewDefaultReadOptions rk; wo = rk_NewDefaultWriteOptions rk;
               woSync = rk_SetSync rk (rk_NewDefaultWriteOptions rk) True
           in (Some \<lparr>rd_db = db, rd_ro = ro, rd_wo = wo, rd_woSync = woSync\<rparr>, None)))"

text \<open>\<open>runtime.NumCPU()\<close> is an argument.\<close>

definition NewRocksDB ::
  "('d, 'r, 'o, 'c, 'w) gorocksdb_ops \<Rightarrow> nat \<Rightarrow> string \<Rightarrow> string \<Rightarrow> ('d, 'r, 'o) RocksDB option \<times> error option" where
  "NewRocksDB rk numCPU name dir =
     (let opts = \<lparr>ro_BlockCache = 2 ^ 30, ro_BloomFilterBits = 10, ro_MaxOpenFiles = 4096,
                  ro_CreateIfMissing = True, ro_Parallelism = numCPU,
                  ro_LevelStyleCompaction = 512 * 1024 * 1024\<rparr>
      in NewRocksDBWithOptions rk name dir opts)"

definition moveSliceToBytes :: "gorocksdb_Slice \<Rightarrow> slice" where
  "moveSliceToBytes s = (if \<not> rs_Exists s then None else Some (rs_Data s))"

definition RocksDB_Get ::
  "('d, 'r, 'o, 'c, 'w) gorocksdb_ops \<Rightarrow> ('d, 'r, 'o) RocksDB \<Rightarrow> slice \<Rightarrow> slice \<times> error option" where
  "RocksDB_Get rk db key =
     (if len key = 0 then (None, Some errKeyEmpty)
      else let (res, err) = rk_Get rk (rd_db db) (rd_ro db) key in
        if err \<noteq> None then (None, err) else (moveSliceToBytes res, None))"

definition RocksDB_Has ::
  "('d, 'r, 'o, 'c, 'w) gorocksdb_ops \<Rightarrow> ('d, 'r, 'o) RocksDB \<Rightarrow> slice \<Rightarrow> bool \<times> error option" where
  "RocksDB_Has rk db key =
     (let (bytes, err) = RocksDB_Get rk db key in
      if err \<noteq> None then (False, err) else (bytes \<noteq> None, None))"

definition RocksDB_Set ::
  "('d, 'r, 'o, 'c, 'w) gorocksdb_ops \<Rightarrow> ('d, 'r, 'o) RocksDB \<Rightarrow> slice \<Rightarrow> slice \<Rightarrow> ('d, 'r, 'o) RocksDB \<times> error option" where
  "RocksDB_Set rk db key value' =
     (if len key = 0 then (db, Some errKeyEmpty)
      else if value' = None then (db, Some errValueNil)
      else let (d, err) = rk_Put rk (rd_db db) (rd_wo db) key value' in (db\<lparr>rd_db := d\<rparr>, err))"

definition RocksDB_SetSync ::
  "('d, 'r, 'o, 'c, 'w) gorocksdb_ops \<Rightarrow> ('d, 'r, 'o) RocksDB \<Rightarrow> slice \<Rightarrow> slice \<Rightarrow> ('d, 'r, 'o) RocksDB \<times> error option" where
  "RocksDB_SetSync rk db key value' =
     (if len key = 0 then (db, Some errKeyEmpty)
      else if value' = None then (db, Some errValueNil)
      else let (d, err) = rk_Put rk (rd_db db) (rd_woSync db) key value' in (db\<lparr>rd_db := d\<rparr>, err))"

definition RocksDB_Delete ::
  "('d, 'r, 'o, 'c, 'w) gorocksdb_ops \<Rightarrow> ('d, 'r, 'o) RocksDB \<Rightarrow> slice \<Rightarrow> ('d, 'r, 'o) RocksDB \<times> error option" where
  "RocksDB_Delete rk db key =
     (if len key = 0 then (db, Some errKeyEmpty)
      else let (d, err) = rk_Delete rk (rd_db db) (rd_wo db) key in (db\<lparr>rd_db := d\<rparr>, err))"

definition RocksDB_DeleteSync ::
  "('d, 'r, 'o, 'c, 'w) gorocksdb_ops \<Rightarrow> ('d, 'r, 'o) RocksDB \<Rightarrow> slice \<Rightarrow> ('d, 'r, 'o) RocksDB \<times> error option" where
  "RocksDB_DeleteSync rk db key =
     (if len key = 0 then (db, Some errKeyEmpty)
      else let (d, err) = rk_Delete rk (rd_db db) (rd_woSync db) key in (db\<lparr>rd_db := d\<rparr>, err))"

definition RocksDB_DB :: "('d, 'r, 'o) RocksDB \<Rightarrow> 'd" where
  "RocksDB_DB db = rd_db db"

definition RocksDB_Close ::
  "('d, 'r, 'o, 'c, 'w) gorocksdb_ops \<Rightarrow> ('d, 'r, 'o) RocksDB \<Rightarrow> ('d, 'r, 'o) RocksDB \<times> error option" where
  "RocksDB_Close rk db =
     (db\<lparr>rd_ro := rk_DestroyReadOptions rk (rd_ro db), rd_wo := rk_DestroyWriteOptions rk (rd_wo db),
         rd_woSync := rk_DestroyWriteOptions rk (rd_woSync db), rd_db := rk_Close rk (rd_db db)\<rparr>, None)"

section \<open>The iterator\<close>

record 'c rocksDBIterator =
  rdi_source :: 'c
  rdi_start :: slice
  rdi_end :: slice
  rdi_isReverse :: bool
  rdi_isInvalid :: bool

definition newRocksDBIterator ::
  "'c gorocksdb_iterator_ops \<Rightarrow> 'c \<Rightarrow> slice \<Rightarrow> slice \<Rightarrow> bool \<Rightarrow> 'c rocksDBIterator" where
  "newRocksDBIterator ri source start end' isReverse =
     (let source =
        (if isReverse then
           if end' = None then ri_SeekToLast ri source
           else let source = ri_Seek ri source end' in
             if ri_Valid ri source then
               let eoakey = moveSliceToBytes (ri_Key ri source) in
               if bytes_Compare end' eoakey \<le> 0 then ri_Prev ri source else source
             else ri_SeekToLast ri source
         else if start = None then ri_SeekToFirst ri source
         else ri_Seek ri source start)
      in \<lparr>rdi_source = source, rdi_start = start, rdi_end = end', rdi_isReverse = isReverse,
          rdi_isInvalid = False\<rparr>)"

definition rocksDBIterator_Domain :: "'c rocksDBIterator \<Rightarrow> slice \<times> slice" where
  "rocksDBIterator_Domain itr = (rdi_start itr, rdi_end itr)"

definition rocksDBIterator_Valid ::
  "'c gorocksdb_iterator_ops \<Rightarrow> 'c rocksDBIterator \<Rightarrow> bool \<times> 'c rocksDBIterator" where
  "rocksDBIterator_Valid ri itr =
     (if rdi_isInvalid itr then (False, itr)
      else if ri_Err ri (rdi_source itr) \<noteq> None then (False, itr\<lparr>rdi_isInvalid := True\<rparr>)
      else if \<not> ri_Valid ri (rdi_source itr) then (False, itr\<lparr>rdi_isInvalid := True\<rparr>)
      else let start = rdi_start itr; end' = rdi_end itr; key = moveSliceToBytes (ri_Key ri (rdi_source itr)) in
        if rdi_isReverse itr then
          if start \<noteq> None \<and> bytes_Compare key start < 0 then (False, itr\<lparr>rdi_isInvalid := True\<rparr>) else (True, itr)
        else if end' \<noteq> None \<and> bytes_Compare end' key \<le> 0 then (False, itr\<lparr>rdi_isInvalid := True\<rparr>) else (True, itr))"

definition rocksDBIterator_assertIsValid ::
  "'c gorocksdb_iterator_ops \<Rightarrow> 'c rocksDBIterator \<Rightarrow> 'c rocksDBIterator res" where
  "rocksDBIterator_assertIsValid ri itr =
     (let (valid, itr) = rocksDBIterator_Valid ri itr in if \<not> valid then Panic ''iterator is invalid'' else Ret itr)"

definition rocksDBIterator_Key ::
  "'c gorocksdb_iterator_ops \<Rightarrow> 'c rocksDBIterator \<Rightarrow> (slice \<times> 'c rocksDBIterator) res" where
  "rocksDBIterator_Key ri itr =
     bindR (rocksDBIterator_assertIsValid ri itr) (\<lambda>itr. Ret (moveSliceToBytes (ri_Key ri (rdi_source itr)), itr))"

definition rocksDBIterator_Value ::
  "'c gorocksdb_iterator_ops \<Rightarrow> 'c rocksDBIterator \<Rightarrow> (slice \<times> 'c rocksDBIterator) res" where
  "rocksDBIterator_Value ri itr =
     bindR (rocksDBIterator_assertIsValid ri itr) (\<lambda>itr. Ret (moveSliceToBytes (ri_Value ri (rdi_source itr)), itr))"

text \<open>\<open>Next\<close> has a value receiver: only the position of the shared source outlives the call.\<close>

definition rocksDBIterator_Next ::
  "'c gorocksdb_iterator_ops \<Rightarrow> 'c rocksDBIterator \<Rightarrow> 'c rocksDBIterator res" where
  "rocksDBIterator_Next ri itr =
     bindR (rocksDBIterator_assertIsValid ri itr) (\<lambda>_.
       if rdi_isReverse itr then Ret (itr\<lparr>rdi_source := ri_Prev ri (rdi_source itr)\<rparr>)
       else Ret (itr\<lparr>rdi_source := ri_Next ri (rdi_source itr)\<rparr>))"

definition rocksDBIterator_Error :: "'c gorocksdb_iterator_ops \<Rightarrow> 'c rocksDBIterator \<Rightarrow> error option" where
  "rocksDBIterator_Error ri itr = ri_Err ri (rdi_source itr)"

definition rocksDBIterator_Close ::
  "'c gorocksdb_iterator_ops \<Rightarrow> 'c rocksDBIterator \<Rightarrow> 'c rocksDBIterator \<times> error option" where
  "rocksDBIterator_Close ri itr = (itr\<lparr>rdi_source := ri_Close ri (rdi_source itr)\<rparr>, None)"

definition rocksDBIterator_iface :: "'c gorocksdb_iterator_ops \<Rightarrow> 'c rocksDBIterator Iterator" where
  "rocksDBIterator_iface ri =
     \<lparr>I_Domain = rocksDBIterator_Domain, I_Valid = (\<lambda>itr. Ret (rocksDBIterator_Valid ri itr)),
      I_Next = rocksDBIterator_Next ri, I_Key = rocksDBIterator_Key ri, I_Value = rocksDBIterator_Value ri,
      I_Error = rocksDBIterator_Error ri, I_Close = rocksDBIterator_Close ri\<rparr>"

definition RocksDB_Iterator ::
  "('d, 'r, 'o, 'c, 'w) gorocksdb_ops \<Rightarrow> ('d, 'r, 'o) RocksDB \<Rightarrow> slice \<Rightarrow> slice \<Rightarrow> ('c rocksDBIterator option \<times> error option) res" where
  "RocksDB_Iterator rk db start end' =
     (if blank start \<or> blank end' then Ret (None, Some errKeyEmpty)
      else let itr = rk_NewIterator rk (rd_db db) (rd_ro db)
        in Ret (Some (newRocksDBIterator (rk_iter rk) itr start end' False), None))"

definition RocksDB_ReverseIterator ::
  "('d, 'r, 'o, 'c, 'w) gorocksdb_ops \<Rightarrow> ('d, 'r, 'o) RocksDB \<Rightarrow> slice \<Rightarrow> slice \<Rightarrow> ('c rocksDBIterator option \<times> error option) res" where
  "RocksDB_ReverseIterator rk db start end' =
     (if blank start \<or> blank end' then Ret (None, Some errKeyEmpty)
      else let itr = rk_NewIterator rk (rd_db db) (rd_ro db)
        in Ret (Some (newRocksDBIterator (rk_iter rk) itr start end' True), None))"

definition RocksDB_Print ::
  "('d, 'r, 'o, 'c, 'w) gorocksdb_ops \<Rightarrow> ('d, 'r, 'o) RocksDB \<Rightarrow> (string \<times> error option) res" where
  "RocksDB_Print rk db =
     bindR (RocksDB_Iterator rk db None None) (\<lambda>(itr, err).
       if err \<noteq> None then Ret ([], err)
       else case itr of
              None \<Rightarrow> Panic ''nil pointer dereference''
            | Some i \<Rightarrow> bindR (iter_loop (rocksDBIterator_iface (rk_iter rk)) i [])
                (\<lambda>(xs, i). Ret (concat (map print_pair xs), None)))"

definition RocksDB_Stats :: "('d, 'r, 'o, 'c, 'w) gorocksdb_ops \<Rightarrow> ('d, 'r, 'o) RocksDB \<Rightarrow> strmap" where
  "RocksDB_Stats rk db =
     fold (\<lambda>key stats. stats(key \<mapsto> rk_GetProperty rk (rd_db db) key)) [''rocksdb.stats''] Map.empty"

section \<open>The batch\<close>

record 'w rocksDBBatch =
  rdb_batch :: "'w option"

definition newRocksDBBatch ::
  "('d, 'r, 'o, 'c, 'w) gorocksdb_ops \<Rightarrow> ('d, 'r, 'o) RocksDB \<Rightarrow> 'w rocksDBBatch" where
  "newRocksDBBatch rk db = \<lparr>rdb_batch = Some (rk_NewWriteBatch rk)\<rparr>"

definition rocksDBBatch_Set ::
  "('d, 'r, 'o, 'c, 'w) gorocksdb_ops \<Rightarrow> 'w rocksDBBatch \<Rightarrow> slice \<Rightarrow> slice \<Rightarrow> 'w rocksDBBatch \<times> error option" where
  "rocksDBBatch_Set rk b key value' =
     (if len key = 0 then (b, Some errKeyEmpty)
      else if value' = None then (b, Some errValueNil)
      else case rdb_batch b of
             None \<Rightarrow> (b, Some errBatchClosed)
           | Some w \<Rightarrow> (b\<lparr>rdb_batch := Some (rk_BatchPut rk w key value')\<rparr>, None))"

definition rocksDBBatch_Delete ::
  "('d, 'r, 'o, 'c, 'w) gorocksdb_ops \<Rightarrow> 'w rocksDBBatch \<Rightarrow> slice \<Rightarrow> 'w rocksDBBatch \<times> error option" where
  "rocksDBBatch_Delete rk b key =
     (if len key = 0 then (b, Some errKeyEmpty)
      else case rdb_batch b of
             None \<Rightarrow> (b, Some errBatchClosed)
           | Some w \<Rightarrow> (b\<lparr>rdb_batch := Some (rk_BatchDelete rk w key)\<rparr>, None))"

text \<open>\<open>Close\<close> also frees the batch object of the package, which nobody can reach afterwards.\<close>

definition rocksDBBatch_Close :: "'w rocksDBBatch \<Rightarrow> 'w rocksDBBatch \<times> error option" where
  "rocksDBBatch_Close b = (if rdb_batch b \<noteq> None then (b\<lparr>rdb_batch := None\<rparr>, None) else (b, None))"

definition rocksDBBatch_Write ::
  "('d, 'r, 'o, 'c, 'w) gorocksdb_ops \<Rightarrow> 'w rocksDBBatch \<Rightarrow> ('d, 'r, 'o) RocksDB \<Rightarrow>
     'w rocksDBBatch \<times> ('d, 'r, 'o) RocksDB \<times> error option" where
  "rocksDBBatch_Write rk b db =
     (case rdb_batch b of
        None \<Rightarrow> (b, db, Some errBatchClosed)
      | Some w \<Rightarrow>
          (let (d, err) = rk_Write rk (rd_db db) (rd_wo db) w in
           if err \<noteq> None then (b, db\<lparr>rd_db := d\<rparr>, err)
           else let (b', _) = rocksDBBatch_Close b in (b', db\<lparr>rd_db := d\<rparr>, None)))"

definition rocksDBBatch_WriteSync ::
  "('d, 'r, 'o, 'c, 'w) gorocksdb_ops \<Rightarrow> 'w rocksDBBatch \<Rightarrow> ('d, 'r, 'o) RocksDB \<Rightarrow>
     'w rocksDBBatch \<times> ('d, 'r, 'o) RocksDB \<times> error option" where
  "rocksDBBatch_WriteSync rk b db =
     (case rdb_batch b of
        None \<Rightarrow> (b, db, Some errBatchClosed)
      | Some w \<Rightarrow>
          (let (d, err) = rk_Write rk (rd_db db) (rd_woSync db) w in
           if err \<noteq> None then (b, db\<lparr>rd_db := d\<rparr>, err)
           else let (b', err) = rocksDBBatch_Close b in (b', db\<lparr>rd_db := d\<rparr>, err)))"

definition rocksDBBatch_iface ::
  "('d, 'r, 'o, 'c, 'w) gorocksdb_ops \<Rightarrow> (('d, 'r, 'o) RocksDB, 'w rocksDBBatch) Batch" where
  "rocksDBBatch_iface rk =
     \<lparr>B_Set = rocksDBBatch_Set rk, B_Delete = rocksDBBatch_Delete rk, B_Write = rocksDBBatch_Write rk,
      B_WriteSync = rocksDBBatch_WriteSync rk, B_Close = rocksDBBatch_Close\<rparr>"

definition RocksDB_NewBatch ::
  "('d, 'r, 'o, 'c, 'w) gorocksdb_ops \<Rightarrow> ('d, 'r, 'o) RocksDB \<Rightarrow> 'w rocksDBBatch" where
  "RocksDB_NewBatch rk db = newRocksDBBatch rk db"

definition RocksDB_iface ::
  "('d, 'r, 'o, 'c, 'w) gorocksdb_ops \<Rightarrow> (('d, 'r, 'o) RocksDB, 'c rocksDBIterator, 'w rocksDBBatch) DB" where
  "RocksDB_iface rk =
     \<lparr>D_Get = RocksDB_Get rk, D_Has = RocksDB_Has rk, D_Set = RocksDB_Set rk, D_SetSync = RocksDB_SetSync rk,
      D_Delete = RocksDB_Delete rk, D_DeleteSync = RocksDB_DeleteSync rk, D_Iterator = RocksDB_Iterator rk,
      D_ReverseIterator = RocksDB_ReverseIterator rk, D_Close = RocksDB_Close rk,
      D_NewBatch = RocksDB_NewBatch rk, D_Print = RocksDB_Print rk, D_Stats = RocksDB_Stats rk,
      D_itr = rocksDBIterator_iface (rk_iter rk), D_bat = rocksDBBatch_iface rk\<rparr>"

lemmas RocksDB_defs [op_defs] =
  RocksDB_Get_def RocksDB_Has_def RocksDB_Set_def RocksDB_SetSync_def RocksDB_Delete_def
  RocksDB_DeleteSync_def RocksDB_Iterator_def RocksDB_ReverseIterator_def RocksDB_NewBatch_def
  newRocksDBBatch_def

lemmas rocksDBIterator_defs [op_defs] =
  rocksDBIterator_iface_def rocksDBIterator_Domain_def rocksDBIterator_assertIsValid_def
  rocksDBIterator_Key_def rocksDBIterator_Value_def rocksDBIterator_Next_def rocksDBIterator_Close_def

lemmas rocksDBBatch_defs [op_defs] =
  rocksDBBatch_iface_def rocksDBBatch_Set_def rocksDBBatch_Delete_def rocksDBBatch_Close_def
  rocksDBBatch_Write_def rocksDBBatch_WriteSync_def

section \<open>Abstraction\<close>

text \<open>The iterator of the package as a cursor that hands out copies.\<close>

definition copy_cursor :: "'c gorocksdb_iterator_ops \<Rightarrow> 'c cursor_ops" where
  "copy_cursor ri =
     \<lparr>cu_SeekToFirst = ri_SeekToFirst ri, cu_SeekToLast = ri_SeekToLast ri, cu_Seek = ri_Seek ri,
      cu_Next = ri_Next ri, cu_Prev = ri_Prev ri, cu_Valid = ri_Valid ri,
      cu_Key = (\<lambda>c. moveSliceToBytes (ri_Key ri c)), cu_Value = (\<lambda>c. moveSliceToBytes (ri_Value ri c)),
      cu_Error = ri_Err ri, cu_Close = ri_Close ri\<rparr>"

definition rdi_ok :: "('c \<Rightarrow> bool) \<Rightarrow> 'c rocksDBIterator \<Rightarrow> bool" where
  "rdi_ok cok itr \<longleftrightarrow> cok (rdi_source itr)"

definition rdi_rest :: "('c \<Rightarrow> zipper) \<Rightarrow> 'c rocksDBIterator \<Rightarrow> kv list" where
  "rdi_rest pos itr =
     (if rdi_isInvalid itr then []
      else walk_rest (rdi_isReverse itr) (rdi_start itr) (rdi_end itr) (pos (rdi_source itr)))"

definition rdb_ok :: "('w \<Rightarrow> kvop list) \<Rightarrow> 'w rocksDBBatch \<Rightarrow> bool" where
  "rdb_ok wops b \<longleftrightarrow> pred_option (\<lambda>w. list_all (\<lambda>p. kvop_key p \<noteq> []) (wops w)) (rdb_batch b)"

definition rdb_ops :: "('w \<Rightarrow> kvop list) \<Rightarrow> 'w rocksDBBatch \<Rightarrow> kvop list option" where
  "rdb_ops wops b = map_option wops (rdb_batch b)"

section \<open>The documented behaviour of the package\<close>

locale gorocksdb_laws = cursor_laws "copy_cursor (rk_iter rk)" cok items pos
  for rk :: "('d, 'r, 'o, 'c, 'w) gorocksdb_ops" and cok :: "'c \<Rightarrow> bool" and items :: "'c \<Rightarrow> kv list"
    and pos :: "'c \<Rightarrow> zipper" +
  fixes dok :: "'d \<Rightarrow> bool"
    and dents :: "'d \<Rightarrow> kv list"
    and wops :: "'w \<Rightarrow> kvop list"
  assumes OpenDb: "rk_OpenDb rk opts path = Inl d \<Longrightarrow> dok d"
    and dents_wf: "dok d \<Longrightarrow> kv_wf (dents d)"
    and Get: "dok d \<Longrightarrow> rk_Get rk d ro key =
      (case map_of (dents d) (sl key) of
         Some v \<Rightarrow> (\<lparr>rs_Exists = True, rs_Data = v\<rparr>, None)
       | None \<Rightarrow> (\<lparr>rs_Exists = False, rs_Data = []\<rparr>, None))"
    and Put: "dok d \<Longrightarrow> len key \<noteq> 0 \<Longrightarrow> rk_Put rk d wo key value' = (d', e) \<Longrightarrow>
      e = None \<and> dok d' \<and> dents d' = kv_set (sl key) (sl value') (dents d)"
    and Delete: "dok d \<Longrightarrow> rk_Delete rk d wo key = (d', e) \<Longrightarrow>
      e = None \<and> dok d' \<and> dents d' = kv_del (sl key) (dents d)"
    and Write: "dok d \<Longrightarrow> list_all (\<lambda>p. kvop_key p \<noteq> []) (wops w) \<Longrightarrow> rk_Write rk d wo w = (d', e) \<Longrightarrow>
      e = None \<and> dok d' \<and> dents d' = kv_apply_all (wops w) (dents d)"
    and NewIterator: "dok d \<Longrightarrow> cok (rk_NewIterator rk d ro) \<and> items (rk_NewIterator rk d ro) = dents d"
    and NewWriteBatch: "wops (rk_NewWriteBatch rk) = []"
    and BatchPut: "wops (rk_BatchPut rk w key value') = wops w @ [Put (sl key) (sl value')]"
    and BatchDelete: "wops (rk_BatchDelete rk w key) = wops w @ [Del (sl key)]"
begin

lemma Valid_rest:
  "rdi_ok cok itr \<Longrightarrow> rocksDBIterator_Valid (rk_iter rk) itr =
     (rdi_rest pos itr \<noteq> [], if rdi_rest pos itr \<noteq> [] then itr else itr\<lparr>rdi_isInvalid := True\<rparr>)"
  unfolding rdi_ok_def rdi_rest_def
  by (cases itr) (auto simp flip: cu_live_iff simp: rocksDBIterator_Valid_def cu_live_def copy_cursor_def Let_def)

lemma iterator_laws: "iterator_contract (rocksDBIterator_iface (rk_iter rk)) (rdi_ok cok) (rdi_rest pos)"
proof (unfold_locales, goal_cases)
  case (1 itr)
  then show ?case
    by (auto simp: rocksDBIterator_defs Valid_rest it_moved_def rdi_ok_def) (simp_all add: rdi_rest_def)
next
  case (2 itr k v xs)
  then show ?case
    using cu_live_head(1) [of "rdi_source itr" "rdi_isReverse itr" "rdi_start itr" "rdi_end itr" k v xs]
    by (simp add: rocksDBIterator_defs Valid_rest it_moved_def)
       (auto simp: rdi_ok_def rdi_rest_def copy_cursor_def split: if_splits)
next
  case (3 itr k v xs)
  then show ?case
    using cu_live_head(2) [of "rdi_source itr" "rdi_isReverse itr" "rdi_start itr" "rdi_end itr" k v xs]
    by (simp add: rocksDBIterator_defs Valid_rest it_moved_def)
       (auto simp: rdi_ok_def rdi_rest_def copy_cursor_def split: if_splits)
next
  case (4 itr x xs)
  then show ?case
    using cu_live_step [of "rdi_source itr" "rdi_isReverse itr" "rdi_start itr" "rdi_end itr" x xs]
    by (simp add: rocksDBIterator_defs Valid_rest it_moved_def)
       (auto simp: rdi_ok_def rdi_rest_def copy_cursor_def split: if_splits)
next
  case (8 itr)
  then show ?case
    using cu_error [of "rdi_source itr"]
    by (simp add: rocksDBIterator_iface_def rocksDBIterator_Error_def rdi_ok_def copy_cursor_def)
qed (simp_all add: rocksDBIterator_defs Valid_rest)

lemma new_iterator_at:
  assumes "cok c" and "kv_sorted (items c)"
  shows "rdi_ok cok (newRocksDBIterator (rk_iter rk) c start end' r)"
    and "rdi_rest pos (newRocksDBIterator (rk_iter rk) c start end' r) = kv_scan r start end' (items c)"
    and "rocksDBIterator_Domain (newRocksDBIterator (rk_iter rk) c start end' r) = (start, end')"
proof -
  let ?itr = "newRocksDBIterator (rk_iter rk) c start end' r"
  have "cok (rdi_source ?itr)
      \<and> walk_rest r start end' (pos (rdi_source ?itr)) = kv_scan r start end' (items c)"
    by (rule cu_place [OF assms]) (simp add: newRocksDBIterator_def copy_cursor_def Let_def)
  then show "rdi_ok cok ?itr" and "rdi_rest pos ?itr = kv_scan r start end' (items c)"
    by (simp_all add: rdi_ok_def rdi_rest_def newRocksDBIterator_def)
qed (simp add: newRocksDBIterator_def rocksDBIterator_Domain_def)

lemma new_iterator:
  assumes "dok (rd_db db)"
    and "itr = newRocksDBIterator (rk_iter rk) (rk_NewIterator rk (rd_db db) (rd_ro db)) start end' r"
  shows "rdi_ok cok itr" and "rdi_rest pos itr = kv_scan r start end' (dents (rd_db db))"
    and "rocksDBIterator_Domain itr = (start, end')"
  using new_iterator_at [of "rk_NewIterator rk (rd_db db) (rd_ro db)"] NewIterator [OF assms(1)]
    dents_wf [OF assms(1)]
  by (simp_all add: assms(2) kv_wf_def)

lemma RocksDB_db: "kv_db (RocksDB_iface rk) (rdi_ok cok) (rdi_rest pos)
  (\<lambda>db. dok (rd_db db)) (\<lambda>db. dents (rd_db db)) any_size"
proof (rule kv_db.intro [OF _ kv_db_axioms.intro], goal_cases)
  case 1
  show ?case by (simp add: RocksDB_iface_def iterator_laws)
next
  case (5 db k v db' e)
  then show ?case
    by (auto simp: RocksDB_iface_def RocksDB_Set_def set_error_def Let_def split: if_splits prod.splits dest!: Put [rotated 2])
next
  case (6 db k v db' e)
  then show ?case
    by (auto simp: RocksDB_iface_def RocksDB_SetSync_def set_error_def Let_def split: if_splits prod.splits dest!: Put [rotated 2])
next
  case (7 db k db' e)
  then show ?case
    by (auto simp: RocksDB_iface_def RocksDB_Delete_def key_error_def Let_def split: if_splits prod.splits dest!: Delete [rotated])
next
  case (8 db k db' e)
  then show ?case
    by (auto simp: RocksDB_iface_def RocksDB_DeleteSync_def key_error_def Let_def split: if_splits prod.splits dest!: Delete [rotated])
next
  case (10 db start end')
  then show ?case
    using new_iterator [OF 10(1) refl, of start end' False]
    by (auto simp: RocksDB_iface_def RocksDB_Iterator_def rocksDBIterator_iface_def domain_error_def split: if_splits)
next
  case (12 db start end')
  then show ?case
    using new_iterator [OF 12(1) refl, of start end' True]
    by (auto simp: RocksDB_iface_def RocksDB_ReverseIterator_def rocksDBIterator_iface_def domain_error_def split: if_splits)
qed (auto simp: RocksDB_iface_def RocksDB_defs domain_error_def rdb_ok_def rdb_ops_def NewWriteBatch dents_wf Get
       moveSliceToBytes_def split: option.splits if_splits)

lemma RocksDB_batch: "kv_batch (D_bat (RocksDB_iface rk)) (D_NewBatch (RocksDB_iface rk))
  (\<lambda>db. dok (rd_db db)) (\<lambda>db. dents (rd_db db)) (rdb_ok wops) (rdb_ops wops) any_size"
proof (rule kv_batch.intro, goal_cases)
  case (2 b k v b' e)
  then show ?case
    by (auto simp: RocksDB_iface_def rocksDBBatch_defs rdb_ok_def rdb_ops_def set_error_def batch_error_def BatchPut len_def
        split: if_splits option.splits)
next
  case (3 b k b' e)
  then show ?case
    by (auto simp: RocksDB_iface_def rocksDBBatch_defs rdb_ok_def rdb_ops_def key_error_def batch_error_def BatchDelete len_def
        split: if_splits option.splits)
next
  case (4 b db b' db' e)
  then show ?case
    by (auto simp: RocksDB_iface_def rocksDBBatch_defs rdb_ok_def rdb_ops_def Let_def
        split: option.splits prod.splits if_splits dest!: Write [rotated 2])
next
  case (5 b db b' db' e)
  then show ?case
    by (auto simp: RocksDB_iface_def rocksDBBatch_defs rdb_ok_def rdb_ops_def Let_def
        split: option.splits prod.splits if_splits dest!: Write [rotated 2])
next
  case (6 b b' e)
  then show ?case
    by (auto simp: RocksDB_iface_def rocksDBBatch_defs rdb_ok_def rdb_ops_def split: if_splits)
qed (auto simp: RocksDB_iface_def RocksDB_defs domain_error_def rdb_ok_def rdb_ops_def NewWriteBatch dents_wf Get
       moveSliceToBytes_def split: option.splits if_splits)

lemma RocksDB_store:
  "kv_store (RocksDB_iface rk) (rdi_ok cok) (rdi_rest pos) (\<lambda>db. dok (rd_db db)) (\<lambda>db. dents (rd_db db))
     (rdb_ok wops) (rdb_ops wops) any_size"
  by (rule kv_store.intro [OF RocksDB_db RocksDB_batch])

end

sublocale gorocksdb_laws \<subseteq> rocks: kv_store "RocksDB_iface rk" "rdi_ok cok" "rdi_rest pos"
  "\<lambda>db. dok (rd_db db)" "\<lambda>db. dents (rd_db db)" "rdb_ok wops" "rdb_ops wops" any_size
  by (rule RocksDB_store)

section \<open>An ordered list as the package's database\<close>

definition list_gorocksdb_iter :: "list_cursor gorocksdb_iterator_ops" where
  "list_gorocksdb_iter =
     (let cu = list_cursor_ops; slc = (\<lambda>x. \<lparr>rs_Exists = x \<noteq> None, rs_Data = sl x\<rparr>) in
      \<lparr>ri_SeekToFirst = cu_SeekToFirst cu, ri_SeekToLast = cu_SeekToLast cu, ri_Seek = cu_Seek cu,
       ri_Next = cu_Next cu, ri_Prev = cu_Prev cu, ri_Valid = cu_Valid cu,
       ri_Key = (\<lambda>c. slc (cu_Key cu c)), ri_Value = (\<lambda>c. slc (cu_Value cu c)),
       ri_Err = (\<lambda>c. None), ri_Close = (\<lambda>c. c)\<rparr>)"

definition list_gorocksdb :: "(kv list, unit, bool, list_cursor, kvop list) gorocksdb_ops" where
  "list_gorocksdb =
     \<lparr>rk_OpenDb = (\<lambda>opts path. Inl []), rk_NewDefaultReadOptions = (), rk_NewDefaultWriteOptions = False,
      rk_SetSync = (\<lambda>wo b. b), rk_DestroyReadOptions = (\<lambda>ro. ro), rk_DestroyWriteOptions = (\<lambda>wo. wo),
      rk_Get = (\<lambda>d ro k. (\<lparr>rs_Exists = map_of d (sl k) \<noteq> None, rs_Data = sl (map_of d (sl k))\<rparr>, None)),
      rk_Put = (\<lambda>d wo k v. (kv_set (sl k) (sl v) d, None)), rk_Delete = (\<lambda>d wo k. (kv_del (sl k) d, None)),
      rk_Write = (\<lambda>d wo w. (kv_apply_all w d, None)), rk_Close = (\<lambda>d. d), rk_GetProperty = (\<lambda>d name. []),
      rk_NewIterator = (\<lambda>d ro. \<lparr>lc_items = d, lc_pos = ([], [])\<rparr>), rk_NewWriteBatch = [],
      rk_BatchPut = (\<lambda>w k v. w @ [Put (sl k) (sl v)]), rk_BatchDelete = (\<lambda>w k. w @ [Del (sl k)]),
      rk_iter = list_gorocksdb_iter\<rparr>"

interpretation list_rk: gorocksdb_laws list_gorocksdb "\<lambda>c. True" lc_items lc_pos kv_wf "\<lambda>d. d" "\<lambda>w. w"
  by unfold_locales
     (auto simp: list_gorocksdb_def list_gorocksdb_iter_def copy_cursor_def list_cursor_ops_def Let_def
       moveSliceToBytes_def kv_simps kv_wf_apply_all len_def list_all_iff kv_wf_def [of "[]"] split: option.splits)

lemma NewRocksDB_ok:
  "gorocksdb_laws rk cok items pos dok dents wops \<Longrightarrow> NewRocksDB rk numCPU name dir = (Some db, err) \<Longrightarrow> dok (rd_db db)"
  using gorocksdb_laws.OpenDb [of rk cok items pos dok dents wops]
  by (auto simp: NewRocksDB_def NewRocksDBWithOptions_def Let_def split: sum.splits)

section \<open>Properties\<close>

text \<open>
  C28. A RocksDB that opens and works without I/O errors answers every sequence of calls as the
  ordered list of pairs does.
\<close>

theorem RocksDB_refines_ordered_map:
  assumes "gorocksdb_laws rk cok items pos dok dents wops" and "NewRocksDB rk numCPU name dir = (Some db, err)"
  shows "\<exists>db'. db_calls (RocksDB_iface rk) db cs = Ret (db', snd (spec_calls (dents (rd_db db)) cs))
    \<and> dents (rd_db db') = fst (spec_calls (dents (rd_db db)) cs)"
  using kv_store.db_calls_spec [OF gorocksdb_laws.RocksDB_store [OF assms(1)] NewRocksDB_ok [OF assms], of cs] by auto

theorem RocksDB_refines_ordered_map_witness:
  "\<exists>db'. db_calls (RocksDB_iface list_gorocksdb) \<lparr>rd_db = [], rd_ro = (), rd_wo = False, rd_woSync = True\<rparr>
      [CSet False (Some [5]) (Some []), CSet True (Some [6]) (Some [1]), CScan True (Some [5]) None, CGet (Some [5]),
       CDelete True None] =
      Ret (db', [AErr None, AErr None, AScan [(Some [6], Some [1]), (Some [5], Some [])] None,
                 AGet (Some []) None, AErr (Some errKeyEmpty)])
    \<and> rd_db db' = [([5], []), ([6], [1])]"
proof -
  have "NewRocksDB list_gorocksdb 8 ''app'' ''data'' =
      (Some \<lparr>rd_db = [], rd_ro = (), rd_wo = False, rd_woSync = True\<rparr>, None)"
    by (simp add: NewRocksDB_def NewRocksDBWithOptions_def list_gorocksdb_def)
  from RocksDB_refines_ordered_map [OF list_rk.gorocksdb_laws_axioms this,
      of "[CSet False (Some [5]) (Some []), CSet True (Some [6]) (Some [1]), CScan True (Some [5]) None,
           CGet (Some [5]), CDelete True None]"]
  show ?thesis
    by (simp add: set_error_def key_error_def domain_error_def kv_set_def kv_scan_def kv_range_def IsKeyInDomain_iff)
qed

end
