(* ===== verification/BoltDB.thy ===== *)
theory BoltDB
  imports Cursor MemDB
begin

text \<open>
  \<open>boltdb.go\<close>, \<open>boltdb_iterator.go\<close> and \<open>boltdb_batch.go\<close>: the backend over
  \<open>go.etcd.io/bbolt\<close>, whose operations are the argument \<open>bb\<close>. Every access runs in a
  transaction; \<open>Update\<close> and \<open>Batch\<close> take the body of a read-write transaction and commit or roll
  back by the error it returns. The documented behaviour is the locale \<open>bbolt_laws\<close>. Bolt
  refuses keys and values that are too large, so the contract holds for writes that fit. The
  batch shares the type \<open>operation\<close> of \<open>memdb_batch.go\<close>.
\<close>

section \<open>The operations of the package\<close>

record 'c bbolt_cursor_ops =
  bc_First :: "'c \<Rightarrow> (slice \<times> slice) \<times> 'c"
  bc_Last :: "'c \<Rightarrow> (slice \<times> slice) \<times> 'c"
  bc_Seek :: "'c \<Rightarrow> slice \<Rightarrow> (slice \<times> slice) \<times> 'c"
  bc_Next :: "'c \<Rightarrow> (slice \<times> slice) \<times> 'c"
  bc_Prev :: "'c \<Rightarrow> (slice \<times> slice) \<times> 'c"

record bbolt_Options =
  bo_ReadOnly :: bool

record bbolt_Stats =
  bs_FreePageN :: nat
  bs_PendingPageN :: nat
  bs_FreeAlloc :: nat
  bs_FreelistInuse :: nat
  bs_TxN :: nat
  bs_OpenTxN :: nat

text \<open>
  \<open>bb_View\<close> gives the transaction that \<open>View\<close> passes to its function, \<open>bb_ForEach\<close> the pairs that
  \<open>ForEach\<close> passes to its function. The operations on a bucket are those of \<open>tx.Bucket(name)\<close>.
\<close>

record ('d, 't, 'c) bbolt_ops =
  bb_DefaultOptions :: bbolt_Options
  bb_Open :: "string \<Rightarrow> bbolt_Options \<Rightarrow> 'd + error"
  bb_Update :: "'d \<Rightarrow> ('t \<Rightarrow> 't \<times> error option) \<Rightarrow> 'd \<times> error option"
  bb_Batch :: "'d \<Rightarrow> ('t \<Rightarrow> 't \<times> error option) \<Rightarrow> 'd \<times> error option"
  bb_View :: "'d \<Rightarrow> 't + error"
  bb_Begin :: "'d \<Rightarrow> bool \<Rightarrow> 't + error"
  bb_Rollback :: "'t \<Rightarrow> 't \<times> error option"
  bb_Close :: "'d \<Rightarrow> 'd \<times> error option"
  bb_Stats :: "'d \<Rightarrow> bbolt_Stats"
  bb_StatsString :: "bbolt_Stats \<Rightarrow> string"
  bb_CreateBucketIfNotExists :: "'t \<Rightarrow> slice \<Rightarrow> 't \<times> error option"
  bb_Get :: "'t \<Rightarrow> slice \<Rightarrow> slice \<Rightarrow> slice"
  bb_Put :: "'t \<Rightarrow> slice \<Rightarrow> slice \<Rightarrow> slice \<Rightarrow> 't \<times> error option"
  bb_Delete :: "'t \<Rightarrow> slice \<Rightarrow> slice \<Rightarrow> 't \<times> error option"
  bb_ForEach :: "'t \<Rightarrow> slice \<Rightarrow> (slice \<times> slice) list"
  bb_Cursor :: "'t \<Rightarrow> slice \<Rightarrow> 'c"
  bb_cur :: "'c bbolt_cursor_ops"

section \<open>The database\<close>

definition bucket :: slice where
  "bucket = Some [0x74, 0x6D]"

record 'd BoltDB =
  bd_db :: 'd

definition NewBoltDBWithOpts ::
  "('d, 't, 'c) bbolt_ops \<Rightarrow> string \<Rightarrow> string \<Rightarrow> bbolt_Options \<Rightarrow> 'd BoltDB option \<times> error option" where
  "NewBoltDBWithOpts bb name dir opts =
     (if bo_ReadOnly opts then (None, Some (ErrorString ''ReadOnly: true is not supported''))
      else let dbPath = filepath_Join [dir, name @ ''.db''] in
        case bb_Open bb dbPath opts of
          Inr err \<Rightarrow> (None, Some err)
        | Inl db \<Rightarrow>
            (let (db, err) = bb_Update bb db (\<lambda>tx. bb_CreateBucketIfNotExists bb tx bucket) in
             if err \<noteq> None then (None, err) else (Some \<lparr>bd_db = db\<rparr>, None)))"

definition NewBoltDB :: "('d, 't, 'c) bbolt_ops \<Rightarrow> string \<Rightarrow> string \<Rightarrow> 'd BoltDB option \<times> error option" where
  "NewBoltDB bb name dir = NewBoltDBWithOpts bb name dir (bb_DefaultOptions bb)"

definition BoltDB_Get :: "('d, 't, 'c) bbolt_ops \<Rightarrow> 'd BoltDB \<Rightarrow> slice \<Rightarrow> slice \<times> error option" where
  "BoltDB_Get bb bdb key =
     (if len key = 0 then (None, Some errKeyEmpty)
      else case bb_View bb (bd_db bdb) of
             Inr err \<Rightarrow> (None, Some err)
           | Inl tx \<Rightarrow>
               (let v = bb_Get bb tx bucket key in (if v \<noteq> None then Some ([] @ sl v) else None, None)))"

definition BoltDB_Has :: "('d, 't, 'c) bbolt_ops \<Rightarrow> 'd BoltDB \<Rightarrow> slice \<Rightarrow> bool \<times> error option" where
  "BoltDB_Has bb bdb key =
     (let (bytes, err) = BoltDB_Get bb bdb key in
      if err \<noteq> None then (False, err) else (bytes \<noteq> None, None))"

definition BoltDB_Set :: "('d, 't, 'c) bbolt_ops \<Rightarrow> 'd BoltDB \<Rightarrow> slice \<Rightarrow> slice \<Rightarrow> 'd BoltDB \<times> error option" where
  "BoltDB_Set bb bdb key value' =
     (if len key = 0 then (bdb, Some errKeyEmpty)
      else if value' = None then (bdb, Some errValueNil)
      else let (d, err) = bb_Update bb (bd_db bdb) (\<lambda>tx. bb_Put bb tx bucket key value')
        in (bdb\<lparr>bd_db := d\<rparr>, err))"

definition BoltDB_SetSync :: "('d, 't, 'c) bbolt_ops \<Rightarrow> 'd BoltDB \<Rightarrow> slice \<Rightarrow> slice \<Rightarrow> 'd BoltDB \<times> error option" where
  "BoltDB_SetSync bb bdb key value' = BoltDB_Set bb bdb key value'"

definition BoltDB_Delete :: "('d, 't, 'c) bbolt_ops \<Rightarrow> 'd BoltDB \<Rightarrow> slice \<Rightarrow> 'd BoltDB \<times> error option" where
  "BoltDB_Delete bb bdb key =
     (if len key = 0 then (bdb, Some errKeyEmpty)
      else let (d, err) = bb_Update bb (bd_db bdb) (\<lambda>tx. bb_Delete bb tx bucket key)
        in (bdb\<lparr>bd_db := d\<rparr>, err))"

definition BoltDB_DeleteSync :: "('d, 't, 'c) bbolt_ops \<Rightarrow> 'd BoltDB \<Rightarrow> slice \<Rightarrow> 'd BoltDB \<times> error option" where
  "BoltDB_DeleteSync bb bdb key = BoltDB_Delete bb bdb key"

definition BoltDB_Close :: "('d, 't, 'c) bbolt_ops \<Rightarrow> 'd BoltDB \<Rightarrow> 'd BoltDB \<times> error option" where
  "BoltDB_Close bb bdb = (let (d, err) = bb_Close bb (bd_db bdb) in (bdb\<lparr>bd_db := d\<rparr>, err))"

definition BoltDB_Print :: "('d, 't, 'c) bbolt_ops \<Rightarrow> 'd BoltDB \<Rightarrow> (string \<times> error option) res" where
  "BoltDB_Print bb bdb =
     (let out = bb_StatsString bb (bb_Stats bb (bd_db bdb)) @ [CHR 0x0A] in
      case bb_View bb (bd_db bdb) of
        Inr err \<Rightarrow> Ret (out, Some err)
      | Inl tx \<Rightarrow> Ret (out @ concat (map print_pair (bb_ForEach bb tx bucket)), None))"

definition BoltDB_Stats :: "('d, 't, 'c) bbolt_ops \<Rightarrow> 'd BoltDB \<Rightarrow> strmap" where
  "BoltDB_Stats bb bdb =
     (let stats = bb_Stats bb (bd_db bdb) in
      [''FreePageN'' \<mapsto> fmt_d (bs_FreePageN stats), ''PendingPageN'' \<mapsto> fmt_d (bs_PendingPageN stats),
       ''FreeAlloc'' \<mapsto> fmt_d (bs_FreeAlloc stats), ''FreelistInuse'' \<mapsto> fmt_d (bs_FreelistInuse stats),
       ''TxN'' \<mapsto> fmt_d (bs_TxN stats), ''OpenTxN'' \<mapsto> fmt_d (bs_OpenTxN stats)])"

section \<open>The iterator\<close>

record ('t, 'c) boltDBIterator =
  bi_tx :: 't
  bi_itr :: 'c
  bi_start :: slice
  bi_end :: slice
  bi_currentKey :: slice
  bi_currentValue :: slice
  bi_isInvalid :: bool
  bi_isReverse :: bool

definition newBoltDBIterator ::
  "('d, 't, 'c) bbolt_ops \<Rightarrow> 't \<Rightarrow> slice \<Rightarrow> slice \<Rightarrow> bool \<Rightarrow> ('t, 'c) boltDBIterator" where
  "newBoltDBIterator bb tx start end' isReverse =
     (let itr = bb_Cursor bb tx bucket; bc = bb_cur bb;
          ((ck, cv), itr) =
            (if isReverse then
               if end' = None then bc_Last bc itr
               else let (_, itr) = bc_Seek bc itr end' in bc_Prev bc itr
             else if start = None then bc_First bc itr
             else bc_Seek bc itr start)
      in \<lparr>bi_tx = tx, bi_itr = itr, bi_start = start, bi_end = end', bi_currentKey = ck, bi_currentValue = cv,
          bi_isInvalid = False, bi_isReverse = isReverse\<rparr>)"

definition boltDBIterator_Domain :: "('t, 'c) boltDBIterator \<Rightarrow> slice \<times> slice" where
  "boltDBIterator_Domain itr = (bi_start itr, bi_end itr)"

definition boltDBIterator_Error :: "('t, 'c) boltDBIterator \<Rightarrow> error option" where
  "boltDBIterator_Error itr = None"

definition boltDBIterator_Valid :: "('t, 'c) boltDBIterator \<Rightarrow> bool \<times> ('t, 'c) boltDBIterator" where
  "boltDBIterator_Valid itr =
     (if bi_isInvalid itr then (False, itr)
      else if boltDBIterator_Error itr \<noteq> None then (False, itr\<lparr>bi_isInvalid := True\<rparr>)
      else if bi_currentKey itr = None then (False, itr\<lparr>bi_isInvalid := True\<rparr>)
      else if bi_isReverse itr then
        if bi_start itr \<noteq> None \<and> bytes_Compare (bi_currentKey itr) (bi_start itr) < 0
        then (False, itr\<lparr>bi_isInvalid := True\<rparr>) else (True, itr)
      else if bi_end itr \<noteq> None \<and> bytes_Compare (bi_end itr) (bi_currentKey itr) \<le> 0
        then (False, itr\<lparr>bi_isInvalid := True\<rparr>) else (True, itr))"

definition boltDBIterator_assertIsValid :: "('t, 'c) boltDBIterator \<Rightarrow> ('t, 'c) boltDBIterator res" where
  "boltDBIterator_assertIsValid itr =
     (let (valid, itr) = boltDBIterator_Valid itr in if \<not> valid then Panic ''iterator is invalid'' else Ret itr)"

definition boltDBIterator_Next ::
  "'c bbolt_cursor_ops \<Rightarrow> ('t, 'c) boltDBIterator \<Rightarrow> ('t, 'c) boltDBIterator res" where
  "boltDBIterator_Next bc itr =
     bindR (boltDBIterator_assertIsValid itr) (\<lambda>itr.
       let ((ck, cv), c) = (if bi_isReverse itr then bc_Prev bc (bi_itr itr) else bc_Next bc (bi_itr itr))
       in Ret (itr\<lparr>bi_currentKey := ck, bi_currentValue := cv, bi_itr := c\<rparr>))"

definition boltDBIterator_Key :: "('t, 'c) boltDBIterator \<Rightarrow> (slice \<times> ('t, 'c) boltDBIterator) res" where
  "boltDBIterator_Key itr =
     bindR (boltDBIterator_assertIsValid itr) (\<lambda>itr. Ret (Some ([] @ sl (bi_currentKey itr)), itr))"

definition boltDBIterator_Value :: "('t, 'c) boltDBIterator \<Rightarrow> (slice \<times> ('t, 'c) boltDBIterator) res" where
  "boltDBIterator_Value itr =
     bindR (boltDBIterator_assertIsValid itr) (\<lambda>itr.
       Ret (if bi_currentValue itr \<noteq> None then Some ([] @ sl (bi_currentValue itr)) else None, itr))"

definition boltDBIterator_Close ::
  "('d, 't, 'c) bbolt_ops \<Rightarrow> ('t, 'c) boltDBIterator \<Rightarrow> ('t, 'c) boltDBIterator \<times> error option" where
  "boltDBIterator_Close bb itr = (let (tx, err) = bb_Rollback bb (bi_tx itr) in (itr\<lparr>bi_tx := tx\<rparr>, err))"

definition boltDBIterator_iface :: "('d, 't, 'c) bbolt_ops \<Rightarrow> ('t, 'c) boltDBIterator Iterator" where
  "boltDBIterator_iface bb =
     \<lparr>I_Domain = boltDBIterator_Domain, I_Valid = (\<lambda>itr. Ret (boltDBIterator_Valid itr)),
      I_Next = boltDBIterator_Next (bb_cur bb), I_Key = boltDBIterator_Key, I_Value = boltDBIterator_Value,
      I_Error = boltDBIterator_Error, I_Close = boltDBIterator_Close bb\<rparr>"

definition BoltDB_Iterator ::
  "('d, 't, 'c) bbolt_ops \<Rightarrow> 'd BoltDB \<Rightarrow> slice \<Rightarrow> slice \<Rightarrow> (('t, 'c) boltDBIterator option \<times> error option) res" where
  "BoltDB_Iterator bb bdb start end' =
     (if blank start \<or> blank end' then Ret (None, Some errKeyEmpty)
      else case bb_Begin bb (bd_db bdb) False of
             Inr err \<Rightarrow> Ret (None, Some err)
           | Inl tx \<Rightarrow> Ret (Some (newBoltDBIterator bb tx start end' False), None))"

definition BoltDB_ReverseIterator ::
  "('d, 't, 'c) bbolt_ops \<Rightarrow> 'd BoltDB \<Rightarrow> slice \<Rightarrow> slice \<Rightarrow> (('t, 'c) boltDBIterator option \<times> error option) res" where
  "BoltDB_ReverseIterator bb bdb start end' =
     (if blank start \<or> blank end' then Ret (None, Some errKeyEmpty)
      else case bb_Begin bb (bd_db bdb) False of
             Inr err \<Rightarrow> Ret (None, Some err)
           | Inl tx \<Rightarrow> Ret (Some (newBoltDBIterator bb tx start end' True), None))"

section \<open>The batch\<close>

record boltDBBatch =
  bbt_ops :: "operation list option"

definition newBoltDBBatch :: "'d BoltDB \<Rightarrow> boltDBBatch" where
  "newBoltDBBatch bdb = \<lparr>bbt_ops = Some []\<rparr>"

definition boltDBBatch_Set :: "boltDBBatch \<Rightarrow> slice \<Rightarrow> slice \<Rightarrow> boltDBBatch \<times> error option" where
  "boltDBBatch_Set b key value' =
     (if len key = 0 then (b, Some errKeyEmpty)
      else if value' = None then (b, Some errValueNil)
      else case bbt_ops b of
             None \<Rightarrow> (b, Some errBatchClosed)
           | Some ops \<Rightarrow>
               (b\<lparr>bbt_ops := Some (ops @ [\<lparr>op_opType = opTypeSet, op_key = key, op_value = value'\<rparr>])\<rparr>, None))"

definition boltDBBatch_Delete :: "boltDBBatch \<Rightarrow> slice \<Rightarrow> boltDBBatch \<times> error option" where
  "boltDBBatch_Delete b key =
     (if len key = 0 then (b, Some errKeyEmpty)
      else case bbt_ops b of
             None \<Rightarrow> (b, Some errBatchClosed)
           | Some ops \<Rightarrow>
               (b\<lparr>bbt_ops := Some (ops @ [\<lparr>op_opType = opTypeDelete, op_key = key, op_value = None\<rparr>])\<rparr>, None))"

definition boltDBBatch_Close :: "boltDBBatch \<Rightarrow> boltDBBatch \<times> error option" where
  "boltDBBatch_Close b = (b\<lparr>bbt_ops := None\<rparr>, None)"

text \<open>The body of the transaction: it stops at the first error and passes over unknown types.\<close>

fun boltDBBatch_body :: "('d, 't, 'c) bbolt_ops \<Rightarrow> operation list \<Rightarrow> 't \<Rightarrow> 't \<times> error option" where
  "boltDBBatch_body bb [] tx = (tx, None)"
| "boltDBBatch_body bb (p # ops) tx =
     (if op_opType p = opTypeSet then
        (case bb_Put bb tx bucket (op_key p) (op_value p) of
           (tx, Some err) \<Rightarrow> (tx, Some err)
         | (tx, None) \<Rightarrow> boltDBBatch_body bb ops tx)
      else if op_opType p = opTypeDelete then
        (case bb_Delete bb tx bucket (op_key p) of
           (tx, Some err) \<Rightarrow> (tx, Some err)
         | (tx, None) \<Rightarrow> boltDBBatch_body bb ops tx)
      else boltDBBatch_body bb ops tx)"

definition boltDBBatch_Write ::
  "('d, 't, 'c) bbolt_ops \<Rightarrow> boltDBBatch \<Rightarrow> 'd BoltDB \<Rightarrow> boltDBBatch \<times> 'd BoltDB \<times> error option" where
  "boltDBBatch_Write bb b bdb =
     (case bbt_ops b of
        None \<Rightarrow> (b, bdb, Some errBatchClosed)
      | Some ops \<Rightarrow>
          (let (d, err) = bb_Batch bb (bd_db bdb) (boltDBBatch_body bb ops) in
           if err \<noteq> None then (b, bdb\<lparr>bd_db := d\<rparr>, err)
           else let (b', err) = boltDBBatch_Close b in (b', bdb\<lparr>bd_db := d\<rparr>, err)))"

definition boltDBBatch_WriteSync ::
  "('d, 't, 'c) bbolt_ops \<Rightarrow> boltDBBatch \<Rightarrow> 'd BoltDB \<Rightarrow> boltDBBatch \<times> 'd BoltDB \<times> error option" where
  "boltDBBatch_WriteSync bb b bdb = boltDBBatch_Write bb b bdb"

definition boltDBBatch_iface :: "('d, 't, 'c) bbolt_ops \<Rightarrow> ('d BoltDB, boltDBBatch) Batch" where
  "boltDBBatch_iface bb =
     \<lparr>B_Set = boltDBBatch_Set, B_Delete = boltDBBatch_Delete, B_Write = boltDBBatch_Write bb,
      B_WriteSync = boltDBBatch_WriteSync bb, B_Close = boltDBBatch_Close\<rparr>"

definition BoltDB_NewBatch :: "'d BoltDB \<Rightarrow> boltDBBatch" where
  "BoltDB_NewBatch bdb = newBoltDBBatch bdb"

definition BoltDB_iface :: "('d, 't, 'c) bbolt_ops \<Rightarrow> ('d BoltDB, ('t, 'c) boltDBIterator, boltDBBatch) DB" where
  "BoltDB_iface bb =
     \<lparr>D_Get = BoltDB_Get bb, D_Has = BoltDB_Has bb, D_Set = BoltDB_Set bb, D_SetSync = BoltDB_SetSync bb,
      D_Delete = BoltDB_Delete bb, D_DeleteSync = BoltDB_DeleteSync bb, D_Iterator = BoltDB_Iterator bb,
      D_ReverseIterator = BoltDB_ReverseIterator bb, D_Close = BoltDB_Close bb, D_NewBatch = BoltDB_NewBatch,
      D_Print = BoltDB_Print bb, D_Stats = BoltDB_Stats bb, D_itr = boltDBIterator_iface bb,
      D_bat = boltDBBatch_iface bb\<rparr>"

lemmas BoltDB_defs [op_defs] =
  BoltDB_Get_def BoltDB_Has_def BoltDB_Set_def BoltDB_SetSync_def BoltDB_Delete_def BoltDB_DeleteSync_def
  BoltDB_Iterator_def BoltDB_ReverseIterator_def BoltDB_NewBatch_def newBoltDBBatch_def

lemmas boltDBIterator_defs [op_defs] =
  boltDBIterator_iface_def boltDBIterator_Domain_def boltDBIterator_Error_def boltDBIterator_assertIsValid_def
  boltDBIterator_Next_def boltDBIterator_Key_def boltDBIterator_Value_def boltDBIterator_Close_def

lemmas boltDBBatch_defs [op_defs] =
  boltDBBatch_iface_def boltDBBatch_Set_def boltDBBatch_Delete_def boltDBBatch_Close_def
  boltDBBatch_Write_def boltDBBatch_WriteSync_def

section \<open>Abstraction\<close>

text \<open>What a cursor returns at a position: the pair there, or nil.\<close>

definition zip_pair :: "zipper \<Rightarrow> slice \<times> slice" where
  "zip_pair z = (case snd z of [] \<Rightarrow> (None, None) | (k, v) # _ \<Rightarrow> (Some k, Some v))"

definition bi_ok ::
  "('t \<Rightarrow> bool) \<Rightarrow> ('c \<Rightarrow> bool) \<Rightarrow> ('c \<Rightarrow> zipper) \<Rightarrow> ('t, 'c) boltDBIterator \<Rightarrow> bool" where
  "bi_ok tok cok pos itr \<longleftrightarrow> tok (bi_tx itr) \<and> cok (bi_itr itr) \<and>
     (bi_currentKey itr, bi_currentValue itr) = zip_pair (pos (bi_itr itr))"

definition bi_rest :: "('c \<Rightarrow> zipper) \<Rightarrow> ('t, 'c) boltDBIterator \<Rightarrow> kv list" where
  "bi_rest pos itr =
     (if bi_isInvalid itr then []
      else walk_rest (bi_isReverse itr) (bi_start itr) (bi_end itr) (pos (bi_itr itr)))"

definition bbt_ok :: "boltDBBatch \<Rightarrow> bool" where
  "bbt_ok b \<longleftrightarrow> pred_option (list_all operation_ok) (bbt_ops b)"

definition bbt_kvops :: "boltDBBatch \<Rightarrow> kvop list option" where
  "bbt_kvops b = map_option (map op_kvop) (bbt_ops b)"

section \<open>The documented behaviour of the package\<close>

locale bbolt_laws =
  fixes bb :: "('d, 't, 'c) bbolt_ops"
    and dok :: "'d \<Rightarrow> bool" and dents :: "'d \<Rightarrow> kv list" and tx :: "'d \<Rightarrow> 't"
    and tok :: "'t \<Rightarrow> bool" and tents :: "'t \<Rightarrow> kv list"
    and cok :: "'c \<Rightarrow> bool" and items :: "'c \<Rightarrow> kv list" and pos :: "'c \<Rightarrow> zipper"
    and fits :: "byte list \<Rightarrow> byte list \<Rightarrow> bool"
  assumes Opened: "bb_Open bb path opts = Inl d \<Longrightarrow>
      bb_Update bb d (\<lambda>tx. bb_CreateBucketIfNotExists bb tx bucket) = (d', None) \<Longrightarrow> dok d'"
    and dents_wf: "dok d \<Longrightarrow> kv_wf (dents d)"
    and tx_begin: "dok d \<Longrightarrow> tok (tx d) \<and> tents (tx d) = dents d"
    and View: "dok d \<Longrightarrow> \<exists>t. bb_View bb d = Inl t \<and> tok t \<and> tents t = dents d"
    and Begin: "dok d \<Longrightarrow> \<exists>t. bb_Begin bb d False = Inl t \<and> tok t \<and> tents t = dents d"
    and Rollback: "tok t \<Longrightarrow> snd (bb_Rollback bb t) = None"
    and Update_commit: "dok d \<Longrightarrow> f (tx d) = (t', None) \<Longrightarrow> tok t' \<Longrightarrow> bb_Update bb d f = (d', e) \<Longrightarrow>
      e = None \<and> dok d' \<and> dents d' = tents t'"
    and Update_abort: "dok d \<Longrightarrow> f (tx d) = (t', Some err) \<Longrightarrow> bb_Update bb d f = (d', e) \<Longrightarrow>
      e = Some err \<and> dok d' \<and> dents d' = dents d"
    and Batch_commit: "dok d \<Longrightarrow> f (tx d) = (t', None) \<Longrightarrow> tok t' \<Longrightarrow> bb_Batch bb d f = (d', e) \<Longrightarrow>
      e = None \<and> dok d' \<and> dents d' = tents t'"
    and Batch_abort: "dok d \<Longrightarrow> f (tx d) = (t', Some err) \<Longrightarrow> bb_Batch bb d f = (d', e) \<Longrightarrow>
      e = Some err \<and> dok d' \<and> dents d' = dents d"
    and Get: "tok t \<Longrightarrow> bb_Get bb t bucket key = map_of (tents t) (sl key)"
    and Put: "tok t \<Longrightarrow> len key \<noteq> 0 \<Longrightarrow> fits (sl key) (sl value') \<Longrightarrow> bb_Put bb t bucket key value' = (t', e) \<Longrightarrow>
      e = None \<and> tok t' \<and> tents t' = kv_set (sl key) (sl value') (tents t)"
    and Put_too_large: "tok t \<Longrightarrow> \<not> fits (sl key) (sl value') \<Longrightarrow> snd (bb_Put bb t bucket key value') \<noteq> None"
    and Delete: "tok t \<Longrightarrow> bb_Delete bb t bucket key = (t', e) \<Longrightarrow>
      e = None \<and> tok t' \<and> tents t' = kv_del (sl key) (tents t)"
    and ForEach: "tok t \<Longrightarrow> bb_ForEach bb t bucket = map (\<lambda>(k, v). (Some k, Some v)) (tents t)"
    and Cursor: "tok t \<Longrightarrow> cok (bb_Cursor bb t bucket) \<and> items (bb_Cursor bb t bucket) = tents t"
    and First: "cok c \<Longrightarrow> bc_First (bb_cur bb) c = (p, c') \<Longrightarrow>
      cok c' \<and> items c' = items c \<and> pos c' = zip_first (items c) \<and> p = zip_pair (pos c')"
    and Last: "cok c \<Longrightarrow> bc_Last (bb_cur bb) c = (p, c') \<Longrightarrow>
      cok c' \<and> items c' = items c \<and> pos c' = zip_last (items c) \<and> p = zip_pair (pos c')"
    and Seek: "cok c \<Longrightarrow> bc_Seek (bb_cur bb) c key = (p, c') \<Longrightarrow>
      cok c' \<and> items c' = items c \<and> pos c' = zip_seek (sl key) (items c) \<and> p = zip_pair (pos c')"
    and Next: "cok c \<Longrightarrow> snd (pos c) \<noteq> [] \<Longrightarrow> bc_Next (bb_cur bb) c = (p, c') \<Longrightarrow>
      cok c' \<and> items c' = items c \<and> pos c' = zip_next (pos c) \<and> p = zip_pair (pos c')"
    and Prev: "cok c \<Longrightarrow> bc_Prev (bb_cur bb) c = (p, c') \<Longrightarrow>
      cok c' \<and> items c' = items c \<and> pos c' = zip_prev (pos c) \<and> p = zip_pair (pos c')"
begin

lemma Valid_rest:
  assumes "bi_ok tok cok pos itr"
  shows "boltDBIterator_Valid itr =
    (bi_rest pos itr \<noteq> [], if bi_rest pos itr \<noteq> [] then itr else itr\<lparr>bi_isInvalid := True\<rparr>)"
proof (cases "zip_items (bi_isReverse itr) (pos (bi_itr itr))")
  case Nil
  then have "snd (pos (bi_itr itr)) = []" by simp
  with Nil assms show ?thesis
    by (cases itr) (auto simp: bi_ok_def bi_rest_def boltDBIterator_Valid_def boltDBIterator_Error_def zip_pair_def
        walk_rest_def simp del: zip_items_Nil)
next
  case (Cons x xs)
  then obtain rs where "snd (pos (bi_itr itr)) = x # rs"
    by (cases "snd (pos (bi_itr itr))"; cases "bi_isReverse itr") (auto simp: zip_items_def)
  with Cons assms show ?thesis
    by (cases itr; cases x)
       (auto simp: bi_ok_def bi_rest_def boltDBIterator_Valid_def boltDBIterator_Error_def zip_pair_def
        walk_rest_def in_bounds_def bytes_Compare_neg bytes_Compare_le not_less not_le)
qed

lemma rest_head:
  assumes "bi_ok tok cok pos itr" and "bi_rest pos itr = (k, v) # xs"
  shows "bi_currentKey itr = Some k" and "bi_currentValue itr = Some v"
    and "snd (pos (bi_itr itr)) \<noteq> []"
proof -
  have "walk_rest (bi_isReverse itr) (bi_start itr) (bi_end itr) (pos (bi_itr itr)) = (k, v) # xs"
    using assms(2) by (simp add: bi_rest_def split: if_splits)
  from walk_rest_ConsD [OF this]
  obtain ys where "zip_items (bi_isReverse itr) (pos (bi_itr itr)) = (k, v) # ys" by blast
  then obtain rs where "snd (pos (bi_itr itr)) = (k, v) # rs"
    by (cases "snd (pos (bi_itr itr))"; cases "bi_isReverse itr") (auto simp: zip_items_def)
  then show "bi_currentKey itr = Some k" "bi_currentValue itr = Some v" "snd (pos (bi_itr itr)) \<noteq> []"
    using assms(1) by (simp_all add: bi_ok_def zip_pair_def)
qed

lemma rest_step:
  assumes "bi_ok tok cok pos itr" and "bi_rest pos itr = x # xs"
    and "(if bi_isReverse itr then bc_Prev (bb_cur bb) (bi_itr itr) else bc_Next (bb_cur bb) (bi_itr itr)) = ((ck, cv), c)"
  shows "bi_ok tok cok pos (itr\<lparr>bi_currentKey := ck, bi_currentValue := cv, bi_itr := c\<rparr>)"
    and "bi_rest pos (itr\<lparr>bi_currentKey := ck, bi_currentValue := cv, bi_itr := c\<rparr>) = xs"
proof -
  let ?r = "bi_isReverse itr"
  have cok: "cok (bi_itr itr)" using assms(1) by (simp add: bi_ok_def)
  have live: "snd (pos (bi_itr itr)) \<noteq> []" using rest_head(3) [OF assms(1), of "fst x" "snd x" xs] assms(2) by simp
  have "cok c \<and> items c = items (bi_itr itr) \<and>
      pos c = (if ?r then zip_prev (pos (bi_itr itr)) else zip_next (pos (bi_itr itr))) \<and> (ck, cv) = zip_pair (pos c)"
  proof (cases ?r)
    case True
    then have "bc_Prev (bb_cur bb) (bi_itr itr) = ((ck, cv), c)" using assms(3) by simp
    from Prev [OF cok this] True show ?thesis by simp
  next
    case False
    then have "bc_Next (bb_cur bb) (bi_itr itr) = ((ck, cv), c)" using assms(3) by simp
    from Next [OF cok live this] False show ?thesis by simp
  qed
  then have c: "cok c" "pos c = (if ?r then zip_prev (pos (bi_itr itr)) else zip_next (pos (bi_itr itr)))"
    "(ck, cv) = zip_pair (pos c)" by simp_all
  have w: "walk_rest ?r (bi_start itr) (bi_end itr) (pos (bi_itr itr)) = x # xs" "\<not> bi_isInvalid itr"
    using assms(2) by (simp_all add: bi_rest_def split: if_splits)
  from walk_rest_ConsD [OF w(1)] obtain ys where ys: "zip_items ?r (pos (bi_itr itr)) = x # ys"
    "xs = takeWhile (in_bounds ?r (bi_start itr) (bi_end itr)) ys" by blast
  show "bi_ok tok cok pos (itr\<lparr>bi_currentKey := ck, bi_currentValue := cv, bi_itr := c\<rparr>)"
    using c assms(1) by (simp add: bi_ok_def)
  show "bi_rest pos (itr\<lparr>bi_currentKey := ck, bi_currentValue := cv, bi_itr := c\<rparr>) = xs"
    using c(2) zip_items_step [OF ys(1)] ys(2) w(2) by (simp add: bi_rest_def walk_rest_def)
qed

lemma iterator_laws: "iterator_contract (boltDBIterator_iface bb) (bi_ok tok cok pos) (bi_rest pos)"
proof (unfold_locales, goal_cases)
  case (1 itr)
  then show ?case
    by (auto simp: boltDBIterator_defs Valid_rest it_moved_def bi_ok_def) (simp_all add: bi_rest_def)
next
  case (2 itr k v xs)
  then show ?case using rest_head(1) [OF 2] by (simp add: boltDBIterator_defs Valid_rest it_moved_def)
next
  case (3 itr k v xs)
  then show ?case using rest_head(2) [OF 3] by (simp add: boltDBIterator_defs Valid_rest it_moved_def)
next
  case (4 itr x xs)
  obtain ck cv c where step: "(if bi_isReverse itr then bc_Prev (bb_cur bb) (bi_itr itr)
      else bc_Next (bb_cur bb) (bi_itr itr)) = ((ck, cv), c)"
    by (metis surj_pair)
  show ?case
    using 4 rest_step [OF 4 step] by (simp add: boltDBIterator_defs Valid_rest it_moved_def step)
next
  case (9 itr)
  then show ?case using Rollback [of "bi_tx itr"] by (simp add: boltDBIterator_defs bi_ok_def split_beta)
qed (simp_all add: boltDBIterator_defs Valid_rest)

lemma place:
  assumes "cok c" and
    "(if r then if end' = None then bc_Last (bb_cur bb) c
                else let (_, c) = bc_Seek (bb_cur bb) c end' in bc_Prev (bb_cur bb) c
      else if start = None then bc_First (bb_cur bb) c else bc_Seek (bb_cur bb) c start) = ((ck, cv), c')"
  shows "cok c' \<and> (ck, cv) = zip_pair (pos c') \<and> zip_items r (pos c') = walk_items r start end' (items c)"
proof (cases r)
  case True
  show ?thesis
  proof (cases end')
    case None
    then have "bc_Last (bb_cur bb) c = ((ck, cv), c')" using True assms(2) by simp
    from Last [OF assms(1) this] True None show ?thesis by (simp add: walk_items_def zip_items_last)
  next
    case (Some e)
    obtain p c1 where c1: "bc_Seek (bb_cur bb) c end' = (p, c1)" by (metis surj_pair)
    then have 1: "cok c1" "pos c1 = zip_seek e (items c)" using Seek [OF assms(1) c1] Some by simp_all
    have "zip_items True (zip_prev (zip_seek e xs)) = rev (filter (\<lambda>x. fst x < e) xs)" for xs :: "kv list"
      by (cases "rev (filter (\<lambda>x. fst x < e) xs)") (simp_all add: zip_seek_def)
    moreover have "bc_Prev (bb_cur bb) c1 = ((ck, cv), c')" using True Some assms(2) c1 by simp
    from Prev [OF 1(1) this] have "cok c'" "pos c' = zip_prev (zip_seek e (items c))" "(ck, cv) = zip_pair (pos c')"
      using 1(2) by simp_all
    ultimately show ?thesis using True Some by (simp add: walk_items_def)
  qed
next
  case False
  show ?thesis
  proof (cases start)
    case None
    then have "bc_First (bb_cur bb) c = ((ck, cv), c')" using False assms(2) by simp
    from First [OF assms(1) this] False None show ?thesis by (simp add: walk_items_def zip_items_first)
  next
    case (Some k)
    then have "bc_Seek (bb_cur bb) c start = ((ck, cv), c')" using False assms(2) by simp
    from Seek [OF assms(1) this] False Some show ?thesis by (simp add: walk_items_def zip_items_seek)
  qed
qed

lemma new_iterator:
  assumes "tok t" and "kv_sorted (tents t)" and "itr = newBoltDBIterator bb t start end' r"
  shows "bi_ok tok cok pos itr" and "bi_rest pos itr = kv_scan r start end' (tents t)"
    and "boltDBIterator_Domain itr = (start, end')"
proof -
  have c: "cok (bb_Cursor bb t bucket)" "items (bb_Cursor bb t bucket) = tents t" using Cursor [OF assms(1)] by auto
  obtain ck cv c' where p: "(if r then if end' = None then bc_Last (bb_cur bb) (bb_Cursor bb t bucket)
               else let (_, c) = bc_Seek (bb_cur bb) (bb_Cursor bb t bucket) end' in bc_Prev (bb_cur bb) c
     else if start = None then bc_First (bb_cur bb) (bb_Cursor bb t bucket)
     else bc_Seek (bb_cur bb) (bb_Cursor bb t bucket) start) = ((ck, cv), c')"
    by (metis surj_pair)
  have itr: "itr = \<lparr>bi_tx = t, bi_itr = c', bi_start = start, bi_end = end', bi_currentKey = ck,
      bi_currentValue = cv, bi_isInvalid = False, bi_isReverse = r\<rparr>"
    unfolding assms(3) newBoltDBIterator_def Let_def p [unfolded Let_def] by simp
  from place [OF c(1) p] show "bi_ok tok cok pos itr" "bi_rest pos itr = kv_scan r start end' (tents t)"
    "boltDBIterator_Domain itr = (start, end')"
    using walk_rest_scan [OF assms(2)] c(2) assms(1) itr
    by (simp_all add: bi_ok_def bi_rest_def boltDBIterator_Domain_def)
qed

text \<open>The body of a batch either applies all writes or, when one of them is too large, fails.\<close>

lemma body_applies:
  assumes "tok t" and "list_all operation_ok ops" and "list_all (op_fits fits \<circ> op_kvop) ops"
  shows "\<exists>t'. boltDBBatch_body bb ops t = (t', None) \<and> tok t' \<and> tents t' = kv_apply_all (map op_kvop ops) (tents t)"
  using assms
proof (induction ops arbitrary: t)
  case (Cons p ops)
  obtain t1 e1 where put: "bb_Put bb t bucket (op_key p) (op_value p) = (t1, e1)" by force
  obtain t2 e2 where del: "bb_Delete bb t bucket (op_key p) = (t2, e2)" by force
  consider (set) "op_opType p = opTypeSet" | (delete) "op_opType p = opTypeDelete" "op_opType p \<noteq> opTypeSet"
    using Cons.prems(2) by (cases "op_opType p = opTypeSet") (auto simp: operation_ok_def)
  then show ?case
  proof cases
    case set
    then have 1: "e1 = None" "tok t1" "tents t1 = kv_apply (op_kvop p) (tents t)"
      using Put [OF Cons.prems(1) _ _ put] Cons.prems(2,3) by (auto simp: operation_ok_def)
    then show ?thesis using set put Cons.prems(2,3) Cons.IH [OF 1(2)] by simp
  next
    case delete
    then have 1: "e2 = None" "tok t2" "tents t2 = kv_apply (op_kvop p) (tents t)"
      using Delete [OF Cons.prems(1) del] by auto
    then show ?thesis using delete del Cons.prems(2,3) Cons.IH [OF 1(2)] by simp
  qed
qed simp

lemma body_fails:
  assumes "tok t" and "list_all operation_ok ops" and "p \<in> set ops" and "op_opType p = opTypeSet"
    and "\<not> fits (sl (op_key p)) (sl (op_value p))"
  shows "\<exists>t' e. boltDBBatch_body bb ops t = (t', Some e)"
  using assms
proof (induction ops arbitrary: t)
  case (Cons q ops)
  obtain t1 e1 where put: "bb_Put bb t bucket (op_key q) (op_value q) = (t1, e1)" by force
  obtain t2 e2 where del: "bb_Delete bb t bucket (op_key q) = (t2, e2)" by force
  show ?case
  proof (cases "op_opType q = opTypeSet \<and> \<not> fits (sl (op_key q)) (sl (op_value q))")
    case True
    then show ?thesis using Put_too_large [OF Cons.prems(1)] put by fastforce
  next
    case False
    then have p: "p \<in> set ops" using Cons.prems(3-5) by auto
    show ?thesis
    proof (cases "op_opType q = opTypeSet")
      case True
      then have 1: "e1 = None" "tok t1"
        using False Put [OF Cons.prems(1) _ _ put] Cons.prems(2) by (auto simp: operation_ok_def)
      then show ?thesis using True put p Cons.prems(2,4,5) Cons.IH [OF 1(2)] by simp
    next
      case False
      moreover have "op_opType q = opTypeDelete" using False Cons.prems(2) by (auto simp: operation_ok_def)
      moreover have 1: "e2 = None" "tok t2" using Delete [OF Cons.prems(1) del] by auto
      ultimately show ?thesis using del p Cons.prems(2,4,5) Cons.IH [OF 1(2)] by simp
    qed
  qed
qed simp

lemma Print_all:
  assumes "dok (bd_db bdb)"
  shows "BoltDB_Print bb bdb = Ret (bb_StatsString bb (bb_Stats bb (bd_db bdb)) @ [CHR 0x0A] @
    concat (map (\<lambda>(k, v). print_pair (Some k, Some v)) (dents (bd_db bdb))), None)"
  using View [OF assms] ForEach by (auto simp: BoltDB_Print_def comp_def case_prod_unfold)

lemma Update_Set:
  assumes "dok d" and "len key \<noteq> 0" and "fits (sl key) (sl value')"
    and "bb_Update bb d (\<lambda>t. bb_Put bb t bucket key value') = (d', e)"
  shows "e = None \<and> dok d' \<and> dents d' = kv_set (sl key) (sl value') (dents d)"
proof -
  have t: "tok (tx d)" "tents (tx d) = dents d" using tx_begin [OF assms(1)] by simp_all
  obtain t' e' where put: "bb_Put bb (tx d) bucket key value' = (t', e')" by force
  from Put [OF t(1) assms(2,3) put] t(2) Update_commit [OF assms(1) _ _ assms(4), of t'] put show ?thesis by simp
qed

lemma Update_Delete:
  assumes "dok d" and "bb_Update bb d (\<lambda>t. bb_Delete bb t bucket key) = (d', e)"
  shows "e = None \<and> dok d' \<and> dents d' = kv_del (sl key) (dents d)"
proof -
  have t: "tok (tx d)" "tents (tx d) = dents d" using tx_begin [OF assms(1)] by simp_all
  obtain t' e' where del: "bb_Delete bb (tx d) bucket key = (t', e')" by force
  from Delete [OF t(1) del] t(2) Update_commit [OF assms(1) _ _ assms(2), of t'] del show ?thesis by simp
qed

lemma Batch_body:
  assumes "dok d" and "list_all operation_ok ops" and "list_all (op_fits fits) (map op_kvop ops)"
    and "bb_Batch bb d (boltDBBatch_body bb ops) = (d', e)"
  shows "e = None \<and> dok d' \<and> dents d' = kv_apply_all (map op_kvop ops) (dents d)"
proof -
  have t: "tok (tx d)" "tents (tx d) = dents d" using tx_begin [OF assms(1)] by simp_all
  from body_applies [OF t(1) assms(2)] assms(3) obtain t' where
    "boltDBBatch_body bb ops (tx d) = (t', None)" "tok t'" "tents t' = kv_apply_all (map op_kvop ops) (tents (tx d))"
    by (auto simp: list_all_iff)
  with Batch_commit [OF assms(1) _ _ assms(4)] t(2) show ?thesis by simp
qed

lemma Write_fits:
  assumes "bbt_ok b" and "dok (bd_db bdb)" and "pred_option (list_all (op_fits fits)) (bbt_kvops b)"
    and "boltDBBatch_Write bb b bdb = (b', bdb', e)"
  shows "e = batch_error None (bbt_kvops b) \<and> bbt_ok b' \<and> bbt_kvops b' = None \<and> dok (bd_db bdb') \<and>
    dents (bd_db bdb') = (case bbt_kvops b of None \<Rightarrow> dents (bd_db bdb)
      | Some ops \<Rightarrow> kv_apply_all ops (dents (bd_db bdb)))"
proof (cases "bbt_ops b")
  case None
  then show ?thesis using assms by (auto simp: boltDBBatch_Write_def bbt_kvops_def bbt_ok_def)
next
  case (Some ops)
  obtain d err where "bb_Batch bb (bd_db bdb) (boltDBBatch_body bb ops) = (d, err)" by force
  with Batch_body [OF assms(2) _ _ this] Some assms show ?thesis
    by (auto simp: boltDBBatch_Write_def boltDBBatch_Close_def bbt_kvops_def bbt_ok_def simp del: op_kvop.simps)
qed

text \<open>
  A batch with a write that does not fit: the write reports an error, the transaction is rolled
  back, and the batch stays open with its writes.
\<close>

lemma Write_too_large:
  assumes "bbt_ok b" and "dok (bd_db bdb)" and "bbt_kvops b = Some ops" and "Put k v \<in> set ops" and "\<not> fits k v"
    and "boltDBBatch_Write bb b bdb = (b', bdb', e)"
  shows "e \<noteq> None \<and> b' = b \<and> dok (bd_db bdb') \<and> dents (bd_db bdb') = dents (bd_db bdb)"
proof -
  obtain ps where ps: "bbt_ops b = Some ps" "ops = map op_kvop ps" using assms(3) by (auto simp: bbt_kvops_def)
  then obtain p where p: "p \<in> set ps" "op_opType p = opTypeSet" "k = sl (op_key p)" "v = sl (op_value p)"
    using assms(4) by (auto split: if_splits)
  obtain d err where d: "bb_Batch bb (bd_db bdb) (boltDBBatch_body bb ps) = (d, err)" by force
  have "list_all operation_ok ps" using assms(1) ps by (simp add: bbt_ok_def)
  from body_fails [OF conjunct1 [OF tx_begin [OF assms(2)]] this p(1,2)] assms(5) p(3,4)
  obtain t' e' where "boltDBBatch_body bb ps (tx (bd_db bdb)) = (t', Some e')" by auto
  from Batch_abort [OF assms(2) this d] d assms(6) ps(1) show ?thesis by (auto simp: boltDBBatch_Write_def)
qed

lemma BoltDB_db: "kv_db (BoltDB_iface bb) (bi_ok tok cok pos) (bi_rest pos)
  (\<lambda>bdb. dok (bd_db bdb)) (\<lambda>bdb. dents (bd_db bdb)) fits"
proof (rule kv_db.intro [OF _ kv_db_axioms.intro], goal_cases)
  case 1
  show ?case by (simp add: BoltDB_iface_def iterator_laws)
next
  case (3 bdb k)
  then show ?case using View [OF 3] Get by (auto simp: BoltDB_iface_def BoltDB_defs Let_def)
next
  case (4 bdb k)
  then show ?case using View [OF 4] Get by (auto simp: BoltDB_iface_def BoltDB_defs Let_def)
next
  case (5 bdb k v bdb' e)
  then show ?case
    by (auto simp: BoltDB_iface_def BoltDB_defs set_error_def set_fits_def Let_def split: if_splits prod.splits
        dest!: Update_Set [rotated 3])
next
  case (6 bdb k v bdb' e)
  then show ?case
    by (auto simp: BoltDB_iface_def BoltDB_defs set_error_def set_fits_def Let_def split: if_splits prod.splits
        dest!: Update_Set [rotated 3])
next
  case (7 bdb k bdb' e)
  then show ?case
    by (auto simp: BoltDB_iface_def BoltDB_defs key_error_def Let_def split: if_splits prod.splits dest!: Update_Delete [rotated])
next
  case (8 bdb k bdb' e)
  then show ?case
    by (auto simp: BoltDB_iface_def BoltDB_defs key_error_def Let_def split: if_splits prod.splits dest!: Update_Delete [rotated])
next
  case (10 bdb start end')
  then obtain t where t: "bb_Begin bb (bd_db bdb) False = Inl t" "tok t" "tents t = dents (bd_db bdb)" using Begin by blast
  then show ?case
    using 10 new_iterator [OF t(2) _ refl, of start end' False] dents_wf [OF 10(1)]
    by (auto simp: BoltDB_iface_def BoltDB_defs boltDBIterator_iface_def domain_error_def kv_wf_def split: if_splits)
next
  case (12 bdb start end')
  then obtain t where t: "bb_Begin bb (bd_db bdb) False = Inl t" "tok t" "tents t = dents (bd_db bdb)" using Begin by blast
  then show ?case
    using 12 new_iterator [OF t(2) _ refl, of start end' True] dents_wf [OF 12(1)]
    by (auto simp: BoltDB_iface_def BoltDB_defs boltDBIterator_iface_def domain_error_def kv_wf_def split: if_splits)
qed (auto simp: BoltDB_iface_def BoltDB_defs domain_error_def bbt_ok_def bbt_kvops_def dents_wf split: if_splits)

lemma BoltDB_batch: "kv_batch (D_bat (BoltDB_iface bb)) (D_NewBatch (BoltDB_iface bb))
  (\<lambda>bdb. dok (bd_db bdb)) (\<lambda>bdb. dents (bd_db bdb)) bbt_ok bbt_kvops fits"
proof (rule kv_batch.intro, goal_cases)
  case (2 b k v b' e)
  then show ?case
    by (auto simp: BoltDB_iface_def boltDBBatch_iface_def boltDBBatch_Set_def bbt_ok_def bbt_kvops_def set_error_def
        batch_error_def operation_ok_def split: if_splits option.splits)
next
  case (3 b k b' e)
  then show ?case
    by (auto simp: BoltDB_iface_def boltDBBatch_iface_def boltDBBatch_Delete_def bbt_ok_def bbt_kvops_def key_error_def
        batch_error_def operation_ok_def opTypeSet_def opTypeDelete_def split: if_splits option.splits)
next
  case (4 b bdb b' bdb' e)
  then have w: "boltDBBatch_Write bb b bdb = (b', bdb', e)" by (simp add: BoltDB_iface_def boltDBBatch_iface_def)
  show ?case by (rule Write_fits [OF 4(1-3) w])
next
  case (5 b bdb b' bdb' e)
  then have w: "boltDBBatch_Write bb b bdb = (b', bdb', e)"
    by (simp add: BoltDB_iface_def boltDBBatch_iface_def boltDBBatch_WriteSync_def)
  show ?case by (rule Write_fits [OF 5(1-3) w])
next
  case (6 b b' e)
  then show ?case by (auto simp: BoltDB_iface_def boltDBBatch_iface_def boltDBBatch_Close_def bbt_ok_def bbt_kvops_def)
qed (auto simp: BoltDB_iface_def BoltDB_defs domain_error_def bbt_ok_def bbt_kvops_def dents_wf split: if_splits)

lemma BoltDB_store:
  "kv_store (BoltDB_iface bb) (bi_ok tok cok pos) (bi_rest pos) (\<lambda>bdb. dok (bd_db bdb)) (\<lambda>bdb. dents (bd_db bdb))
     bbt_ok bbt_kvops fits"
  by (rule kv_store.intro [OF BoltDB_db BoltDB_batch])

end

sublocale bbolt_laws \<subseteq> bolt: kv_store "BoltDB_iface bb" "bi_ok tok cok pos" "bi_rest pos"
  "\<lambda>bdb. dok (bd_db bdb)" "\<lambda>bdb. dents (bd_db bdb)" bbt_ok bbt_kvops fits
  by (rule BoltDB_store)

section \<open>An ordered list as the package's database\<close>

text \<open>
  A database is the content of the bucket, a transaction the content it sees so far. The limits
  are those of the package, 32768 bytes for a key and \<open>2\<^sup>31 - 2\<close> for a value.
\<close>

definition bolt_fits :: "byte list \<Rightarrow> byte list \<Rightarrow> bool" where
  "bolt_fits k v \<longleftrightarrow> length k \<le> 32768 \<and> length v \<le> 2147483646"

text \<open>A key that is one byte too long.\<close>

definition long_key :: "byte list" where
  "long_key = replicate 32769 0"

definition list_bbolt_commit :: "kv list \<Rightarrow> (kv list \<Rightarrow> kv list \<times> error option) \<Rightarrow> kv list \<times> error option" where
  "list_bbolt_commit d f = (case f d of (t, None) \<Rightarrow> (t, None) | (t, Some e) \<Rightarrow> (d, Some e))"

definition list_bbolt_cur :: "list_cursor bbolt_cursor_ops" where
  "list_bbolt_cur =
     (let at = (\<lambda>c z. (zip_pair z, c\<lparr>lc_pos := z\<rparr>)) in
      \<lparr>bc_First = (\<lambda>c. at c (zip_first (lc_items c))), bc_Last = (\<lambda>c. at c (zip_last (lc_items c))),
       bc_Seek = (\<lambda>c k. at c (zip_seek (sl k) (lc_items c))), bc_Next = (\<lambda>c. at c (zip_next (lc_pos c))),
       bc_Prev = (\<lambda>c. at c (zip_prev (lc_pos c)))\<rparr>)"

definition list_bbolt :: "(kv list, kv list, list_cursor) bbolt_ops" where
  "list_bbolt =
     \<lparr>bb_DefaultOptions = \<lparr>bo_ReadOnly = False\<rparr>, bb_Open = (\<lambda>path opts. Inl []),
      bb_Update = list_bbolt_commit, bb_Batch = list_bbolt_commit,
      bb_View = Inl, bb_Begin = (\<lambda>d writable. Inl d), bb_Rollback = (\<lambda>t. (t, None)), bb_Close = (\<lambda>d. (d, None)),
      bb_Stats = (\<lambda>d. \<lparr>bs_FreePageN = 0, bs_PendingPageN = 0, bs_FreeAlloc = 0, bs_FreelistInuse = 0, bs_TxN = 0,
        bs_OpenTxN = 0\<rparr>),
      bb_StatsString = (\<lambda>s. []), bb_CreateBucketIfNotExists = (\<lambda>t b. (t, None)),
      bb_Get = (\<lambda>t b k. map_of t (sl k)),
      bb_Put = (\<lambda>t b k v. if len k = 0 then (t, Some (Foreign ''key required''))
        else if 32768 < len k then (t, Some (Foreign ''key too large''))
        else if 2147483646 < len v then (t, Some (Foreign ''value too large''))
        else (kv_set (sl k) (sl v) t, None)),
      bb_Delete = (\<lambda>t b k. (kv_del (sl k) t, None)), bb_ForEach = (\<lambda>t b. map (\<lambda>(k, v). (Some k, Some v)) t),
      bb_Cursor = (\<lambda>t b. \<lparr>lc_items = t, lc_pos = ([], [])\<rparr>), bb_cur = list_bbolt_cur\<rparr>"

interpretation list_bb: bbolt_laws list_bbolt kv_wf "\<lambda>d. d" "\<lambda>d. d" kv_wf "\<lambda>t. t" "\<lambda>c. True" lc_items lc_pos bolt_fits
  by unfold_locales
     (auto simp: list_bbolt_def list_bbolt_cur_def list_bbolt_commit_def bolt_fits_def Let_def kv_simps len_def
       kv_wf_def [of "[]"] split: if_splits)

lemma length_long_key [simp]: "length long_key = 32769"
  by (simp only: long_key_def length_replicate)

lemma NewBoltDB_ok:
  "bbolt_laws bb dok dents tx tok tents cok items pos fits \<Longrightarrow> NewBoltDB bb name dir = (Some bdb, err) \<Longrightarrow> dok (bd_db bdb)"
  using bbolt_laws.Opened [of bb dok dents tx tok tents cok items pos fits]
  by (auto simp: NewBoltDB_def NewBoltDBWithOpts_def Let_def split: sum.splits if_splits prod.splits)

section \<open>Properties\<close>

text \<open>
  C29. A BoltDB that opens and works without I/O errors answers every sequence of calls whose keys
  and values are within Bolt's limits as the ordered list of pairs does.
\<close>

theorem BoltDB_refines_ordered_map:
  assumes "bbolt_laws bb dok dents tx tok tents cok items pos fits" and "NewBoltDB bb name dir = (Some bdb, err)"
    and "list_all (call_fits fits) cs"
  shows "\<exists>bdb'. db_calls (BoltDB_iface bb) bdb cs = Ret (bdb', snd (spec_calls (dents (bd_db bdb)) cs))
    \<and> dents (bd_db bdb') = fst (spec_calls (dents (bd_db bdb)) cs)"
  using kv_store.db_calls_spec [OF bbolt_laws.BoltDB_store [OF assms(1)] NewBoltDB_ok [OF assms(1,2)] assms(3)] by auto

theorem BoltDB_refines_ordered_map_witness:
  "\<exists>bdb'. db_calls (BoltDB_iface list_bbolt) \<lparr>bd_db = []\<rparr>
      [CBatch False [BSet (Some [2]) (Some [9]), BDelete (Some [1]), BSet (Some [1]) (Some []), BSet None None],
       CScan True None (Some [2]), CScan False None None] =
      Ret (bdb', [ABatch [None, None, None, Some errKeyEmpty] None, AScan [(Some [1], Some [])] None,
                  AScan [(Some [1], Some []), (Some [2], Some [9])] None])
    \<and> bd_db bdb' = [([1], []), ([2], [9])]"
proof -
  have "NewBoltDB list_bbolt ''app'' ''data'' = (Some \<lparr>bd_db = []\<rparr>, None)"
    by (simp add: NewBoltDB_def NewBoltDBWithOpts_def list_bbolt_def list_bbolt_commit_def)
  from BoltDB_refines_ordered_map [OF list_bb.bbolt_laws_axioms this,
      of "[CBatch False [BSet (Some [2]) (Some [9]), BDelete (Some [1]), BSet (Some [1]) (Some []), BSet None None],
           CScan True None (Some [2]), CScan False None None]"]
  show ?thesis
    by (simp add: accepted_def bolt_fits_def set_error_def key_error_def domain_error_def kv_set_def kv_del_def kv_scan_def
        kv_range_def IsKeyInDomain_iff)
qed

text \<open>
  C30. A Bolt batch is atomic: if one of the collected writes exceeds the limits, \<open>Write\<close> and
  \<open>WriteSync\<close> report an error, none of the writes is applied, and the batch stays open with its
  writes, so that the caller may close it or try again.
\<close>

theorem BoltDB_batch_atomic:
  assumes "bbolt_laws bb dok dents tx tok tents cok items pos fits" and "dok (bd_db bdb)"
    and "batch_calls (boltDBBatch_iface bb) (BoltDB_NewBatch bdb) cs = (b, es)"
    and "Put k v \<in> set (accepted cs)" and "\<not> fits k v"
    and "(if sync then boltDBBatch_WriteSync bb b bdb else boltDBBatch_Write bb b bdb) = (b', bdb', e)"
  shows "e \<noteq> None \<and> b' = b \<and> dents (bd_db bdb') = dents (bd_db bdb) \<and> bbt_kvops b' = Some (accepted cs)"
proof -
  note store = bbolt_laws.BoltDB_store [OF assms(1)]
  have "bbt_ok b \<and> bbt_kvops b = Some (accepted cs)"
    using kv_store.batch_calls_spec [OF store, of "BoltDB_NewBatch bdb" "[]" cs b es] assms(3)
    by (simp add: BoltDB_iface_def BoltDB_NewBatch_def newBoltDBBatch_def bbt_ok_def bbt_kvops_def)
  moreover from this have "e \<noteq> None \<and> b' = b \<and> dok (bd_db bdb') \<and> dents (bd_db bdb') = dents (bd_db bdb)"
    using bbolt_laws.Write_too_large [OF assms(1) _ assms(2) _ assms(4,5), of b b' bdb' e] assms(6)
    by (cases sync) (auto simp: boltDBBatch_WriteSync_def)
  ultimately show ?thesis by simp
qed

theorem BoltDB_batch_atomic_witness:
  "\<exists>e. boltDBBatch_Write list_bbolt
      \<lparr>bbt_ops = Some [\<lparr>op_opType = opTypeSet, op_key = Some [1], op_value = Some [7]\<rparr>,
        \<lparr>op_opType = opTypeSet, op_key = Some long_key, op_value = Some []\<rparr>]\<rparr> \<lparr>bd_db = [([3], [4])]\<rparr>
    = (\<lparr>bbt_ops = Some [\<lparr>op_opType = opTypeSet, op_key = Some [1], op_value = Some [7]\<rparr>,
        \<lparr>op_opType = opTypeSet, op_key = Some long_key, op_value = Some []\<rparr>]\<rparr>, \<lparr>bd_db = [([3], [4])]\<rparr>, Some e)"
proof -
  let ?b = "\<lparr>bbt_ops = Some [\<lparr>op_opType = opTypeSet, op_key = Some [1], op_value = Some [7]\<rparr>,
        \<lparr>op_opType = opTypeSet, op_key = Some long_key, op_value = Some []\<rparr>]\<rparr>"
  have calls: "batch_calls (boltDBBatch_iface list_bbolt) (BoltDB_NewBatch \<lparr>bd_db = [([3], [4])]\<rparr>)
      [BSet (Some [1]) (Some [7]), BSet (Some long_key) (Some [])] = (?b, [None, None])"
    by (simp add: boltDBBatch_iface_def BoltDB_NewBatch_def newBoltDBBatch_def boltDBBatch_Set_def)
  obtain b' bdb' e where w: "boltDBBatch_Write list_bbolt ?b \<lparr>bd_db = [([3], [4])]\<rparr> = (b', bdb', e)"
    by (metis surj_pair)
  have "Put long_key [] \<in> set (accepted [BSet (Some [1]) (Some [7]), BSet (Some long_key) (Some [])])" "\<not> bolt_fits long_key []"
    by (simp_all add: accepted_def set_error_def bolt_fits_def)
  from BoltDB_batch_atomic [OF list_bb.bbolt_laws_axioms _ calls this, of False b' bdb' e] w
  show ?thesis by (cases bdb') (simp add: kv_wf_def)
qed

end
