(* ===== verification/BadgerDB.thy ===== *)
theory BadgerDB
  imports Cursor
begin

text \<open>
  \<open>badger_db.go\<close>: the backend over \<open>github.com/dgraph-io/badger/v3\<close>, whose operations are the
  argument \<open>bg\<close>; its documented behaviour is the locale \<open>badger_laws\<close>. BadgerDB keeps less than
  the whole contract of \<open>types.go\<close>: a reverse iterator swaps its domain, an empty value read
  through an iterator may come back nil, and a batch that was written answers errors of the
  package. What it does keep is that it answers calls as the ordered list does, \<open>kv_calls\<close>.
\<close>

section \<open>The operations of the package\<close>

record badger_Options =
  bgo_Dir :: string
  bgo_SyncWrites :: bool
  bgo_Logger :: "string option"

record badger_IteratorOptions =
  bio_Reverse :: bool

text \<open>
  \<open>bg_View\<close> gives the transaction that \<open>View\<close> passes to its function. \<open>bg_Flush\<close> takes the
  database that the batch refers to.
\<close>

record ('d, 't, 'm, 'c, 'w) badger_ops =
  bg_DefaultOptions :: "string \<Rightarrow> badger_Options"
  bg_DefaultIteratorOptions :: badger_IteratorOptions
  bg_Open :: "badger_Options \<Rightarrow> 'd + error"
  bg_Close :: "'d \<Rightarrow> 'd \<times> error option"
  bg_Sync :: "'d \<Rightarrow> 'd \<times> error option"
  bg_View :: "'d \<Rightarrow> 't + error"
  bg_Update :: "'d \<Rightarrow> ('t \<Rightarrow> 't \<times> error option) \<Rightarrow> 'd \<times> error option"
  bg_NewTransaction :: "'d \<Rightarrow> bool \<Rightarrow> 't"
  bg_Discard :: "'t \<Rightarrow> 't"
  bg_ErrKeyNotFound :: error
  bg_Get :: "'t \<Rightarrow> slice \<Rightarrow> 'm + error"
  bg_Set :: "'t \<Rightarrow> slice \<Rightarrow> slice \<Rightarrow> 't \<times> error option"
  bg_Delete :: "'t \<Rightarrow> slice \<Rightarrow> 't \<times> error option"
  bg_Key :: "'m \<Rightarrow> slice"
  bg_KeyCopy :: "'m \<Rightarrow> slice \<Rightarrow> slice"
  bg_ValueCopy :: "'m \<Rightarrow> slice \<Rightarrow> slice \<times> error option"
  bg_NewIterator :: "'t \<Rightarrow> badger_IteratorOptions \<Rightarrow> 'c"
  bg_Rewind :: "'c \<Rightarrow> 'c"
  bg_Seek :: "'c \<Rightarrow> slice \<Rightarrow> 'c"
  bg_Next :: "'c \<Rightarrow> 'c"
  bg_Valid :: "'c \<Rightarrow> bool"
  bg_Item :: "'c \<Rightarrow> 'm"
  bg_CloseIterator :: "'c \<Rightarrow> 'c"
  bg_NewWriteBatch :: "'d \<Rightarrow> 'w"
  bg_BatchSet :: "'w \<Rightarrow> slice \<Rightarrow> slice \<Rightarrow> 'w \<times> error option"
  bg_BatchDelete :: "'w \<Rightarrow> slice \<Rightarrow> 'w \<times> error option"
  bg_Flush :: "'w \<Rightarrow> 'd \<Rightarrow> 'w \<times> 'd \<times> error option"
  bg_Cancel :: "'w \<Rightarrow> 'w"

section \<open>The database\<close>

record 'd BadgerDB =
  bgd_db :: 'd

definition NewBadgerDBWithOptions ::
  "('d, 't, 'm, 'c, 'w) badger_ops \<Rightarrow> badger_Options \<Rightarrow> 'd BadgerDB option \<times> error option" where
  "NewBadgerDBWithOptions bg opts =
     (case bg_Open bg opts of Inr err \<Rightarrow> (None, Some err) | Inl db \<Rightarrow> (Some \<lparr>bgd_db = db\<rparr>, None))"

text \<open>The result of \<open>os.MkdirAll\<close> on a path is the argument \<open>mkdirAll\<close>.\<close>

definition NewBadgerDB ::
  "('d, 't, 'm, 'c, 'w) badger_ops \<Rightarrow> (string \<Rightarrow> error option) \<Rightarrow> string \<Rightarrow> string \<Rightarrow>
     'd BadgerDB option \<times> error option" where
  "NewBadgerDB bg mkdirAll dbName dir =
     (let path = filepath_Join [dir, dbName] in
      case mkdirAll path of
        Some err \<Rightarrow> (None, Some err)
      | None \<Rightarrow>
          (let opts = bg_DefaultOptions bg path; opts = opts\<lparr>bgo_SyncWrites := False\<rparr>;
               opts = opts\<lparr>bgo_Logger := None\<rparr>
           in NewBadgerDBWithOptions bg opts))"

definition BadgerDB_Get ::
  "('d, 't, 'm, 'c, 'w) badger_ops \<Rightarrow> 'd BadgerDB \<Rightarrow> slice \<Rightarrow> slice \<times> error option" where
  "BadgerDB_Get bg b key =
     (if len key = 0 then (None, Some errKeyEmpty)
      else case bg_View bg (bgd_db b) of
             Inr err \<Rightarrow> (None, Some err)
           | Inl txn \<Rightarrow>
               (case bg_Get bg txn key of
                  Inr err \<Rightarrow> if err = bg_ErrKeyNotFound bg then (None, None) else (None, Some err)
                | Inl item \<Rightarrow>
                    (let (val, err) = bg_ValueCopy bg item None;
                         val = (if err = None \<and> val = None then Some [] else val)
                     in (val, err))))"

definition BadgerDB_Has ::
  "('d, 't, 'm, 'c, 'w) badger_ops \<Rightarrow> 'd BadgerDB \<Rightarrow> slice \<Rightarrow> bool \<times> error option" where
  "BadgerDB_Has bg b key =
     (if len key = 0 then (False, Some errKeyEmpty)
      else case bg_View bg (bgd_db b) of
             Inr err \<Rightarrow> (False, Some err)
           | Inl txn \<Rightarrow>
               (case bg_Get bg txn key of
                  Inr err \<Rightarrow> if err \<noteq> bg_ErrKeyNotFound bg then (False, Some err) else (False, None)
                | Inl item \<Rightarrow> (True, None)))"

definition BadgerDB_Set ::
  "('d, 't, 'm, 'c, 'w) badger_ops \<Rightarrow> 'd BadgerDB \<Rightarrow> slice \<Rightarrow> slice \<Rightarrow> 'd BadgerDB \<times> error option" where
  "BadgerDB_Set bg b key value' =
     (if len key = 0 then (b, Some errKeyEmpty)
      else if value' = None then (b, Some errValueNil)
      else let (d, err) = bg_Update bg (bgd_db b) (\<lambda>txn. bg_Set bg txn key value') in (b\<lparr>bgd_db := d\<rparr>, err))"

definition withSync ::
  "('d, 't, 'm, 'c, 'w) badger_ops \<Rightarrow> 'd BadgerDB \<times> error option \<Rightarrow> 'd BadgerDB \<times> error option" where
  "withSync bg r =
     (case r of
        (b, Some err) \<Rightarrow> (b, Some err)
      | (b, None) \<Rightarrow> (let (d, err) = bg_Sync bg (bgd_db b) in (b\<lparr>bgd_db := d\<rparr>, err)))"

definition BadgerDB_SetSync ::
  "('d, 't, 'm, 'c, 'w) badger_ops \<Rightarrow> 'd BadgerDB \<Rightarrow> slice \<Rightarrow> slice \<Rightarrow> 'd BadgerDB \<times> error option" where
  "BadgerDB_SetSync bg b key value' = withSync bg (BadgerDB_Set bg b key value')"

definition BadgerDB_Delete ::
  "('d, 't, 'm, 'c, 'w) badger_ops \<Rightarrow> 'd BadgerDB \<Rightarrow> slice \<Rightarrow> 'd BadgerDB \<times> error option" where
  "BadgerDB_Delete bg b key =
     (if len key = 0 then (b, Some errKeyEmpty)
      else let (d, err) = bg_Update bg (bgd_db b) (\<lambda>txn. bg_Delete bg txn key) in (b\<lparr>bgd_db := d\<rparr>, err))"

definition BadgerDB_DeleteSync ::
  "('d, 't, 'm, 'c, 'w) badger_ops \<Rightarrow> 'd BadgerDB \<Rightarrow> slice \<Rightarrow> 'd BadgerDB \<times> error option" where
  "BadgerDB_DeleteSync bg b key = withSync bg (BadgerDB_Delete bg b key)"

definition BadgerDB_Close :: "('d, 't, 'm, 'c, 'w) badger_ops \<Rightarrow> 'd BadgerDB \<Rightarrow> 'd BadgerDB \<times> error option" where
  "BadgerDB_Close bg b = (let (d, err) = bg_Close bg (bgd_db b) in (b\<lparr>bgd_db := d\<rparr>, err))"

definition BadgerDB_Print :: "'d BadgerDB \<Rightarrow> (string \<times> error option) res" where
  "BadgerDB_Print b = Ret ([], None)"

definition BadgerDB_Stats :: "'d BadgerDB \<Rightarrow> strmap" where
  "BadgerDB_Stats b = Map.empty"

section \<open>The iterator\<close>

record ('t, 'c) badgerDBIterator =
  bgi_reverse :: bool
  bgi_start :: slice
  bgi_end :: slice
  bgi_txn :: 't
  bgi_iter :: 'c
  bgi_lastErr :: "error option"

definition BadgerDB_iteratorOpts ::
  "('d, 't, 'm, 'c, 'w) badger_ops \<Rightarrow> 'd BadgerDB \<Rightarrow> slice \<Rightarrow> slice \<Rightarrow> badger_IteratorOptions \<Rightarrow>
     ('t, 'c) badgerDBIterator option \<times> error option" where
  "BadgerDB_iteratorOpts bg b start end' opts =
     (if blank start \<or> blank end' then (None, Some errKeyEmpty)
      else let txn = bg_NewTransaction bg (bgd_db b) False;
               iter = bg_NewIterator bg txn opts;
               iter = bg_Rewind bg iter;
               iter = bg_Seek bg iter start;
               iter = (if bio_Reverse opts \<and> bg_Valid bg iter \<and> bytes_Equal (bg_Key bg (bg_Item bg iter)) start
                       then bg_Next bg iter else iter)
        in (Some \<lparr>bgi_reverse = bio_Reverse opts, bgi_start = start, bgi_end = end', bgi_txn = txn,
                  bgi_iter = iter, bgi_lastErr = None\<rparr>, None))"

definition BadgerDB_Iterator ::
  "('d, 't, 'm, 'c, 'w) badger_ops \<Rightarrow> 'd BadgerDB \<Rightarrow> slice \<Rightarrow> slice \<Rightarrow>
     (('t, 'c) badgerDBIterator option \<times> error option) res" where
  "BadgerDB_Iterator bg b start end' =
     (let opts = bg_DefaultIteratorOptions bg in Ret (BadgerDB_iteratorOpts bg b start end' opts))"

definition BadgerDB_ReverseIterator ::
  "('d, 't, 'm, 'c, 'w) badger_ops \<Rightarrow> 'd BadgerDB \<Rightarrow> slice \<Rightarrow> slice \<Rightarrow>
     (('t, 'c) badgerDBIterator option \<times> error option) res" where
  "BadgerDB_ReverseIterator bg b start end' =
     (let opts = bg_DefaultIteratorOptions bg; opts = opts\<lparr>bio_Reverse := True\<rparr>
      in Ret (BadgerDB_iteratorOpts bg b end' start opts))"

definition badgerDBIterator_Close ::
  "('d, 't, 'm, 'c, 'w) badger_ops \<Rightarrow> ('t, 'c) badgerDBIterator \<Rightarrow> ('t, 'c) badgerDBIterator \<times> error option" where
  "badgerDBIterator_Close bg i =
     (let i = i\<lparr>bgi_iter := bg_CloseIterator bg (bgi_iter i)\<rparr>; i = i\<lparr>bgi_txn := bg_Discard bg (bgi_txn i)\<rparr>
      in (i, None))"

definition badgerDBIterator_Domain :: "('t, 'c) badgerDBIterator \<Rightarrow> slice \<times> slice" where
  "badgerDBIterator_Domain i = (bgi_start i, bgi_end i)"

definition badgerDBIterator_Error :: "('t, 'c) badgerDBIterator \<Rightarrow> error option" where
  "badgerDBIterator_Error i = bgi_lastErr i"

definition badgerDBIterator_Valid :: "('d, 't, 'm, 'c, 'w) badger_ops \<Rightarrow> ('t, 'c) badgerDBIterator \<Rightarrow> bool" where
  "badgerDBIterator_Valid bg i =
     (if \<not> bg_Valid bg (bgi_iter i) then False
      else if 0 < len (bgi_end i) then
        (let key = bg_Key bg (bg_Item bg (bgi_iter i)); c = bytes_Compare key (bgi_end i) in
         if (\<not> bgi_reverse i \<and> 0 \<le> c) \<or> (bgi_reverse i \<and> c < 0) then False else True)
      else True)"

definition badgerDBIterator_Next ::
  "('d, 't, 'm, 'c, 'w) badger_ops \<Rightarrow> ('t, 'c) badgerDBIterator \<Rightarrow> ('t, 'c) badgerDBIterator res" where
  "badgerDBIterator_Next bg i =
     (if \<not> badgerDBIterator_Valid bg i then Panic ''iterator is invalid''
      else Ret (i\<lparr>bgi_iter := bg_Next bg (bgi_iter i)\<rparr>))"

definition badgerDBIterator_Key ::
  "('d, 't, 'm, 'c, 'w) badger_ops \<Rightarrow> ('t, 'c) badgerDBIterator \<Rightarrow> slice res" where
  "badgerDBIterator_Key bg i =
     (if \<not> badgerDBIterator_Valid bg i then Panic ''iterator is invalid''
      else Ret (bg_KeyCopy bg (bg_Item bg (bgi_iter i)) None))"

definition badgerDBIterator_Value ::
  "('d, 't, 'm, 'c, 'w) badger_ops \<Rightarrow> ('t, 'c) badgerDBIterator \<Rightarrow> (slice \<times> ('t, 'c) badgerDBIterator) res" where
  "badgerDBIterator_Value bg i =
     (if \<not> badgerDBIterator_Valid bg i then Panic ''iterator is invalid''
      else let (val, err) = bg_ValueCopy bg (bg_Item bg (bgi_iter i)) None;
               i = (if err \<noteq> None then i\<lparr>bgi_lastErr := err\<rparr> else i)
        in Ret (val, i))"

definition badgerDBIterator_iface :: "('d, 't, 'm, 'c, 'w) badger_ops \<Rightarrow> ('t, 'c) badgerDBIterator Iterator" where
  "badgerDBIterator_iface bg =
     \<lparr>I_Domain = badgerDBIterator_Domain, I_Valid = (\<lambda>i. Ret (badgerDBIterator_Valid bg i, i)),
      I_Next = badgerDBIterator_Next bg,
      I_Key = (\<lambda>i. bindR (badgerDBIterator_Key bg i) (\<lambda>k. Ret (k, i))), I_Value = badgerDBIterator_Value bg,
      I_Error = badgerDBIterator_Error, I_Close = badgerDBIterator_Close bg\<rparr>"

section \<open>The batch\<close>

text \<open>The channel \<open>firstFlush\<close> has room for one token; the field says whether it holds it.\<close>

record 'w badgerDBBatch =
  bgb_wb :: 'w
  bgb_firstFlush :: bool

definition BadgerDB_NewBatch :: "('d, 't, 'm, 'c, 'w) badger_ops \<Rightarrow> 'd BadgerDB \<Rightarrow> 'w badgerDBBatch" where
  "BadgerDB_NewBatch bg b =
     (let wb = \<lparr>bgb_wb = bg_NewWriteBatch bg (bgd_db b), bgb_firstFlush = False\<rparr> in wb\<lparr>bgb_firstFlush := True\<rparr>)"

definition badgerDBBatch_Set ::
  "('d, 't, 'm, 'c, 'w) badger_ops \<Rightarrow> 'w badgerDBBatch \<Rightarrow> slice \<Rightarrow> slice \<Rightarrow> 'w badgerDBBatch \<times> error option" where
  "badgerDBBatch_Set bg b key value' =
     (if len key = 0 then (b, Some errKeyEmpty)
      else if value' = None then (b, Some errValueNil)
      else let (w, err) = bg_BatchSet bg (bgb_wb b) key value' in (b\<lparr>bgb_wb := w\<rparr>, err))"

definition badgerDBBatch_Delete ::
  "('d, 't, 'm, 'c, 'w) badger_ops \<Rightarrow> 'w badgerDBBatch \<Rightarrow> slice \<Rightarrow> 'w badgerDBBatch \<times> error option" where
  "badgerDBBatch_Delete bg b key =
     (if len key = 0 then (b, Some errKeyEmpty)
      else let (w, err) = bg_BatchDelete bg (bgb_wb b) key in (b\<lparr>bgb_wb := w\<rparr>, err))"

definition badgerDBBatch_Write ::
  "('d, 't, 'm, 'c, 'w) badger_ops \<Rightarrow> 'w badgerDBBatch \<Rightarrow> 'd BadgerDB \<Rightarrow>
     'w badgerDBBatch \<times> 'd BadgerDB \<times> error option" where
  "badgerDBBatch_Write bg b db =
     (if bgb_firstFlush b then
        (let (w, d, err) = bg_Flush bg (bgb_wb b) (bgd_db db)
         in (b\<lparr>bgb_firstFlush := False, bgb_wb := w\<rparr>, db\<lparr>bgd_db := d\<rparr>, err))
      else (b, db, Some (ErrorString ''batch already flushed'')))"

definition badgerDBBatch_WriteSync ::
  "('d, 't, 'm, 'c, 'w) badger_ops \<Rightarrow> 'w badgerDBBatch \<Rightarrow> 'd BadgerDB \<Rightarrow>
     'w badgerDBBatch \<times> 'd BadgerDB \<times> error option" where
  "badgerDBBatch_WriteSync bg b db =
     (let (b, db, err) = badgerDBBatch_Write bg b db; (db, err) = withSync bg (db, err) in (b, db, err))"

definition badgerDBBatch_Close ::
  "('d, 't, 'm, 'c, 'w) badger_ops \<Rightarrow> 'w badgerDBBatch \<Rightarrow> 'w badgerDBBatch \<times> error option" where
  "badgerDBBatch_Close bg b =
     (let b = (if bgb_firstFlush b then b\<lparr>bgb_firstFlush := False\<rparr> else b)
      in (b\<lparr>bgb_wb := bg_Cancel bg (bgb_wb b)\<rparr>, None))"

definition badgerDBBatch_iface :: "('d, 't, 'm, 'c, 'w) badger_ops \<Rightarrow> ('d BadgerDB, 'w badgerDBBatch) Batch" where
  "badgerDBBatch_iface bg =
     \<lparr>B_Set = badgerDBBatch_Set bg, B_Delete = badgerDBBatch_Delete bg, B_Write = badgerDBBatch_Write bg,
      B_WriteSync = badgerDBBatch_WriteSync bg, B_Close = badgerDBBatch_Close bg\<rparr>"

definition BadgerDB_iface ::
  "('d, 't, 'm, 'c, 'w) badger_ops \<Rightarrow> ('d BadgerDB, ('t, 'c) badgerDBIterator, 'w badgerDBBatch) DB" where
  "BadgerDB_iface bg =
     \<lparr>D_Get = BadgerDB_Get bg, D_Has = BadgerDB_Has bg, D_Set = BadgerDB_Set bg, D_SetSync = BadgerDB_SetSync bg,
      D_Delete = BadgerDB_Delete bg, D_DeleteSync = BadgerDB_DeleteSync bg, D_Iterator = BadgerDB_Iterator bg,
      D_ReverseIterator = BadgerDB_ReverseIterator bg, D_Close = BadgerDB_Close bg, D_NewBatch = BadgerDB_NewBatch bg,
      D_Print = BadgerDB_Print, D_Stats = BadgerDB_Stats, D_itr = badgerDBIterator_iface bg,
      D_bat = badgerDBBatch_iface bg\<rparr>"

lemmas badgerDBIterator_defs [op_defs] =
  badgerDBIterator_iface_def badgerDBIterator_Domain_def badgerDBIterator_Next_def badgerDBIterator_Key_def
  badgerDBIterator_Value_def badgerDBIterator_Error_def

section \<open>Abstraction\<close>

text \<open>The iterator walks from its field \<open>start\<close> to its field \<open>end\<close>; in reverse, \<open>end\<close> is the lower bound.\<close>

definition bgi_rest :: "('c \<Rightarrow> kv list) \<Rightarrow> ('t, 'c) badgerDBIterator \<Rightarrow> kv list" where
  "bgi_rest left i = takeWhile (in_bounds (bgi_reverse i) (bgi_end i) (bgi_end i)) (left (bgi_iter i))"

definition bgi_ok :: "('c \<Rightarrow> bool) \<Rightarrow> ('t, 'c) badgerDBIterator \<Rightarrow> bool" where
  "bgi_ok cok i \<longleftrightarrow> cok (bgi_iter i) \<and> \<not> blank (bgi_end i) \<and> bgi_lastErr i = None"

text \<open>The calls that the package takes: writes that fit, and batches that fit one transaction.\<close>

fun badger_call_ok :: "(byte list \<Rightarrow> byte list \<Rightarrow> bool) \<Rightarrow> (kvop list \<Rightarrow> bool) \<Rightarrow> call \<Rightarrow> bool" where
  "badger_call_ok fits small (CBatch sync cs) \<longleftrightarrow> list_all (op_fits fits) (accepted cs) \<and> small (accepted cs)"
| "badger_call_ok fits small c \<longleftrightarrow> call_fits fits c"

text \<open>Answers up to nil and empty values in a scan.\<close>

fun scan_view :: "answer \<Rightarrow> answer" where
  "scan_view (AScan xs e) = AScan (map (\<lambda>(k, v). (k, Some (sl v))) xs) e"
| "scan_view a = a"

text \<open>Below a bound in a sorted list: the pairs up to the bound, without the bound itself.\<close>

lemma filter_upto:
  "kv_sorted xs \<Longrightarrow> filter (\<lambda>x. fst x \<le> k) xs = filter (\<lambda>x. fst x < k) xs @ filter (\<lambda>x. fst x = k) xs
     \<and> length (filter (\<lambda>x. fst x = k) xs) \<le> 1"
proof (induction xs)
  case (Cons x xs)
  have "filter P xs = []" if "k \<le> fst x" "\<And>y. P y \<Longrightarrow> fst y \<le> k" for P
    using that Cons.prems by (force simp: filter_empty_conv)
  then show ?case using Cons by (cases "fst x < k"; cases "fst x = k") auto
qed simp

lemma rev_below:
  assumes "kv_sorted xs"
  shows "rev (filter (\<lambda>x. fst x < k) xs) =
    (case rev (filter (\<lambda>x. fst x \<le> k) xs) of [] \<Rightarrow> [] | x # ys \<Rightarrow> if fst x = k then ys else x # ys)"
proof -
  have "z \<in> set (filter (\<lambda>x. fst x < k) xs) \<Longrightarrow> fst z \<noteq> k" for z by auto
  then have ne: "rev (filter (\<lambda>x. fst x < k) xs) = z # zs \<Longrightarrow> fst z \<noteq> k" for z zs
    by (metis list.set_intros(1) set_rev)
  have "z \<in> set (filter (\<lambda>x. fst x = k) xs) \<Longrightarrow> fst z = k" for z by auto
  then show ?thesis
    using filter_upto [OF assms, of k] ne
    by (cases "filter (\<lambda>x. fst x = k) xs") (auto split: list.splits)
qed

text \<open>
  A sequence of method calls on one batch, and the package with a log of the flushes and
  cancellations that reach a write batch.
\<close>

datatype batch_method = MSet slice slice | MDelete slice | MWrite | MWriteSync | MClose

fun badger_batch_run ::
  "('d, 't, 'm, 'c, 'w) badger_ops \<Rightarrow> 'w badgerDBBatch \<Rightarrow> 'd BadgerDB \<Rightarrow> batch_method list \<Rightarrow>
     'w badgerDBBatch \<times> 'd BadgerDB" where
  "badger_batch_run bg b db [] = (b, db)"
| "badger_batch_run bg b db (m # ms) =
     (let (b, db) = (case m of
            MSet k v \<Rightarrow> (fst (badgerDBBatch_Set bg b k v), db)
          | MDelete k \<Rightarrow> (fst (badgerDBBatch_Delete bg b k), db)
          | MWrite \<Rightarrow> (let (b, db, err) = badgerDBBatch_Write bg b db in (b, db))
          | MWriteSync \<Rightarrow> (let (b, db, err) = badgerDBBatch_WriteSync bg b db in (b, db))
          | MClose \<Rightarrow> (fst (badgerDBBatch_Close bg b), db))
      in badger_batch_run bg b db ms)"

datatype wb_event = Flushed | Cancelled

definition with_log :: "('d, 't, 'm, 'c, 'w) badger_ops \<Rightarrow> ('d, 't, 'm, 'c, 'w \<times> wb_event list) badger_ops" where
  "with_log bg =
     \<lparr>bg_DefaultOptions = bg_DefaultOptions bg,
      bg_DefaultIteratorOptions = bg_DefaultIteratorOptions bg, bg_Open = bg_Open bg, bg_Close = bg_Close bg,
      bg_Sync = bg_Sync bg, bg_View = bg_View bg, bg_Update = bg_Update bg,
      bg_NewTransaction = bg_NewTransaction bg, bg_Discard = bg_Discard bg,
      bg_ErrKeyNotFound = bg_ErrKeyNotFound bg, bg_Get = bg_Get bg, bg_Set = bg_Set bg,
      bg_Delete = bg_Delete bg, bg_Key = bg_Key bg, bg_KeyCopy = bg_KeyCopy bg, bg_ValueCopy = bg_ValueCopy bg,
      bg_NewIterator = bg_NewIterator bg, bg_Rewind = bg_Rewind bg, bg_Seek = bg_Seek bg, bg_Next = bg_Next bg,
      bg_Valid = bg_Valid bg, bg_Item = bg_Item bg, bg_CloseIterator = bg_CloseIterator bg,
      bg_NewWriteBatch = (\<lambda>d. (bg_NewWriteBatch bg d, [])),
      bg_BatchSet = (\<lambda>(w, l) k v. let (w, e) = bg_BatchSet bg w k v in ((w, l), e)),
      bg_BatchDelete = (\<lambda>(w, l) k. let (w, e) = bg_BatchDelete bg w k in ((w, l), e)),
      bg_Flush = (\<lambda>(w, l) d. let (w, d, e) = bg_Flush bg w d in ((w, l @ [Flushed]), d, e)),
      bg_Cancel = (\<lambda>(w, l). (bg_Cancel bg w, l @ [Cancelled]))\<rparr>"

text \<open>The log of a batch that still has its token is empty; afterwards no flush is added.\<close>

lemma logged_run:
  assumes "badger_batch_run (with_log bg) b db ms = (b', db')"
  shows "\<exists>l. snd (bgb_wb b') = snd (bgb_wb b) @ l \<and> (\<not> bgb_firstFlush b \<longrightarrow> Flushed \<notin> set l) \<and>
    (bgb_firstFlush b \<longrightarrow> (\<exists>l'. Flushed \<notin> set l' \<and> (l = l' \<or> l = Flushed # l')))"
  using assms
proof (induction ms arbitrary: b db)
  case (Cons m ms)
  obtain w l where w: "bgb_wb b = (w, l)" by force
  obtain b1 db1 where 1: "(case m of
            MSet k v \<Rightarrow> (fst (badgerDBBatch_Set (with_log bg) b k v), db)
          | MDelete k \<Rightarrow> (fst (badgerDBBatch_Delete (with_log bg) b k), db)
          | MWrite \<Rightarrow> (let (b, db, err) = badgerDBBatch_Write (with_log bg) b db in (b, db))
          | MWriteSync \<Rightarrow> (let (b, db, err) = badgerDBBatch_WriteSync (with_log bg) b db in (b, db))
          | MClose \<Rightarrow> (fst (badgerDBBatch_Close (with_log bg) b), db)) = (b1, db1)" by force
  have run: "badger_batch_run (with_log bg) b1 db1 ms = (b', db')" using Cons.prems 1 by simp
  have "(snd (bgb_wb b1) = l \<and> bgb_firstFlush b1 = bgb_firstFlush b) \<or>
      (snd (bgb_wb b1) = l @ [Flushed] \<and> bgb_firstFlush b \<and> \<not> bgb_firstFlush b1) \<or>
      (snd (bgb_wb b1) = l @ [Cancelled] \<and> \<not> bgb_firstFlush b1)"
    using 1 w
    by (cases m) (auto simp: with_log_def badgerDBBatch_Set_def badgerDBBatch_Delete_def badgerDBBatch_Write_def
        badgerDBBatch_WriteSync_def badgerDBBatch_Close_def Let_def split: prod.splits if_splits)
  with Cons.IH [OF run] w show ?case by auto
qed auto

section \<open>The documented behaviour of the package\<close>

text \<open>
  A cursor runs over the snapshot \<open>items\<close> in its direction \<open>crev\<close> and still has \<open>left\<close> to visit;
  \<open>pair\<close> is what an item holds, \<open>enc\<close> the slice that \<open>ValueCopy\<close> makes of the bytes of a value;
  \<open>wops\<close> are the writes of a write batch, \<open>None\<close> once it is flushed or cancelled.
\<close>

locale badger_laws =
  fixes bg :: "('d, 't, 'm, 'c, 'w) badger_ops"
    and dok :: "'d \<Rightarrow> bool" and dents :: "'d \<Rightarrow> kv list" and txn :: "'d \<Rightarrow> 't"
    and tok :: "'t \<Rightarrow> bool" and tents :: "'t \<Rightarrow> kv list"
    and mok :: "'m \<Rightarrow> bool" and pair :: "'m \<Rightarrow> kv"
    and cok :: "'c \<Rightarrow> bool" and crev :: "'c \<Rightarrow> bool" and items :: "'c \<Rightarrow> kv list" and left :: "'c \<Rightarrow> kv list"
    and wops :: "'w \<Rightarrow> kvop list option"
    and enc :: "byte list \<Rightarrow> slice" and fits :: "byte list \<Rightarrow> byte list \<Rightarrow> bool" and small :: "kvop list \<Rightarrow> bool"
  assumes Opened: "bg_Open bg opts = Inl d \<Longrightarrow> dok d"
    and Default_forward: "\<not> bio_Reverse (bg_DefaultIteratorOptions bg)"
    and dents_wf: "dok d \<Longrightarrow> kv_wf (dents d)"
    and Sync: "dok d \<Longrightarrow> bg_Sync bg d = (d', e) \<Longrightarrow> e = None \<and> dok d' \<and> dents d' = dents d"
    and View: "dok d \<Longrightarrow> \<exists>t. bg_View bg d = Inl t \<and> tok t \<and> tents t = dents d"
    and txn_begin: "dok d \<Longrightarrow> tok (txn d) \<and> tents (txn d) = dents d"
    and Update_commit: "dok d \<Longrightarrow> f (txn d) = (t', None) \<Longrightarrow> tok t' \<Longrightarrow> bg_Update bg d f = (d', e) \<Longrightarrow>
      e = None \<and> dok d' \<and> dents d' = tents t'"
    and NewTransaction: "dok d \<Longrightarrow> tok (bg_NewTransaction bg d False) \<and> tents (bg_NewTransaction bg d False) = dents d"
    and Get: "tok t \<Longrightarrow> len key \<noteq> 0 \<Longrightarrow> (case map_of (tents t) (sl key) of
        None \<Rightarrow> bg_Get bg t key = Inr (bg_ErrKeyNotFound bg)
      | Some v \<Rightarrow> \<exists>m. bg_Get bg t key = Inl m \<and> mok m \<and> pair m = (sl key, v))"
    and Set: "tok t \<Longrightarrow> len key \<noteq> 0 \<Longrightarrow> fits (sl key) (sl value') \<Longrightarrow> bg_Set bg t key value' = (t', e) \<Longrightarrow>
      e = None \<and> tok t' \<and> tents t' = kv_set (sl key) (sl value') (tents t)"
    and Delete: "tok t \<Longrightarrow> len key \<noteq> 0 \<Longrightarrow> fits (sl key) [] \<Longrightarrow> bg_Delete bg t key = (t', e) \<Longrightarrow>
      e = None \<and> tok t' \<and> tents t' = kv_del (sl key) (tents t)"
    and Key: "mok m \<Longrightarrow> bg_Key bg m = Some (fst (pair m))"
    and KeyCopy: "mok m \<Longrightarrow> bg_KeyCopy bg m None = Some (fst (pair m))"
    and ValueCopy: "mok m \<Longrightarrow> bg_ValueCopy bg m None = (enc (snd (pair m)), None)"
    and sl_enc: "sl (enc v) = v"
    and NewIterator: "tok t \<Longrightarrow> cok (bg_NewIterator bg t iopts) \<and> items (bg_NewIterator bg t iopts) = tents t \<and>
      crev (bg_NewIterator bg t iopts) = bio_Reverse iopts"
    and Rewind: "cok c \<Longrightarrow> cok (bg_Rewind bg c) \<and> items (bg_Rewind bg c) = items c \<and> crev (bg_Rewind bg c) = crev c"
    and Seek: "cok c \<Longrightarrow> cok (bg_Seek bg c key) \<and>
      left (bg_Seek bg c key) =
        (if len key = 0 then if crev c then rev (items c) else items c
         else if crev c then rev (filter (\<lambda>x. fst x \<le> sl key) (items c))
         else filter (\<lambda>x. sl key \<le> fst x) (items c))"
    and Next: "cok c \<Longrightarrow> left c = x # xs \<Longrightarrow> cok (bg_Next bg c) \<and> left (bg_Next bg c) = xs"
    and Valid: "cok c \<Longrightarrow> bg_Valid bg c \<longleftrightarrow> left c \<noteq> []"
    and Item: "cok c \<Longrightarrow> left c = x # xs \<Longrightarrow> mok (bg_Item bg c) \<and> pair (bg_Item bg c) = x"
    and NewWriteBatch: "dok d \<Longrightarrow> wops (bg_NewWriteBatch bg d) = Some []"
    and small_prefix: "small (ops @ ps) \<Longrightarrow> small ops"
    and BatchSet: "wops w = Some ops \<Longrightarrow> len key \<noteq> 0 \<Longrightarrow> fits (sl key) (sl value') \<Longrightarrow>
      small (ops @ [Put (sl key) (sl value')]) \<Longrightarrow> bg_BatchSet bg w key value' = (w', e) \<Longrightarrow>
      e = None \<and> wops w' = Some (ops @ [Put (sl key) (sl value')])"
    and BatchDelete: "wops w = Some ops \<Longrightarrow> len key \<noteq> 0 \<Longrightarrow> fits (sl key) [] \<Longrightarrow>
      small (ops @ [Del (sl key)]) \<Longrightarrow> bg_BatchDelete bg w key = (w', e) \<Longrightarrow>
      e = None \<and> wops w' = Some (ops @ [Del (sl key)])"
    and Flush: "wops w = Some ops \<Longrightarrow> dok d \<Longrightarrow> bg_Flush bg w d = (w', d', e) \<Longrightarrow>
      e = None \<and> dok d' \<and> dents d' = kv_apply_all ops (dents d)"
begin

lemma Valid_rest:
  assumes "bgi_ok cok i"
  shows "badgerDBIterator_Valid bg i \<longleftrightarrow> bgi_rest left i \<noteq> []"
proof (cases "left (bgi_iter i)")
  case Nil
  then show ?thesis
    using assms Valid [of "bgi_iter i"] by (simp add: bgi_ok_def bgi_rest_def badgerDBIterator_Valid_def)
next
  case (Cons x xs)
  have c: "cok (bgi_iter i)" and e: "len (bgi_end i) = 0 \<longleftrightarrow> bgi_end i = None"
    using assms by (auto simp: bgi_ok_def blank_def)
  have "bg_Valid bg (bgi_iter i)" "bg_Key bg (bg_Item bg (bgi_iter i)) = Some (fst x)"
    using Valid [OF c] Item [OF c Cons] Key Cons by auto
  then show ?thesis using Cons e
    by (auto simp: bgi_rest_def badgerDBIterator_Valid_def in_bounds_def bytes_Compare_neg bytes_Compare_ge Let_def
        not_less not_le)
qed

lemma rest_head:
  assumes "bgi_ok cok i" and "bgi_rest left i = x # xs"
  shows "mok (bg_Item bg (bgi_iter i))" and "pair (bg_Item bg (bgi_iter i)) = x"
    and "bgi_ok cok (i\<lparr>bgi_iter := bg_Next bg (bgi_iter i)\<rparr>)"
    and "bgi_rest left (i\<lparr>bgi_iter := bg_Next bg (bgi_iter i)\<rparr>) = xs"
proof -
  have c: "cok (bgi_iter i)" using assms(1) by (simp add: bgi_ok_def)
  from assms(2) obtain ys where ys: "left (bgi_iter i) = x # ys"
    "xs = takeWhile (in_bounds (bgi_reverse i) (bgi_end i) (bgi_end i)) ys"
    by (cases "left (bgi_iter i)") (auto simp: bgi_rest_def split: if_splits)
  show "mok (bg_Item bg (bgi_iter i))" "pair (bg_Item bg (bgi_iter i)) = x" using Item [OF c ys(1)] by auto
  show "bgi_ok cok (i\<lparr>bgi_iter := bg_Next bg (bgi_iter i)\<rparr>)"
    "bgi_rest left (i\<lparr>bgi_iter := bg_Next bg (bgi_iter i)\<rparr>) = xs"
    using Next [OF c ys(1)] ys(2) assms(1) by (auto simp: bgi_ok_def bgi_rest_def)
qed

lemma iterator_laws: "iterator_walk (badgerDBIterator_iface bg) (bgi_ok cok) (bgi_rest left) enc"
proof (unfold_locales, goal_cases)
  case (2 i k v xs)
  then show ?case using rest_head(1,2) [OF 2] KeyCopy by (simp add: badgerDBIterator_defs Valid_rest it_moved_def)
next
  case (3 i k v xs)
  then show ?case using rest_head(1,2) [OF 3] ValueCopy by (simp add: badgerDBIterator_defs Valid_rest it_moved_def)
next
  case (4 i x xs)
  then show ?case using rest_head(3,4) [OF 4] by (simp add: badgerDBIterator_defs Valid_rest it_moved_def)
qed (simp add: badgerDBIterator_defs Valid_rest it_moved_def)

text \<open>Where the seek of \<open>iteratorOpts\<close> leaves the iterator: at the first pair of the walk.\<close>

lemma seek_left:
  assumes "cok c" and "kv_sorted (items c)" and "\<forall>x\<in>set (items c). fst x \<noteq> []" and "\<not> blank start"
    and "c1 = bg_Seek bg c start"
    and "c2 = (if crev c \<and> bg_Valid bg c1 \<and> bytes_Equal (bg_Key bg (bg_Item bg c1)) start then bg_Next bg c1 else c1)"
  shows "cok c2" and "left c2 = walk_items (crev c) start start (items c)"
proof -
  have 1: "cok c1" using Seek [OF assms(1)] assms(5) by simp
  have "cok c2 \<and> left c2 = walk_items (crev c) start start (items c)"
  proof (cases "crev c \<and> start \<noteq> None")
    case True
    then have l1: "left c1 = rev (filter (\<lambda>x. fst x \<le> sl start) (items c))"
      using Seek [OF assms(1)] assms(4,5) by (auto simp: blank_def)
    note below = rev_below [OF assms(2), of "sl start", folded l1]
    show ?thesis
    proof (cases "left c1")
      case Nil
      then show ?thesis using below True assms(6) 1 Valid [OF 1] by (auto simp: walk_items_def)
    next
      case (Cons x xs)
      have "bg_Valid bg c1" "bg_Key bg (bg_Item bg c1) = Some (fst x)"
        using Valid [OF 1] Item [OF 1 Cons] Key Cons by auto
      then show ?thesis
        using below True assms(6) Next [OF 1 Cons] Cons 1 by (auto simp: walk_items_def bytes_Equal_iff)
    qed
  next
    case False
    have "\<not> (crev c \<and> bg_Valid bg c1 \<and> bytes_Equal (bg_Key bg (bg_Item bg c1)) start)"
    proof
      assume a: "crev c \<and> bg_Valid bg c1 \<and> bytes_Equal (bg_Key bg (bg_Item bg c1)) start"
      then have "left c1 = rev (items c)" "left c1 \<noteq> []" using False Seek [OF assms(1)] assms(5) Valid [OF 1] by auto
      then obtain x xs where "left c1 = x # xs" "x \<in> set (items c)" by (metis list.set_intros(1) neq_Nil_conv set_rev)
      then show False using a False Item [OF 1] Key assms(3) by (auto simp: bytes_Equal_iff)
    qed
    then show ?thesis
      using assms(6) 1 False Seek [OF assms(1), of start] assms(4,5) by (cases start) (auto simp: walk_items_def)
  qed
  then show "cok c2" and "left c2 = walk_items (crev c) start start (items c)" by auto
qed

lemma iterator_opts:
  assumes "dok (bgd_db b)" and "\<not> blank start" and "\<not> blank end'"
  shows "\<exists>i. BadgerDB_iteratorOpts bg b start end' iopts = (Some i, None) \<and> bgi_ok cok i \<and>
    badgerDBIterator_Domain i = (start, end') \<and>
    bgi_rest left i = (if bio_Reverse iopts then kv_scan True end' start (dents (bgd_db b))
                       else kv_scan False start end' (dents (bgd_db b)))"
proof -
  let ?c = "bg_Rewind bg (bg_NewIterator bg (bg_NewTransaction bg (bgd_db b) False) iopts)"
  let ?c1 = "bg_Seek bg ?c start"
  define c2 where "c2 = (if bio_Reverse iopts \<and> bg_Valid bg ?c1 \<and> bytes_Equal (bg_Key bg (bg_Item bg ?c1)) start
    then bg_Next bg ?c1 else ?c1)"
  have c: "cok ?c" "items ?c = dents (bgd_db b)" "crev ?c = bio_Reverse iopts"
    using NewTransaction [OF assms(1)] NewIterator [of "bg_NewTransaction bg (bgd_db b) False" iopts] Rewind by auto
  have wf: "kv_sorted (items ?c)" "\<forall>x\<in>set (items ?c). fst x \<noteq> []"
    using dents_wf [OF assms(1)] c(2) by (auto simp: kv_wf_def)
  have c2: "cok c2" "left c2 = walk_items (bio_Reverse iopts) start start (dents (bgd_db b))"
    using seek_left [OF c(1) wf assms(2) refl c2_def [folded c(3)]] c(2,3) by auto
  have bounds: "in_bounds True end' end' = in_bounds True end' start" "in_bounds False end' end' = in_bounds False start end'"
    by (auto simp: in_bounds_def fun_eq_iff)
  have "takeWhile (in_bounds (bio_Reverse iopts) end' end') (left c2) =
      (if bio_Reverse iopts then kv_scan True end' start (dents (bgd_db b))
       else kv_scan False start end' (dents (bgd_db b)))"
    using takeWhile_walk [OF wf(1), of True end' start] takeWhile_walk [OF wf(1), of False start end'] c2(2) c(2)
    by (simp add: bounds walk_items_def)
  then show ?thesis
    using c2(1) assms(2,3)
    by (simp add: BadgerDB_iteratorOpts_def Let_def bgi_ok_def bgi_rest_def badgerDBIterator_Domain_def c2_def [symmetric])
qed

lemma Update_Set:
  assumes "dok d" and "len key \<noteq> 0" and "fits (sl key) (sl value')"
    and "bg_Update bg d (\<lambda>t. bg_Set bg t key value') = (d', e)"
  shows "e = None \<and> dok d' \<and> dents d' = kv_set (sl key) (sl value') (dents d)"
proof -
  have t: "tok (txn d)" "tents (txn d) = dents d" using txn_begin [OF assms(1)] by simp_all
  obtain t' e' where put: "bg_Set bg (txn d) key value' = (t', e')" by force
  from Set [OF t(1) assms(2,3) put] t(2) Update_commit [OF assms(1) _ _ assms(4), of t'] put show ?thesis by simp
qed

lemma Update_Delete:
  assumes "dok d" and "len key \<noteq> 0" and "fits (sl key) []" and "bg_Update bg d (\<lambda>t. bg_Delete bg t key) = (d', e)"
  shows "e = None \<and> dok d' \<and> dents d' = kv_del (sl key) (dents d)"
proof -
  have t: "tok (txn d)" "tents (txn d) = dents d" using txn_begin [OF assms(1)] by simp_all
  obtain t' e' where del: "bg_Delete bg (txn d) key = (t', e')" by force
  from Delete [OF t(1) assms(2,3) del] t(2) Update_commit [OF assms(1) _ _ assms(4), of t'] del show ?thesis by simp
qed

lemma get_has:
  assumes "dok (bgd_db b)" and "len key \<noteq> 0"
  shows "BadgerDB_Get bg b key = (map_of (dents (bgd_db b)) (sl key), None)"
    and "BadgerDB_Has bg b key = (map_of (dents (bgd_db b)) (sl key) \<noteq> None, None)"
proof -
  obtain t where t: "bg_View bg (bgd_db b) = Inl t" "tok t" "tents t = dents (bgd_db b)" using View [OF assms(1)] by blast
  show "BadgerDB_Get bg b key = (map_of (dents (bgd_db b)) (sl key), None)"
  proof (cases "map_of (dents (bgd_db b)) (sl key)")
    case (Some v)
    then obtain m where m: "bg_Get bg t key = Inl m" "mok m" "pair m = (sl key, v)"
      using Get [OF t(2) assms(2)] t(3) by auto
    then show ?thesis using Some t assms(2) ValueCopy [OF m(2)] sl_enc [of v]
      by (cases "enc v") (auto simp: BadgerDB_Get_def)
  qed (use Get [OF t(2) assms(2)] t assms(2) in \<open>simp add: BadgerDB_Get_def\<close>)
  show "BadgerDB_Has bg b key = (map_of (dents (bgd_db b)) (sl key) \<noteq> None, None)"
    using Get [OF t(2) assms(2)] t assms(2) by (auto simp: BadgerDB_Has_def split: option.splits)
qed

lemma get_has_empty:
  "len key = 0 \<Longrightarrow> BadgerDB_Get bg b key = (None, Some errKeyEmpty)"
  "len key = 0 \<Longrightarrow> BadgerDB_Has bg b key = (False, Some errKeyEmpty)"
  by (simp_all add: BadgerDB_Get_def BadgerDB_Has_def)

lemma set_spec:
  assumes "dok (bgd_db b)" and "set_fits fits key value'" and "BadgerDB_Set bg b key value' = (b', e)"
  shows "e = set_error key value' \<and> dok (bgd_db b') \<and>
    dents (bgd_db b') = (if e = None then kv_set (sl key) (sl value') (dents (bgd_db b)) else dents (bgd_db b))"
  using assms
  by (auto simp: BadgerDB_Set_def set_error_def set_fits_def Let_def split: if_splits prod.splits
      dest!: Update_Set [rotated 3])

lemma delete_spec:
  assumes "dok (bgd_db b)" and "key_fits fits key" and "BadgerDB_Delete bg b key = (b', e)"
  shows "e = key_error key \<and> dok (bgd_db b') \<and>
    dents (bgd_db b') = (if e = None then kv_del (sl key) (dents (bgd_db b)) else dents (bgd_db b))"
  using assms
  by (auto simp: BadgerDB_Delete_def key_error_def key_fits_def Let_def split: if_splits prod.splits
      dest!: Update_Delete [rotated 3])

lemma withSync_spec:
  assumes "dok (bgd_db b)" and "withSync bg (b, e) = (b', e')"
  shows "e' = e \<and> dok (bgd_db b') \<and> dents (bgd_db b') = dents (bgd_db b)"
  using assms by (cases e) (auto simp: withSync_def Let_def split: prod.splits dest!: Sync [rotated])

text \<open>An open batch: its token is there and the write batch collects.\<close>

lemma batch_call_spec:
  assumes "bgb_firstFlush b" and "wops (bgb_wb b) = Some ops" and "batch_call (badgerDBBatch_iface bg) b c = (b', e)"
    and "list_all (op_fits fits) (accepted [c])" and "small (ops @ accepted [c])"
  shows "e = fst (spec_batch_call c) \<and> bgb_firstFlush b' \<and> wops (bgb_wb b') = Some (ops @ accepted [c])"
proof (cases c)
  case (BSet k v)
  obtain w err where w: "bg_BatchSet bg (bgb_wb b) k v = (w, err)" by force
  from BatchSet [OF assms(2) _ _ _ w] BSet w assms show ?thesis
    by (auto simp: badgerDBBatch_iface_def badgerDBBatch_Set_def set_error_def accepted_def split: if_splits)
next
  case (BDelete k)
  obtain w err where w: "bg_BatchDelete bg (bgb_wb b) k = (w, err)" by force
  from BatchDelete [OF assms(2) _ _ _ w] BDelete w assms show ?thesis
    by (auto simp: badgerDBBatch_iface_def badgerDBBatch_Delete_def key_error_def accepted_def split: if_splits)
qed

lemma batch_calls_open:
  assumes "bgb_firstFlush b" and "wops (bgb_wb b) = Some ops" and "batch_calls (badgerDBBatch_iface bg) b cs = (b', es)"
    and "list_all (op_fits fits) (accepted cs)" and "small (ops @ accepted cs)"
  shows "es = map (fst \<circ> spec_batch_call) cs \<and> bgb_firstFlush b' \<and> wops (bgb_wb b') = Some (ops @ accepted cs)"
  using assms
proof (induction cs arbitrary: b ops es)
  case (Cons c cs)
  have acc: "accepted (c # cs) = accepted [c] @ accepted cs" by (simp add: accepted_def)
  obtain b1 e where 1: "batch_call (badgerDBBatch_iface bg) b c = (b1, e)" by force
  obtain es' where 2: "batch_calls (badgerDBBatch_iface bg) b1 cs = (b', es')" and es: "es = e # es'"
    using Cons.prems(3) 1 by (auto simp: Let_def split: prod.splits)
  have "list_all (op_fits fits) (accepted [c])" "small (ops @ accepted [c])"
    using Cons.prems(4,5) small_prefix [of "ops @ accepted [c]" "accepted cs"] acc by auto
  from batch_call_spec [OF Cons.prems(1,2) 1 this] Cons.IH [OF _ _ 2, of "ops @ accepted [c]"] Cons.prems(4,5) acc es
  show ?case by simp
qed (simp add: accepted_def)

lemma batch_write:
  assumes "dok (bgd_db db)" and "bgb_firstFlush b" and "wops (bgb_wb b) = Some ops"
    and "(if sync then badgerDBBatch_WriteSync bg b db else badgerDBBatch_Write bg b db) = (b', db', e)"
  shows "e = None \<and> dok (bgd_db db') \<and> dents (bgd_db db') = kv_apply_all ops (dents (bgd_db db)) \<and> \<not> bgb_firstFlush b'"
proof -
  obtain b1 db1 e1 where w: "badgerDBBatch_Write bg b db = (b1, db1, e1)" by (metis surj_pair)
  then have 1: "e1 = None" "dok (bgd_db db1)" "dents (bgd_db db1) = kv_apply_all ops (dents (bgd_db db))"
    "\<not> bgb_firstFlush b1"
    using assms(1-3) by (auto simp: badgerDBBatch_Write_def split: prod.splits dest!: Flush [rotated 2])
  obtain db2 e2 where "withSync bg (db1, e1) = (db2, e2)" by force
  with withSync_spec [OF 1(2) this] 1 w assms(4) show ?thesis
    by (cases sync) (auto simp: badgerDBBatch_WriteSync_def)
qed

lemma scan_answer:
  assumes "dok (bgd_db b)" and "domain_error start end' = None"
  shows "db_call (BadgerDB_iface bg) b (CScan r start end') =
    Ret (b, AScan (map (\<lambda>(k, v). (Some k, enc v)) (kv_scan r start end' (dents (bgd_db b)))) None)"
proof -
  have nb: "\<not> blank start" "\<not> blank end'" using assms(2) by (auto simp: domain_error_def split: if_splits)
  obtain i where i: "(if r then BadgerDB_ReverseIterator bg b start end' else BadgerDB_Iterator bg b start end')
      = Ret (Some i, None)" "bgi_ok cok i" "bgi_rest left i = kv_scan r start end' (dents (bgd_db b))"
  proof (cases r)
    case True
    with iterator_opts [OF assms(1) nb(2,1), of "bg_DefaultIteratorOptions bg\<lparr>bio_Reverse := True\<rparr>"] that
    show ?thesis by (auto simp: BadgerDB_ReverseIterator_def Let_def)
  next
    case False
    with iterator_opts [OF assms(1) nb, of "bg_DefaultIteratorOptions bg"] that Default_forward
    show ?thesis by (auto simp: BadgerDB_Iterator_def Let_def)
  qed
  obtain i' where "iter_loop (badgerDBIterator_iface bg) i [] = Ret (map (\<lambda>(k, v). (Some k, enc v)) (bgi_rest left i), i')"
    "bgi_ok cok i'"
    using iterator_walk.iter_loop_rest [OF iterator_laws i(2), of "[]"] by (auto simp: it_moved_def)
  then show ?thesis using i by (auto simp: BadgerDB_iface_def bgi_ok_def badgerDBIterator_defs)
qed

lemma one_call_answer:
  assumes "dok (bgd_db b)" and "badger_call_ok fits small c"
  shows "\<exists>b' a. db_call (BadgerDB_iface bg) b c = Ret (b', a) \<and>
    scan_view a = scan_view (snd (spec_call (dents (bgd_db b)) c)) \<and> dok (bgd_db b') \<and>
    dents (bgd_db b') = fst (spec_call (dents (bgd_db b)) c)"
proof (cases c)
  case (CSet sync k v)
  obtain b1 e1 where 1: "BadgerDB_Set bg b k v = (b1, e1)" by force
  obtain b2 e2 where 2: "withSync bg (b1, e1) = (b2, e2)" by force
  have s: "e1 = set_error k v \<and> dok (bgd_db b1) \<and>
      dents (bgd_db b1) = (if e1 = None then kv_set (sl k) (sl v) (dents (bgd_db b)) else dents (bgd_db b))"
    by (rule set_spec [OF assms(1) _ 1]) (use assms(2) CSet in simp)
  with withSync_spec [OF _ 2] 1 2 CSet show ?thesis
    by (cases sync) (auto simp: BadgerDB_iface_def BadgerDB_SetSync_def)
next
  case (CDelete sync k)
  obtain b1 e1 where 1: "BadgerDB_Delete bg b k = (b1, e1)" by force
  obtain b2 e2 where 2: "withSync bg (b1, e1) = (b2, e2)" by force
  have s: "e1 = key_error k \<and> dok (bgd_db b1) \<and>
      dents (bgd_db b1) = (if e1 = None then kv_del (sl k) (dents (bgd_db b)) else dents (bgd_db b))"
    by (rule delete_spec [OF assms(1) _ 1]) (use assms(2) CDelete in simp)
  with withSync_spec [OF _ 2] 1 2 CDelete show ?thesis
    by (cases sync) (auto simp: BadgerDB_iface_def BadgerDB_DeleteSync_def)
next
  case (CScan r start end')
  show ?thesis
  proof (cases "domain_error start end'")
    case None
    then show ?thesis using scan_answer [OF assms(1) None] assms(1) CScan by (simp add: sl_enc case_prod_unfold comp_def)
  next
    case (Some e)
    then show ?thesis using CScan assms(1)
      by (cases r) (auto simp: BadgerDB_iface_def BadgerDB_ReverseIterator_def BadgerDB_Iterator_def BadgerDB_iteratorOpts_def
        domain_error_def split: if_splits)
  qed
next
  case (CBatch sync cs)
  let ?b = "BadgerDB_NewBatch bg b"
  obtain b1 es where 1: "batch_calls (badgerDBBatch_iface bg) ?b cs = (b1, es)" by force
  obtain b2 db2 e where 2: "(if sync then badgerDBBatch_WriteSync bg b1 b else badgerDBBatch_Write bg b1 b) = (b2, db2, e)"
    by (metis surj_pair)
  have "es = map (fst \<circ> spec_batch_call) cs \<and> bgb_firstFlush b1 \<and> wops (bgb_wb b1) = Some ([] @ accepted cs)"
    by (rule batch_calls_open [OF _ _ 1])
       (use NewWriteBatch [OF assms(1)] assms(2) CBatch in \<open>simp_all add: BadgerDB_NewBatch_def\<close>)
  with batch_write [OF assms(1) _ _ 2] 1 2 CBatch show ?thesis
    by (cases sync) (auto simp: BadgerDB_iface_def badgerDBBatch_iface_def)
qed (use assms(1) in \<open>auto simp: BadgerDB_iface_def get_has get_has_empty\<close>)

end

sublocale badger_laws \<subseteq> badger: kv_calls "BadgerDB_iface bg" "\<lambda>b. dok (bgd_db b)" "\<lambda>b. dents (bgd_db b)"
  "badger_call_ok fits small" scan_view
  by unfold_locales (rule one_call_answer)

context badger_laws
begin

lemma BadgerDB_calls:
  "kv_calls (BadgerDB_iface bg) (\<lambda>b. dok (bgd_db b)) (\<lambda>b. dents (bgd_db b)) (badger_call_ok fits small) scan_view"
  by (rule badger.kv_calls_axioms)

end

section \<open>An ordered list as the package's database\<close>

text \<open>
  The limits are those of the package: keys of at most 65000 bytes that do not start with
  \<^verbatim>\<open>!badger!\<close>, values within one value log file. Copying an empty value into a nil slice gives nil.
\<close>

definition badger_prefix :: "byte list" where
  "badger_prefix = [0x21, 0x62, 0x61, 0x64, 0x67, 0x65, 0x72, 0x21]"

definition badger_fits :: "byte list \<Rightarrow> byte list \<Rightarrow> bool" where
  "badger_fits k v \<longleftrightarrow> length k \<le> 65000 \<and> \<not> prefix badger_prefix k \<and> length v \<le> 1073741823"

definition nil_copy :: "byte list \<Rightarrow> slice" where
  "nil_copy v = (if v = [] then None else Some v)"

definition list_badger_check :: "'x \<Rightarrow> slice \<Rightarrow> slice \<Rightarrow> 'x \<times> error option \<Rightarrow> 'x \<times> error option" where
  "list_badger_check t k v r =
     (if len k = 0 \<or> \<not> badger_fits (sl k) (sl v) then (t, Some (Foreign ''invalid key or value'')) else r)"

definition list_badger :: "(kv list, kv list, kv, bool \<times> kv list \<times> kv list, kvop list option) badger_ops" where
  "list_badger =
     \<lparr>bg_DefaultOptions = (\<lambda>path. \<lparr>bgo_Dir = path, bgo_SyncWrites = False, bgo_Logger = Some ''default''\<rparr>),
      bg_DefaultIteratorOptions = \<lparr>bio_Reverse = False\<rparr>, bg_Open = (\<lambda>opts. Inl []), bg_Close = (\<lambda>d. (d, None)),
      bg_Sync = (\<lambda>d. (d, None)), bg_View = Inl,
      bg_Update = (\<lambda>d f. case f d of (t, None) \<Rightarrow> (t, None) | (t, Some e) \<Rightarrow> (d, Some e)),
      bg_NewTransaction = (\<lambda>d update. d), bg_Discard = (\<lambda>t. t), bg_ErrKeyNotFound = Foreign ''Key not found'',
      bg_Get = (\<lambda>t k. case map_of t (sl k) of None \<Rightarrow> Inr (Foreign ''Key not found'') | Some v \<Rightarrow> Inl (sl k, v)),
      bg_Set = (\<lambda>t k v. list_badger_check t k v (kv_set (sl k) (sl v) t, None)),
      bg_Delete = (\<lambda>t k. list_badger_check t k None (kv_del (sl k) t, None)),
      bg_Key = (\<lambda>m. Some (fst m)), bg_KeyCopy = (\<lambda>m dst. Some (fst m)),
      bg_ValueCopy = (\<lambda>m dst. (nil_copy (snd m), None)),
      bg_NewIterator = (\<lambda>t opts. (bio_Reverse opts, t, [])),
      bg_Rewind = (\<lambda>(r, xs, left). (r, xs, if r then rev xs else xs)),
      bg_Seek = (\<lambda>(r, xs, left) k. (r, xs, if len k = 0 then if r then rev xs else xs
        else if r then rev (filter (\<lambda>x. fst x \<le> sl k) xs) else filter (\<lambda>x. sl k \<le> fst x) xs)),
      bg_Next = (\<lambda>(r, xs, left). (r, xs, tl left)), bg_Valid = (\<lambda>(r, xs, left). left \<noteq> []),
      bg_Item = (\<lambda>(r, xs, left). hd left), bg_CloseIterator = (\<lambda>c. c), bg_NewWriteBatch = (\<lambda>d. Some []),
      bg_BatchSet = (\<lambda>w k v. case w of None \<Rightarrow> (w, Some (Foreign ''discarded''))
        | Some ops \<Rightarrow> list_badger_check w k v (Some (ops @ [Put (sl k) (sl v)]), None)),
      bg_BatchDelete = (\<lambda>w k. case w of None \<Rightarrow> (w, Some (Foreign ''discarded''))
        | Some ops \<Rightarrow> list_badger_check w k None (Some (ops @ [Del (sl k)]), None)),
      bg_Flush = (\<lambda>w d. case w of None \<Rightarrow> (w, d, Some (Foreign ''finished''))
        | Some ops \<Rightarrow> (None, kv_apply_all ops d, None)),
      bg_Cancel = (\<lambda>w. None)\<rparr>"

text \<open>The writes of a well-formed batch, and a bound on their number.\<close>

definition list_badger_wops :: "kvop list option \<Rightarrow> kvop list option" where
  "list_badger_wops w = (if pred_option (list_all (\<lambda>p. kvop_key p \<noteq> [])) w then w else None)"

definition list_badger_small :: "kvop list \<Rightarrow> bool" where
  "list_badger_small ops \<longleftrightarrow> length ops \<le> 1000"

interpretation list_bg: badger_laws list_badger kv_wf "\<lambda>d. d" "\<lambda>d. d" kv_wf "\<lambda>t. t" "\<lambda>m. True" "\<lambda>m. m"
  "\<lambda>c. True" fst "\<lambda>c. fst (snd c)" "\<lambda>c. snd (snd c)" list_badger_wops nil_copy badger_fits list_badger_small
  by (unfold_locales, simp_all add: list_badger_def list_badger_small_def kv_simps case_prod_unfold)
     (auto simp: list_badger_def list_badger_check_def list_badger_wops_def nil_copy_def kv_simps len_def
       kv_wf_def [of "[]"] kv_wf_apply_all list_all_iff split: option.splits if_splits)

lemma NewBadgerDB_ok:
  "badger_laws bg dok dents txn tok tents mok pair cok crev items left wops enc fits small \<Longrightarrow>
     NewBadgerDB bg mkdirAll name dir = (Some b, err) \<Longrightarrow> dok (bgd_db b)"
  using badger_laws.Opened [of bg dok dents txn tok tents mok pair cok crev items left wops enc fits small]
  by (auto simp: NewBadgerDB_def NewBadgerDBWithOptions_def Let_def split: sum.splits option.splits)

section \<open>Properties\<close>

text \<open>
  C31. A BadgerDB that opens and works without I/O errors answers every sequence of calls that the
  package takes (keys and values within the limits, batches that fit one transaction) as the
  ordered list of pairs does, except that a scan may return nil for an empty value.
\<close>

theorem BadgerDB_refines_ordered_map:
  assumes "badger_laws bg dok dents txn tok tents mok pair cok crev items left wops enc fits small"
    and "NewBadgerDB bg mkdirAll name dir = (Some b, err)" and "list_all (badger_call_ok fits small) cs"
  shows "\<exists>b' as. db_calls (BadgerDB_iface bg) b cs = Ret (b', as) \<and>
    map scan_view as = map scan_view (snd (spec_calls (dents (bgd_db b)) cs)) \<and>
    dents (bgd_db b') = fst (spec_calls (dents (bgd_db b)) cs)"
  using kv_calls.all_calls [OF badger_laws.BadgerDB_calls [OF assms(1)] NewBadgerDB_ok [OF assms(1,2)] assms(3)] by blast

theorem BadgerDB_refines_ordered_map_witness:
  "\<exists>b' as. db_calls (BadgerDB_iface list_badger) \<lparr>bgd_db = []\<rparr>
      [CBatch True [BSet (Some [2]) (Some [9]), BSet (Some [1]) (Some []), BDelete None], CScan True (Some [1]) (Some [2]),
       CGet (Some [2])] = Ret (b', as)
    \<and> map scan_view as = [ABatch [None, None, Some errKeyEmpty] None, AScan [(Some [1], Some [])] None, AGet (Some [9]) None]
    \<and> bgd_db b' = [([1], []), ([2], [9])]"
proof -
  let ?cs = "[CBatch True [BSet (Some [2]) (Some [9]), BSet (Some [1]) (Some []), BDelete None],
      CScan True (Some [1]) (Some [2]), CGet (Some [2])]"
  have new: "NewBadgerDB list_badger (\<lambda>path. None) ''app'' ''data'' = (Some \<lparr>bgd_db = []\<rparr>, None)"
    by (simp add: NewBadgerDB_def NewBadgerDBWithOptions_def list_badger_def)
  have ok: "list_all (badger_call_ok badger_fits list_badger_small) ?cs"
    by (simp add: accepted_def badger_fits_def badger_prefix_def list_badger_small_def set_error_def key_error_def)
  have "snd (spec_calls [] ?cs) =
      [ABatch [None, None, Some errKeyEmpty] None, AScan [(Some [1], Some [])] None, AGet (Some [9]) None]"
    "fst (spec_calls [] ?cs) = [([1], []), ([2], [9])]"
    by (simp_all add: accepted_def set_error_def key_error_def domain_error_def kv_set_def kv_scan_def kv_range_def
        IsKeyInDomain_iff)
  with BadgerDB_refines_ordered_map [OF list_bg.badger_laws_axioms new ok] show ?thesis by simp
qed

text \<open>
  C32. The channel of a batch does its work: whatever methods are called on a batch and whatever
  the package answers, the write batch is flushed at most once, and never after it was cancelled.
\<close>

theorem badgerDBBatch_flush_once:
  assumes "badger_batch_run (with_log bg) (BadgerDB_NewBatch (with_log bg) db0) db ms = (b, db')"
  shows "count_list (snd (bgb_wb b)) Flushed \<le> 1 \<and>
    (snd (bgb_wb b) = xs @ Cancelled # ys \<longrightarrow> Flushed \<notin> set ys)"
proof -
  have "snd (bgb_wb (BadgerDB_NewBatch (with_log bg) db0)) = []" "bgb_firstFlush (BadgerDB_NewBatch (with_log bg) db0)"
    by (simp_all add: with_log_def BadgerDB_NewBatch_def)
  then obtain l' where "Flushed \<notin> set l'" "snd (bgb_wb b) = l' \<or> snd (bgb_wb b) = Flushed # l'"
    using logged_run [OF assms] by auto
  then show ?thesis by (cases xs) (auto simp: count_list_0_iff)
qed

theorem badgerDBBatch_flush_once_witness:
  "badger_batch_run (with_log list_badger) (BadgerDB_NewBatch (with_log list_badger) \<lparr>bgd_db = []\<rparr>) \<lparr>bgd_db = []\<rparr>
      [MSet (Some [1]) (Some [2]), MClose, MWrite, MWriteSync, MClose] =
      (\<lparr>bgb_wb = (None, [Cancelled, Cancelled]), bgb_firstFlush = False\<rparr>, \<lparr>bgd_db = []\<rparr>)
    \<and> count_list [Cancelled, Cancelled] Flushed \<le> 1 \<and> Flushed \<notin> set [Cancelled]"
proof -
  have run: "badger_batch_run (with_log list_badger) (BadgerDB_NewBatch (with_log list_badger) \<lparr>bgd_db = []\<rparr>) \<lparr>bgd_db = []\<rparr>
      [MSet (Some [1]) (Some [2]), MClose, MWrite, MWriteSync, MClose] =
      (\<lparr>bgb_wb = (None, [Cancelled, Cancelled]), bgb_firstFlush = False\<rparr>, \<lparr>bgd_db = []\<rparr>)"
    by (simp add: with_log_def list_badger_def BadgerDB_NewBatch_def badgerDBBatch_Set_def badgerDBBatch_Close_def
        badgerDBBatch_Write_def badgerDBBatch_WriteSync_def withSync_def list_badger_check_def badger_fits_def
        badger_prefix_def)
  from badgerDBBatch_flush_once [OF run, of "[]" "[Cancelled]"] run show ?thesis by simp
qed

text \<open>
  The reverse iterator of a BadgerDB reports its domain the wrong way round: \<open>Domain\<close> of
  \<open>ReverseIterator(start, end)\<close> is \<open>(end, start)\<close>, although it visits the keys from \<open>start\<close>
  (inclusive) to \<open>end\<close> (exclusive).
\<close>

theorem BadgerDB_reverse_Domain_swapped:
  assumes "badger_laws bg dok dents txn tok tents mok pair cok crev items left wops enc fits small"
    and "dok (bgd_db b)" and "domain_error start end' = None"
  shows "\<exists>i i'. BadgerDB_ReverseIterator bg b start end' = Ret (Some i, None) \<and>
    badgerDBIterator_Domain i = (end', start) \<and>
    iter_loop (badgerDBIterator_iface bg) i [] =
      Ret (map (\<lambda>(k, v). (Some k, enc v)) (kv_scan True start end' (dents (bgd_db b))), i')"
proof -
  have nb: "\<not> blank start" "\<not> blank end'" using assms(3) by (auto simp: domain_error_def split: if_splits)
  obtain i where i: "BadgerDB_ReverseIterator bg b start end' = Ret (Some i, None)" "bgi_ok cok i"
    "badgerDBIterator_Domain i = (end', start)" "bgi_rest left i = kv_scan True start end' (dents (bgd_db b))"
    using badger_laws.iterator_opts [OF assms(1,2) nb(2,1), of "bg_DefaultIteratorOptions bg\<lparr>bio_Reverse := True\<rparr>"]
    by (auto simp: BadgerDB_ReverseIterator_def Let_def)
  with iterator_walk.iter_loop_rest [OF badger_laws.iterator_laws [OF assms(1)] i(2), of "[]"] show ?thesis by auto
qed

theorem BadgerDB_reverse_Domain_swapped_witness:
  "\<exists>i i'. BadgerDB_ReverseIterator list_badger \<lparr>bgd_db = [([1], [5]), ([2], [6])]\<rparr> (Some [1]) (Some [2]) = Ret (Some i, None) \<and>
    badgerDBIterator_Domain i = (Some [2], Some [1]) \<and>
    iter_loop (badgerDBIterator_iface list_badger) i [] = Ret ([(Some [1], Some [5])], i')"
  using BadgerDB_reverse_Domain_swapped [OF list_bg.badger_laws_axioms,
      of "\<lparr>bgd_db = [([1], [5]), ([2], [6])]\<rparr>" "Some [1]" "Some [2]"]
  by (simp add: kv_wf_def domain_error_def nil_copy_def kv_scan_def kv_range_def IsKeyInDomain_iff)

text \<open>
  Reading an empty value: when copying an empty value gives nil, which \<open>Get\<close> repairs, the
  iterator hands out the nil value, so a scan and \<open>Get\<close> disagree on a stored empty value.
\<close>

theorem BadgerDB_empty_value_nil_in_scan:
  assumes "badger_laws bg dok dents txn tok tents mok pair cok crev items left wops enc fits small"
    and "dok (bgd_db b)" and "domain_error start end' = None" and "enc [] = None"
    and "(k, []) \<in> set (dents (bgd_db b))" and "IsKeyInDomain (Some k) start end'"
  shows "BadgerDB_Get bg b (Some k) = (Some [], None) \<and>
    (\<exists>xs. db_call (BadgerDB_iface bg) b (CScan r start end') = Ret (b, AScan xs None) \<and> (Some k, None) \<in> set xs)"
proof -
  have "kv_sorted (dents (bgd_db b))" "k \<noteq> []"
    using badger_laws.dents_wf [OF assms(1,2)] assms(5) by (auto simp: kv_wf_def)
  moreover have "(k, []) \<in> set (kv_scan r start end' (dents (bgd_db b)))" using assms(5,6) by (simp add: set_kv_scan)
  ultimately show ?thesis
    using badger_laws.get_has(1) [OF assms(1,2), of "Some k"] badger_laws.scan_answer [OF assms(1-3), of r] assms(4,5)
    by (auto simp: map_of_eq_Some_iff_kv image_iff intro!: bexI [of _ "(k, [])"])
qed

theorem BadgerDB_empty_value_nil_in_scan_witness:
  "BadgerDB_Get list_badger \<lparr>bgd_db = [([1], [])]\<rparr> (Some [1]) = (Some [], None) \<and>
    (\<exists>xs. db_call (BadgerDB_iface list_badger) \<lparr>bgd_db = [([1], [])]\<rparr> (CScan False None None) =
      Ret (\<lparr>bgd_db = [([1], [])]\<rparr>, AScan xs None) \<and> (Some [1], None) \<in> set xs)"
  using BadgerDB_empty_value_nil_in_scan [OF list_bg.badger_laws_axioms,
      of "\<lparr>bgd_db = [([1], [])]\<rparr>" None None "[1]" False]
  by (simp add: kv_wf_def domain_error_def nil_copy_def IsKeyInDomain_iff)

end
