(* ===== verification/Registry.thy ===== *)
theory Registry
  imports MemDB GoLevelDB CLevelDB RocksDB BoltDB BadgerDB "HOL-Library.Multiset"
begin

text \<open>
  \<open>db.go\<close>: the names of the backends, the map from names to creators, \<open>NewDB\<close>, and the \<open>init\<close>
  functions by which the backend files register themselves. The variable \<open>backends\<close> is passed as
  state; which files are compiled in is decided by build tags. The order in which Go ranges over a
  map is not determined: \<open>NewDB\<close> takes an enumeration of the keys, and the statements hold for
  every one.
\<close>

section \<open>Backend names and creators\<close>

type_synonym BackendType = string

definition GoLevelDBBackend :: BackendType where "GoLevelDBBackend = ''goleveldb''"
definition CLevelDBBackend :: BackendType where "CLevelDBBackend = ''cleveldb''"
definition MemDBBackend :: BackendType where "MemDBBackend = ''memdb''"
definition BoltDBBackend :: BackendType where "BoltDBBackend = ''boltdb''"
definition RocksDBBackend :: BackendType where "RocksDBBackend = ''rocksdb''"
definition BadgerDBBackend :: BackendType where "BadgerDBBackend = ''badgerdb''"

lemmas backend_names =
  GoLevelDBBackend_def CLevelDBBackend_def MemDBBackend_def BoltDBBackend_def RocksDBBackend_def BadgerDBBackend_def

type_synonym 'db dbCreator = "string \<Rightarrow> string \<Rightarrow> 'db option \<times> error option"

type_synonym 'db backends = "BackendType \<rightharpoonup> 'db dbCreator"

definition registerDBCreator :: "'db backends \<Rightarrow> BackendType \<Rightarrow> 'db dbCreator \<Rightarrow> bool \<Rightarrow> 'db backends" where
  "registerDBCreator backends backend creator force =
     (let ok = (backends backend \<noteq> None) in
      if \<not> force \<and> ok then backends else backends(backend \<mapsto> creator))"

text \<open>The keys of the map in the order of a \<open>range\<close> loop.\<close>

definition ranges_over :: "BackendType list \<Rightarrow> 'db backends \<Rightarrow> bool" where
  "ranges_over ks backends \<longleftrightarrow> distinct ks \<and> set ks = dom backends"

definition unknown_backend :: "BackendType \<Rightarrow> BackendType list \<Rightarrow> error" where
  "unknown_backend backend keys =
     ErrorString (''unknown db_backend '' @ backend @ '', expected one of '' @ strings_Join keys '','')"

definition NewDB ::
  "'db backends \<Rightarrow> BackendType list \<Rightarrow> string \<Rightarrow> BackendType \<Rightarrow> string \<Rightarrow> 'db option \<times> error option" where
  "NewDB backends ks name backend dir =
     (case backends backend of
        None \<Rightarrow> (None, Some (unknown_backend backend ks))
      | Some dbCreator \<Rightarrow>
          (let (db, err) = dbCreator name dir in
           if err \<noteq> None then (None, map_option (Wrap ''failed to initialize database'') err) else (db, None)))"

section \<open>The init functions\<close>

text \<open>A database of one of the compiled backends, by its state.\<close>

datatype ('mem, 'gol, 'cl, 'ro, 'bo, 'ba) AnyDB =
    AMemDB 'mem
  | AGoLevelDB 'gol
  | ACLevelDB 'cl
  | ARocksDB 'ro
  | ABoltDB 'bo
  | ABadgerDB 'ba

definition lift_creator :: "('s \<Rightarrow> 'db) \<Rightarrow> 's option \<times> error option \<Rightarrow> 'db option \<times> error option" where
  "lift_creator f r = (map_option f (fst r), snd r)"

definition memdb_init ::
  "'t btree_ops \<Rightarrow> ('t MemDB, 'gol, 'cl, 'ro, 'bo, 'ba) AnyDB backends \<Rightarrow>
     ('t MemDB, 'gol, 'cl, 'ro, 'bo, 'ba) AnyDB backends" where
  "memdb_init bt backends =
     registerDBCreator backends MemDBBackend (\<lambda>name dir. (Some (AMemDB (NewMemDB bt)), None)) False"

definition goleveldb_init ::
  "(string \<Rightarrow> 'o option \<Rightarrow> 'd + error) \<Rightarrow> ('mem, 'd GoLevelDB, 'cl, 'ro, 'bo, 'ba) AnyDB backends \<Rightarrow>
     ('mem, 'd GoLevelDB, 'cl, 'ro, 'bo, 'ba) AnyDB backends" where
  "goleveldb_init leveldb_OpenFile backends =
     (let dbCreator = (\<lambda>name dir. lift_creator AGoLevelDB (NewGoLevelDB leveldb_OpenFile name dir))
      in registerDBCreator backends GoLevelDBBackend dbCreator False)"

definition cleveldb_init ::
  "('d, 'r, 'o, 'c, 'w) levigo_ops \<Rightarrow> ('mem, 'gol, ('d, 'r, 'o) CLevelDB, 'ro, 'bo, 'ba) AnyDB backends \<Rightarrow>
     ('mem, 'gol, ('d, 'r, 'o) CLevelDB, 'ro, 'bo, 'ba) AnyDB backends" where
  "cleveldb_init lv backends =
     (let dbCreator = (\<lambda>name dir. lift_creator ACLevelDB (NewCLevelDB lv name dir))
      in registerDBCreator backends CLevelDBBackend dbCreator False)"

definition rocksdb_init ::
  "('d, 'r, 'o, 'c, 'w) gorocksdb_ops \<Rightarrow> nat \<Rightarrow> ('mem, 'gol, 'cl, ('d, 'r, 'o) RocksDB, 'bo, 'ba) AnyDB backends \<Rightarrow>
     ('mem, 'gol, 'cl, ('d, 'r, 'o) RocksDB, 'bo, 'ba) AnyDB backends" where
  "rocksdb_init rk numCPU backends =
     (let dbCreator = (\<lambda>name dir. lift_creator ARocksDB (NewRocksDB rk numCPU name dir))
      in registerDBCreator backends RocksDBBackend dbCreator False)"

definition boltdb_init ::
  "('d, 't, 'c) bbolt_ops \<Rightarrow> ('mem, 'gol, 'cl, 'ro, 'd BoltDB, 'ba) AnyDB backends \<Rightarrow>
     ('mem, 'gol, 'cl, 'ro, 'd BoltDB, 'ba) AnyDB backends" where
  "boltdb_init bb backends =
     registerDBCreator backends BoltDBBackend (\<lambda>name dir. lift_creator ABoltDB (NewBoltDB bb name dir)) False"

definition badgerDBCreator ::
  "('d, 't, 'm, 'c, 'w) badger_ops \<Rightarrow> (string \<Rightarrow> error option) \<Rightarrow>
     ('mem, 'gol, 'cl, 'ro, 'bo, 'd BadgerDB) AnyDB dbCreator" where
  "badgerDBCreator bg mkdirAll dbName dir = lift_creator ABadgerDB (NewBadgerDB bg mkdirAll dbName dir)"

definition badgerdb_init ::
  "('d, 't, 'm, 'c, 'w) badger_ops \<Rightarrow> (string \<Rightarrow> error option) \<Rightarrow>
     ('mem, 'gol, 'cl, 'ro, 'bo, 'd BadgerDB) AnyDB backends \<Rightarrow>
     ('mem, 'gol, 'cl, 'ro, 'bo, 'd BadgerDB) AnyDB backends" where
  "badgerdb_init bg mkdirAll backends =
     registerDBCreator backends BadgerDBBackend (badgerDBCreator bg mkdirAll) True"

text \<open>
  The start of the program runs the init functions of the files that are compiled in, file by file
  in the order of their names, on the empty map.
\<close>

record build_tags =
  tag_badgerdb :: bool
  tag_boltdb :: bool
  tag_cleveldb :: bool
  tag_rocksdb :: bool

definition init_functions ::
  "build_tags \<Rightarrow> ('d1, 't1, 'm1, 'c1, 'w1) badger_ops \<Rightarrow> (string \<Rightarrow> error option) \<Rightarrow> ('d2, 't2, 'c2) bbolt_ops \<Rightarrow>
     ('d3, 'r3, 'o3, 'c3, 'w3) levigo_ops \<Rightarrow> (string \<Rightarrow> 'o4 option \<Rightarrow> 'd4 + error) \<Rightarrow> 't5 btree_ops \<Rightarrow>
     ('d6, 'r6, 'o6, 'c6, 'w6) gorocksdb_ops \<Rightarrow> nat \<Rightarrow>
     (('t5 MemDB, 'd4 GoLevelDB, ('d3, 'r3, 'o3) CLevelDB, ('d6, 'r6, 'o6) RocksDB, 'd2 BoltDB, 'd1 BadgerDB) AnyDB backends \<Rightarrow>
      ('t5 MemDB, 'd4 GoLevelDB, ('d3, 'r3, 'o3) CLevelDB, ('d6, 'r6, 'o6) RocksDB, 'd2 BoltDB, 'd1 BadgerDB) AnyDB backends) list"
where
  "init_functions tags bg mkdirAll bb lv leveldb_OpenFile bt rk numCPU =
     (if tag_badgerdb tags then [badgerdb_init bg mkdirAll] else []) @
     (if tag_boltdb tags then [boltdb_init bb] else []) @
     (if tag_cleveldb tags then [cleveldb_init lv] else []) @
     [goleveldb_init leveldb_OpenFile, memdb_init bt] @
     (if tag_rocksdb tags then [rocksdb_init rk numCPU] else [])"

definition run_inits :: "('m \<Rightarrow> 'm) list \<Rightarrow> 'm \<Rightarrow> 'm" where
  "run_inits fs m = fold (\<lambda>f m. f m) fs m"

lemmas init_defs =
  memdb_init_def goleveldb_init_def cleveldb_init_def rocksdb_init_def boltdb_init_def badgerdb_init_def

section \<open>Registrations\<close>

text \<open>A sequence of registrations, each with its name, creator and force flag.\<close>

definition register_all :: "(BackendType \<times> 'db dbCreator \<times> bool) list \<Rightarrow> 'db backends \<Rightarrow> 'db backends" where
  "register_all rs backends = fold (\<lambda>(n, c, f) m. registerDBCreator m n c f) rs backends"

lemma registerDBCreator_lookup:
  "registerDBCreator m n c f k = (if k = n \<and> (f \<or> m n = None) then Some c else m k)"
  by (simp add: registerDBCreator_def)

lemma register_all_simps [simp]:
  "register_all [] m = m"
  "register_all ((n, c, f) # rs) m = register_all rs (registerDBCreator m n c f)"
  by (simp_all add: register_all_def)

lemma registerDBCreator_commute:
  "n \<noteq> n' \<Longrightarrow> registerDBCreator (registerDBCreator m n c f) n' c' f' = registerDBCreator (registerDBCreator m n' c' f') n c f"
  by (auto simp: registerDBCreator_def fun_upd_twist)

lemma init_functions_commute:
  assumes "f \<in> set (init_functions tags bg mkdirAll bb lv leveldb_OpenFile bt rk numCPU)"
    and "g \<in> set (init_functions tags bg mkdirAll bb lv leveldb_OpenFile bt rk numCPU)"
  shows "f (g m) = g (f m)"
  using assms
  by (auto simp: init_functions_def init_defs backend_names registerDBCreator_commute split: if_splits)

text \<open>The constructors return a database or an error, never both and never neither.\<close>

definition db_or_error :: "'db option \<times> error option \<Rightarrow> bool" where
  "db_or_error r \<longleftrightarrow> (fst r = None \<longleftrightarrow> snd r \<noteq> None)"

lemma lift_creator_db_or_error [simp]: "db_or_error (lift_creator f r) \<longleftrightarrow> db_or_error r"
  by (simp add: db_or_error_def lift_creator_def)

lemma constructors_db_or_error:
  "db_or_error (NewGoLevelDB leveldb_OpenFile name dir)" "db_or_error (NewCLevelDB lv name dir)"
  "db_or_error (NewRocksDB rk numCPU name dir)" "db_or_error (NewBoltDB bb name dir)"
  "db_or_error (NewBadgerDB bg mkdirAll name dir)"
  by (auto simp: db_or_error_def NewGoLevelDB_def NewGoLevelDBWithOpts_def NewCLevelDB_def NewRocksDB_def
      NewRocksDBWithOptions_def NewBoltDB_def NewBoltDBWithOpts_def NewBadgerDB_def NewBadgerDBWithOptions_def Let_def
      split: sum.splits prod.splits option.splits)

text \<open>What the init functions leave in the map.\<close>

lemma run_inits_lookup:
  "run_inits (init_functions tags bg mkdirAll bb lv leveldb_OpenFile bt rk numCPU) Map.empty backend =
     (if backend = ''memdb'' then Some (\<lambda>name dir. (Some (AMemDB (NewMemDB bt)), None))
      else if backend = ''goleveldb'' then
        Some (\<lambda>name dir. lift_creator AGoLevelDB (NewGoLevelDB leveldb_OpenFile name dir))
      else if backend = ''cleveldb'' \<and> tag_cleveldb tags then
        Some (\<lambda>name dir. lift_creator ACLevelDB (NewCLevelDB lv name dir))
      else if backend = ''rocksdb'' \<and> tag_rocksdb tags then
        Some (\<lambda>name dir. lift_creator ARocksDB (NewRocksDB rk numCPU name dir))
      else if backend = ''boltdb'' \<and> tag_boltdb tags then
        Some (\<lambda>name dir. lift_creator ABoltDB (NewBoltDB bb name dir))
      else if backend = ''badgerdb'' \<and> tag_badgerdb tags then Some (badgerDBCreator bg mkdirAll)
      else None)"
  by (simp add: run_inits_def init_functions_def init_defs backend_names registerDBCreator_lookup)

section \<open>Properties\<close>

text \<open>
  C18. What is registered under a name after any sequence of registrations: the creator of the last
  forced one; without a forced one the creator that was there before, or else the first one.
\<close>

theorem registerDBCreator_precedence:
  "register_all rs m k =
     (case filter (\<lambda>(n, c, f). n = k \<and> f) (rev rs) of
        (n, c, f) # _ \<Rightarrow> Some c
      | [] \<Rightarrow> (case m k of Some c \<Rightarrow> Some c
             | None \<Rightarrow> (case filter (\<lambda>(n, c, f). n = k) rs of (n, c, f) # _ \<Rightarrow> Some c | [] \<Rightarrow> None)))"
proof (induction rs arbitrary: m)
  case (Cons r rs)
  obtain n c f where r: "r = (n, c, f)" by (cases r)
  show ?case
    by (cases "filter (\<lambda>(n, c, f). n = k \<and> f) (rev rs)")
       (auto simp: r Cons.IH registerDBCreator_lookup split: option.splits list.splits)
qed (simp split: option.splits)

text \<open>
  C19. The map of backends does not depend on the order in which the init functions of the compiled
  files run.
\<close>

theorem init_order_irrelevant:
  assumes "mset fs = mset (init_functions tags bg mkdirAll bb lv leveldb_OpenFile bt rk numCPU)"
  shows "run_inits fs Map.empty =
    run_inits (init_functions tags bg mkdirAll bb lv leveldb_OpenFile bt rk numCPU) Map.empty"
proof -
  have "set fs = set (init_functions tags bg mkdirAll bb lv leveldb_OpenFile bt rk numCPU)"
    using assms by (rule mset_eq_setD)
  then have "f (g m) = g (f m)" if "f \<in> set fs" "g \<in> set fs" for f g m
    using init_functions_commute [of f tags bg mkdirAll bb lv leveldb_OpenFile bt rk numCPU g m] that by simp
  then have "fold (\<lambda>f m. f m) fs = fold (\<lambda>f m. f m) (init_functions tags bg mkdirAll bb lv leveldb_OpenFile bt rk numCPU)"
    by (intro fold_multiset_equiv [OF _ assms]) (simp add: comp_def)
  then show ?thesis by (simp add: run_inits_def)
qed

theorem init_order_irrelevant_witness:
  "run_inits [memdb_init list_btree, rocksdb_init list_gorocksdb 4, goleveldb_init (\<lambda>path (opts :: unit option). Inl ([] :: kv list)),
      badgerdb_init list_badger (\<lambda>path. None)] Map.empty =
    run_inits (init_functions \<lparr>tag_badgerdb = True, tag_boltdb = False, tag_cleveldb = False, tag_rocksdb = True\<rparr>
      list_badger (\<lambda>path. None) list_bbolt list_levigo (\<lambda>path (opts :: unit option). Inl ([] :: kv list)) list_btree list_gorocksdb 4)
      Map.empty"
  by (rule init_order_irrelevant) (simp add: init_functions_def add_mset_commute)

text \<open>
  C17. \<open>NewDB\<close> of the compiled program gives a database or an error, never both and never neither.
  A backend that is not compiled in is refused with an error that lists exactly the names that are
  accepted; a constructor that fails is reported under a wrapped error and no database.
\<close>

theorem NewDB_db_or_error:
  fixes tags bg mkdirAll bb lv leveldb_OpenFile bt rk numCPU
  defines "m \<equiv> run_inits (init_functions tags bg mkdirAll bb lv leveldb_OpenFile bt rk numCPU) Map.empty"
  assumes "ranges_over ks m"
  shows "db_or_error (NewDB m ks name backend dir)
    \<and> (backend \<notin> set ks \<longrightarrow> NewDB m ks name backend dir = (None, Some (unknown_backend backend ks)))
    \<and> (backend \<in> set ks \<longrightarrow> (\<forall>e. snd (NewDB m ks name backend dir) = Some e \<longrightarrow>
         (\<exists>e'. e = Wrap ''failed to initialize database'' e')))
    \<and> set ks = {''memdb'', ''goleveldb''} \<union> (if tag_cleveldb tags then {''cleveldb''} else {})
        \<union> (if tag_rocksdb tags then {''rocksdb''} else {}) \<union> (if tag_boltdb tags then {''boltdb''} else {})
        \<union> (if tag_badgerdb tags then {''badgerdb''} else {})"
proof -
  have creators: "db_or_error (c name dir)" if "m backend = Some c" for c
    using that unfolding m_def run_inits_lookup
    by (auto simp: badgerDBCreator_def constructors_db_or_error db_or_error_def [of "(Some _, None)"]
        simp del: list.inject split: if_splits)
  have dom: "set ks = dom m" using assms(2) by (simp add: ranges_over_def)
  have "dom m = {''memdb'', ''goleveldb''} \<union> (if tag_cleveldb tags then {''cleveldb''} else {})
        \<union> (if tag_rocksdb tags then {''rocksdb''} else {}) \<union> (if tag_boltdb tags then {''boltdb''} else {})
        \<union> (if tag_badgerdb tags then {''badgerdb''} else {})"
    unfolding m_def dom_def run_inits_lookup by auto
  moreover have "db_or_error (NewDB m ks name backend dir)"
    using creators by (auto simp: NewDB_def db_or_error_def split: option.splits prod.splits)
  moreover have "NewDB m ks name backend dir = (None, Some (unknown_backend backend ks))" if "backend \<notin> set ks"
    using that unfolding dom by (auto simp: NewDB_def dom_def split: option.splits)
  moreover have "\<exists>e'. e = Wrap ''failed to initialize database'' e'"
    if "backend \<in> set ks" "snd (NewDB m ks name backend dir) = Some e" for e
    using that unfolding dom by (auto simp: NewDB_def dom_def split: option.splits prod.splits if_splits)
  ultimately show ?thesis using dom by (intro conjI impI allI) auto
qed

theorem NewDB_db_or_error_witness:
  "NewDB (run_inits (init_functions \<lparr>tag_badgerdb = False, tag_boltdb = False, tag_cleveldb = False, tag_rocksdb = False\<rparr>
      list_badger (\<lambda>path. None) list_bbolt list_levigo (\<lambda>path (opts :: unit option). Inl ([] :: kv list)) list_btree list_gorocksdb 4)
      Map.empty) [''memdb'', ''goleveldb''] ''app'' ''rocksdb'' ''data'' =
    (None, Some (ErrorString ''unknown db_backend rocksdb, expected one of memdb,goleveldb''))"
proof -
  let ?m = "run_inits (init_functions \<lparr>tag_badgerdb = False, tag_boltdb = False, tag_cleveldb = False, tag_rocksdb = False\<rparr>
      list_badger (\<lambda>path. None) list_bbolt list_levigo (\<lambda>path (opts :: unit option). Inl ([] :: kv list)) list_btree list_gorocksdb 4)
      Map.empty"
  have "ranges_over [''memdb'', ''goleveldb''] ?m"
    unfolding ranges_over_def dom_def run_inits_lookup by auto
  from NewDB_db_or_error [OF this, of "''app''" "''rocksdb''" "''data''"]
  show ?thesis by (simp add: unknown_backend_def)
qed

end
