(* ===== verification/RemoteDB_Concurrent.thy ===== *)
theory RemoteDB_Concurrent
  imports RemoteDB
begin

text \<open>
  A gRPC server with several clients. Each call of \<open>Iterator\<close> or \<open>ReverseIterator\<close> runs in a goroutine of
  the server, which sends while the client receives and while other calls are served; how
  much may be on its way is the argument \<open>room\<close>, the flow control of gRPC. A remote iterator may be
  closed before its end, and a stream may break, by a cancelled context or a lost connection. The
  databases are those of the contract, whose iterators do not see later changes; what a \<open>MemDB\<close>
  does for this with its lock is the subject of \<open>MemDB_Server\<close>. \<open>GetStream\<close> is composed with its client in
  the same way.
\<close>

section \<open>Streams of iterators\<close>

text \<open>
  The goroutine of a stream: about to ask the database for an iterator, at the head of the loop of
  \<open>handleIterator\<close>, in the call of \<open>Send\<close>, or returned, with the iterator closed by the deferred call.
\<close>

datatype 'i stream_handler =
    HStart bool Entity
  | HLoop 'i
  | HSend PIterator 'i
  | HReturned "error option"

text \<open>
  A stream: its goroutine, the messages on their way, those that the client has received; the kind
  of the remote iterator that reads it, whether the client has closed its sending side, whether the
  remote iterator is still open, and the error after which the stream carries nothing any more.
\<close>

record 'i remote_stream =
  rs_handler :: "'i stream_handler"
  rs_flight :: "message list"
  rs_taken :: "message list"
  rs_reverse :: bool
  rs_half :: bool
  rs_open :: bool
  rs_broken :: "error option"

text \<open>The stub closes the sending side as soon as it has sent the request.\<close>

definition new_stream :: "bool \<Rightarrow> Entity \<Rightarrow> 'i remote_stream" where
  "new_stream reverse q =
     \<lparr>rs_handler = HStart reverse q, rs_flight = [], rs_taken = [], rs_reverse = reverse, rs_half = True, rs_open = True,
      rs_broken = None\<rparr>"

text \<open>\<open>Send\<close> waits for room; on a broken stream it fails, and the method returns the error.\<close>

inductive serve_step ::
  "('s, 'i, 'b) grpc_env \<Rightarrow> (message list \<Rightarrow> message \<Rightarrow> bool) \<Rightarrow> 's server \<Rightarrow> 'i remote_stream \<Rightarrow> 'i remote_stream \<Rightarrow> bool"
  for env :: "('s, 'i, 'b) grpc_env" and room :: "message list \<Rightarrow> message \<Rightarrow> bool" and s :: "'s server" where
  started: "rs_handler st = HStart reverse q \<Longrightarrow> srv_db s = Some d \<Longrightarrow>
    (if reverse then D_ReverseIterator (ge_db env) d (en_Start q) (en_End q)
     else D_Iterator (ge_db env) d (en_Start q) (en_End q)) = Ret (Some i, None) \<Longrightarrow>
    serve_step env room s st (st\<lparr>rs_handler := HLoop i\<rparr>)"
| refused: "rs_handler st = HStart reverse q \<Longrightarrow> srv_db s = Some d \<Longrightarrow>
    (if reverse then D_ReverseIterator (ge_db env) d (en_Start q) (en_End q)
     else D_Iterator (ge_db env) d (en_Start q) (en_End q)) = Ret (x, Some err) \<Longrightarrow>
    serve_step env room s st (st\<lparr>rs_handler := HReturned (Some err)\<rparr>)"
| finished: "rs_handler st = HLoop i \<Longrightarrow> next_message (D_itr (ge_db env)) i = Ret (None, i') \<Longrightarrow>
    I_Close (D_itr (ge_db env)) i' = (i'', err) \<Longrightarrow>
    serve_step env room s st (st\<lparr>rs_handler := HReturned None\<rparr>)"
| message: "rs_handler st = HLoop i \<Longrightarrow> next_message (D_itr (ge_db env)) i = Ret (Some m, i') \<Longrightarrow>
    serve_step env room s st (st\<lparr>rs_handler := HSend m i'\<rparr>)"
| sent: "rs_handler st = HSend m i \<Longrightarrow> rs_broken st = None \<Longrightarrow> room (rs_flight st) (nt_wire (ge_net env) (MIterator m)) \<Longrightarrow>
    I_Next (D_itr (ge_db env)) i = Ret i' \<Longrightarrow>
    serve_step env room s st
      (st\<lparr>rs_handler := HLoop i', rs_flight := rs_flight st @ [nt_wire (ge_net env) (MIterator m)]\<rparr>)"
| send_failed: "rs_handler st = HSend m i \<Longrightarrow> rs_broken st = Some err \<Longrightarrow> I_Close (D_itr (ge_db env)) i = (i', e) \<Longrightarrow>
    serve_step env room s st (st\<lparr>rs_handler := HReturned (Some err)\<rparr>)"

text \<open>
  What a client can do to a stream besides receiving: close its sending side, or cancel the context
  of the call, which breaks the stream. \<open>Close\<close> of the forward iterator does the first, \<open>Close\<close> of the
  reverse iterator does neither.
\<close>

datatype stream_op = OpCloseSend | OpCancel

fun apply_op :: "stream_op \<Rightarrow> 'i remote_stream \<Rightarrow> 'i remote_stream" where
  "apply_op OpCloseSend st = st\<lparr>rs_half := True\<rparr>"
| "apply_op OpCancel st =
     (if rs_broken st = None then st\<lparr>rs_broken := Some (ErrorString ''context canceled'')\<rparr> else st)"

definition iterator_close_ops :: "stream_op list" where
  "iterator_close_ops = [OpCloseSend]"

definition reverseIterator_close_ops :: "stream_op list" where
  "reverseIterator_close_ops = []"

definition close_ops :: "bool \<Rightarrow> stream_op list" where
  "close_ops reverse = (if reverse then reverseIterator_close_ops else iterator_close_ops)"

text \<open>
  The server with all its streams. An event is a unary call of some client, the opening of a
  stream, a step of the goroutine of a stream, the receipt of a message by an iterator that is open,
  the closing of an iterator, or the breaking of a stream.
\<close>

record ('s, 'i) remote_sys =
  sys_srv :: "'s server"
  sys_streams :: "'i remote_stream list"

datatype remote_event = ECall | EOpen | EServe nat | ERecv nat | EClose nat | EBreak nat error

inductive remote_step ::
  "('s, 'i, 'b) grpc_env \<Rightarrow> (message list \<Rightarrow> message \<Rightarrow> bool) \<Rightarrow> remote_event \<Rightarrow> ('s, 'i) remote_sys \<Rightarrow>
     ('s, 'i) remote_sys \<Rightarrow> bool"
  for env :: "('s, 'i, 'b) grpc_env" and room :: "message list \<Rightarrow> message \<Rightarrow> bool" where
  call: "by_path (DB_Methods (server_DBServer env) env) path = Some handler \<Longrightarrow>
    handler (sys_srv y) (nt_wire (ge_net env) m) = Ret (s', r) \<Longrightarrow>
    remote_step env room ECall y (y\<lparr>sys_srv := s'\<rparr>)"
| opened: "nt_newStream (ge_net env) = None \<Longrightarrow> nt_wire (ge_net env) (MEntity e) = MEntity q \<Longrightarrow>
    remote_step env room EOpen y (y\<lparr>sys_streams := sys_streams y @ [new_stream reverse q]\<rparr>)"
| serve: "j < length (sys_streams y) \<Longrightarrow> serve_step env room (sys_srv y) (sys_streams y ! j) st \<Longrightarrow>
    remote_step env room (EServe j) y (y\<lparr>sys_streams := (sys_streams y)[j := st]\<rparr>)"
| recv: "j < length (sys_streams y) \<Longrightarrow> st = sys_streams y ! j \<Longrightarrow> rs_open st \<Longrightarrow> rs_broken st = None \<Longrightarrow>
    rs_flight st = m # ms \<Longrightarrow>
    remote_step env room (ERecv j) y
      (y\<lparr>sys_streams := (sys_streams y)[j := st\<lparr>rs_flight := ms, rs_taken := rs_taken st @ [m]\<rparr>]\<rparr>)"
| close: "j < length (sys_streams y) \<Longrightarrow> st = sys_streams y ! j \<Longrightarrow> rs_open st \<Longrightarrow>
    remote_step env room (EClose j) y
      (y\<lparr>sys_streams := (sys_streams y)[j := (fold apply_op (close_ops (rs_reverse st)) st)\<lparr>rs_open := False\<rparr>]\<rparr>)"
| broken: "j < length (sys_streams y) \<Longrightarrow> st = sys_streams y ! j \<Longrightarrow> rs_broken st = None \<Longrightarrow>
    remote_step env room (EBreak j err) y (y\<lparr>sys_streams := (sys_streams y)[j := st\<lparr>rs_broken := Some err\<rparr>]\<rparr>)"

inductive remote_run ::
  "('s, 'i, 'b) grpc_env \<Rightarrow> (message list \<Rightarrow> message \<Rightarrow> bool) \<Rightarrow> remote_event list \<Rightarrow> ('s, 'i) remote_sys \<Rightarrow>
     ('s, 'i) remote_sys \<Rightarrow> bool"
  for env :: "('s, 'i, 'b) grpc_env" and room :: "message list \<Rightarrow> message \<Rightarrow> bool" where
  run_nil [simp, intro!]: "remote_run env room [] y y"
| run_snoc: "remote_run env room evs y y' \<Longrightarrow> remote_step env room ev y' y'' \<Longrightarrow> remote_run env room (evs @ [ev]) y y''"

lemma run_Cons:
  assumes "remote_step env room ev y y1" and "remote_run env room evs y1 y2"
  shows "remote_run env room (ev # evs) y y2"
  using assms(2,1)
proof (induction rule: remote_run.induct)
  case (run_nil y1)
  then show ?case using run_snoc [OF remote_run.run_nil, of env room ev y y1] by simp
next
  case (run_snoc evs y1 y' ev' y'')
  then show ?case using remote_run.run_snoc [of env room "ev # evs"] by simp
qed

section \<open>What happens to one stream\<close>

inductive_cases call_step [elim!]: "remote_step env room ECall y y'"
inductive_cases open_step [elim!]: "remote_step env room EOpen y y'"
inductive_cases stream_step [elim]: "remote_step env room (EServe j) y y'"
inductive_cases recv_step [elim]: "remote_step env room (ERecv j) y y'"
inductive_cases close_step [elim]: "remote_step env room (EClose j) y y'"
inductive_cases break_step [elim]: "remote_step env room (EBreak j err) y y'"

text \<open>The events in which stream \<open>j\<close> moves on.\<close>

definition events_of :: "nat \<Rightarrow> remote_event list \<Rightarrow> remote_event list" where
  "events_of j evs = filter (\<lambda>ev. ev = EServe j \<or> ev = ERecv j) evs"

text \<open>No event breaks stream \<open>j\<close>.\<close>

definition unbroken :: "nat \<Rightarrow> remote_event list \<Rightarrow> bool" where
  "unbroken j evs \<longleftrightarrow> list_all (\<lambda>ev. case ev of EBreak i err \<Rightarrow> i \<noteq> j | _ \<Rightarrow> True) evs"

text \<open>Whom an event is about; it leaves all other streams as they are.\<close>

fun event_stream :: "remote_event \<Rightarrow> nat option" where
  "event_stream (EServe j) = Some j"
| "event_stream (ERecv j) = Some j"
| "event_stream (EClose j) = Some j"
| "event_stream (EBreak j err) = Some j"
| "event_stream _ = None"

lemma step_other:
  assumes "remote_step env room ev y y'" and "j < length (sys_streams y)" and "event_stream ev \<noteq> Some j"
  shows "j < length (sys_streams y') \<and> sys_streams y' ! j = sys_streams y ! j"
  using assms by (cases ev) (auto simp: nth_append)

text \<open>Closing an iterator leaves what the server works with.\<close>

lemma close_ops_frame [simp]:
  "rs_handler (fold apply_op (close_ops r) st) = rs_handler st" "rs_flight (fold apply_op (close_ops r) st) = rs_flight st"
  "rs_taken (fold apply_op (close_ops r) st) = rs_taken st" "rs_broken (fold apply_op (close_ops r) st) = rs_broken st"
  by (simp_all add: close_ops_def iterator_close_ops_def reverseIterator_close_ops_def)

text \<open>A stream from the moment on at which it has an iterator, seen from the pairs that it is to send.\<close>

definition pair_message :: "slice \<times> slice \<Rightarrow> kv \<Rightarrow> message" where
  "pair_message dm x = MIterator (norm_Iterator (pair_msg dm x))"

fun handler_rest :: "('i \<Rightarrow> kv list) \<Rightarrow> 'i stream_handler \<Rightarrow> kv list" where
  "handler_rest rest (HLoop i) = rest i"
| "handler_rest rest (HSend m i) = rest i"
| "handler_rest rest _ = []"

fun handler_ok :: "'i Iterator \<Rightarrow> ('i \<Rightarrow> bool) \<Rightarrow> ('i \<Rightarrow> kv list) \<Rightarrow> slice \<times> slice \<Rightarrow> 'i stream_handler \<Rightarrow> bool" where
  "handler_ok it iok rest dm (HStart reverse q) \<longleftrightarrow> False"
| "handler_ok it iok rest dm (HLoop i) \<longleftrightarrow> iok i \<and> I_Domain it i = dm"
| "handler_ok it iok rest dm (HSend m i) \<longleftrightarrow>
     iok i \<and> I_Domain it i = dm \<and> (\<exists>x xs. rest i = x # xs \<and> m = pair_msg dm x)"
| "handler_ok it iok rest dm (HReturned e) \<longleftrightarrow> True"

definition stream_inv ::
  "'i Iterator \<Rightarrow> ('i \<Rightarrow> bool) \<Rightarrow> ('i \<Rightarrow> kv list) \<Rightarrow> slice \<times> slice \<Rightarrow> kv list \<Rightarrow> 'i remote_stream \<Rightarrow> bool" where
  "stream_inv it iok rest dm xs st \<longleftrightarrow>
     handler_ok it iok rest dm (rs_handler st) \<and>
     (case rs_handler st of
        HReturned (Some e) \<Rightarrow> rs_broken st = Some e \<and> prefix (rs_taken st @ rs_flight st) (map (pair_message dm) xs)
      | h \<Rightarrow> rs_taken st @ rs_flight st @ map (pair_message dm) (handler_rest rest h) = map (pair_message dm) xs)"

fun handler_weight :: "('i \<Rightarrow> kv list) \<Rightarrow> 'i stream_handler \<Rightarrow> nat" where
  "handler_weight rest (HLoop i) = 3 * length (rest i) + 1"
| "handler_weight rest (HSend m i) = 3 * length (rest i)"
| "handler_weight rest _ = 0"

definition stream_weight :: "('i \<Rightarrow> kv list) \<Rightarrow> 'i remote_stream \<Rightarrow> nat" where
  "stream_weight rest st = handler_weight rest (rs_handler st) + length (rs_flight st)"

lemma stream_inv_prefix:
  assumes "stream_inv it iok rest dm xs st"
  shows "prefix (rs_taken st @ rs_flight st) (map (pair_message dm) xs)"
proof -
  consider e where "rs_handler st = HReturned (Some e)"
    | "rs_taken st @ rs_flight st @ map (pair_message dm) (handler_rest rest (rs_handler st)) = map (pair_message dm) xs"
    using assms by (auto simp: stream_inv_def split: stream_handler.splits option.splits)
  then show ?thesis
  proof cases
    case 2
    then show ?thesis by (metis append_assoc prefixI)
  qed (use assms in \<open>simp add: stream_inv_def\<close>)
qed

lemma stream_inv_cong:
  assumes "rs_handler st' = rs_handler st" and "rs_flight st' = rs_flight st" and "rs_taken st' = rs_taken st"
    and "rs_broken st = None \<or> rs_broken st' = rs_broken st"
  shows "stream_inv it iok rest dm xs st \<Longrightarrow> stream_inv it iok rest dm xs st'"
  using assms by (auto simp: stream_inv_def split: stream_handler.splits option.splits)

context remote_store
begin

abbreviation inv_at :: "slice \<times> slice \<Rightarrow> kv list \<Rightarrow> 'i remote_stream \<Rightarrow> bool" where
  "inv_at \<equiv> stream_inv (D_itr (ge_db env)) iok rest"

lemma wire_pair: "nt_wire (ge_net env) (MIterator (pair_msg dm x)) = pair_message dm x"
  by (simp add: wire pair_message_def)

lemma serve_step_inv:
  assumes "serve_step env room s st st'" and "inv_at dm xs st"
  shows "inv_at dm xs st' \<and> stream_weight rest st' < stream_weight rest st \<and> rs_taken st' = rs_taken st \<and>
    rs_open st' = rs_open st \<and> rs_broken st' = rs_broken st"
  using assms
proof (induction rule: serve_step.induct)
  case (finished st i i' i'' err)
  then have "rest i = []"
    using next_message_pair [of i] by (cases "rest i") (auto simp: stream_inv_def)
  with finished show ?case by (simp add: stream_inv_def stream_weight_def)
next
  case (message st i m i')
  then obtain x ys where r: "rest i = x # ys"
    using next_message_end [of i] by (cases "rest i") (auto simp: stream_inv_def)
  with next_message_pair [OF _ r] message show ?case
    by (auto simp: stream_inv_def stream_weight_def it_moved_def)
next
  case (sent st m i i')
  then obtain x ys where r: "iok i" "rest i = x # ys" "m = pair_msg dm x" by (auto simp: stream_inv_def)
  with it_next [OF r(1,2)] sent show ?case
    by (auto simp: stream_inv_def stream_weight_def it_moved_def wire_pair)
next
  case (send_failed st m i err i' e)
  then have "0 < length (rest i)" by (auto simp: stream_inv_def)
  with send_failed stream_inv_prefix [OF send_failed.prems] show ?case by (simp add: stream_inv_def stream_weight_def)
qed (simp_all add: stream_inv_def)

lemma step_inv:
  assumes "remote_step env room ev y y'" and "j < length (sys_streams y)" and "inv_at dm xs (sys_streams y ! j)"
  shows "j < length (sys_streams y') \<and> inv_at dm xs (sys_streams y' ! j) \<and>
    stream_weight rest (sys_streams y' ! j) + length (events_of j [ev]) \<le> stream_weight rest (sys_streams y ! j) \<and>
    (ev \<noteq> ERecv j \<longrightarrow> rs_taken (sys_streams y' ! j) = rs_taken (sys_streams y ! j)) \<and>
    (ev \<noteq> EClose j \<longrightarrow> rs_open (sys_streams y' ! j) = rs_open (sys_streams y ! j)) \<and>
    (unbroken j [ev] \<longrightarrow> rs_broken (sys_streams y' ! j) = rs_broken (sys_streams y ! j))"
proof (cases "event_stream ev = Some j")
  case True
  then consider "ev = EServe j" | "ev = ERecv j" | "ev = EClose j" | err where "ev = EBreak j err"
    by (cases ev) auto
  then show ?thesis
  proof cases
    case 1
    with assms(1) obtain st where "serve_step env room (sys_srv y) (sys_streams y ! j) st"
      "y' = y\<lparr>sys_streams := (sys_streams y)[j := st]\<rparr>" by auto
    with serve_step_inv [OF this(1) assms(3)] assms(2) 1 show ?thesis by (auto simp: events_of_def)
  next
    case 2
    with assms show ?thesis
      by (auto simp: events_of_def stream_inv_def stream_weight_def split: stream_handler.splits option.splits)
  next
    case 3
    with assms show ?thesis
      by (auto simp: events_of_def stream_weight_def elim!: close_step intro: stream_inv_cong [rotated 4])
  next
    case (4 err)
    with assms show ?thesis
      by (auto simp: events_of_def stream_weight_def unbroken_def elim!: break_step intro: stream_inv_cong [rotated 4])
  qed
next
  case False
  with step_other [OF assms(1,2) False] assms(3) show ?thesis by (auto simp: events_of_def)
qed

lemma run_inv:
  assumes "remote_run env room evs y y'" and "j < length (sys_streams y)" and "inv_at dm xs (sys_streams y ! j)"
  shows "j < length (sys_streams y') \<and> inv_at dm xs (sys_streams y' ! j) \<and>
    stream_weight rest (sys_streams y' ! j) + length (events_of j evs) \<le> stream_weight rest (sys_streams y ! j) \<and>
    (EClose j \<notin> set evs \<longrightarrow> rs_open (sys_streams y' ! j) = rs_open (sys_streams y ! j)) \<and>
    (unbroken j evs \<longrightarrow> rs_broken (sys_streams y' ! j) = rs_broken (sys_streams y ! j))"
  using assms
proof (induction rule: remote_run.induct)
  case (run_snoc evs y y' ev y'')
  with step_inv [OF run_snoc.hyps(2), of j dm xs] show ?case by (auto simp: events_of_def unbroken_def)
qed (simp add: events_of_def)

lemma serve_started:
  assumes "serve_step env room s st st'" and "st = new_stream reverse (new_Entity\<lparr>en_Start := start, en_End := end'\<rparr>)"
    and "srv_db s = Some d" and "ok d" and "\<not> blank start" and "\<not> blank end'"
  shows "inv_at (start, end') (kv_scan reverse start end' (ents d)) st' \<and>
    stream_weight rest st' = 3 * length (kv_scan reverse start end' (ents d)) + 1 \<and> rs_open st' \<and> rs_broken st' = None"
proof -
  have n: "domain_error start end' = None" using assms(5,6) by (simp add: domain_error_def)
  obtain i where i: "(if reverse then D_ReverseIterator (ge_db env) d start end' else D_Iterator (ge_db env) d start end') =
      Ret (Some i, None)" "iok i" "rest i = kv_scan reverse start end' (ents d)" "I_Domain (D_itr (ge_db env)) i = (start, end')"
    using iterator [OF assms(4) n] reverse [OF assms(4) n] by (cases reverse) auto
  from assms(1) show ?thesis
    by (cases rule: serve_step.cases)
      (use assms(2,3) i in \<open>auto simp: new_stream_def stream_inv_def stream_weight_def split: if_splits\<close>)
qed

lemma started_inv:
  assumes "j < length (sys_streams y)"
    and "sys_streams y ! j = new_stream reverse (new_Entity\<lparr>en_Start := start, en_End := end'\<rparr>)"
    and "srv_db (sys_srv y) = Some d" and "ok d" and "\<not> blank start" and "\<not> blank end'"
    and "remote_step env room (EServe j) y y1"
  shows "j < length (sys_streams y1) \<and> inv_at (start, end') (kv_scan reverse start end' (ents d)) (sys_streams y1 ! j) \<and>
    stream_weight rest (sys_streams y1 ! j) = 3 * length (kv_scan reverse start end' (ents d)) + 1 \<and>
    rs_open (sys_streams y1 ! j) \<and> rs_broken (sys_streams y1 ! j) = None"
proof -
  from assms(7) obtain st where "serve_step env room (sys_srv y) (sys_streams y ! j) st"
    "y1 = y\<lparr>sys_streams := (sys_streams y)[j := st]\<rparr>" by auto
  with serve_started [OF this(1) assms(2-6)] assms(1) show ?thesis by simp
qed

text \<open>The goroutine can go on, unless it waits for room.\<close>

lemma serve_progress:
  assumes "inv_at dm xs st" and "\<forall>e. rs_handler st \<noteq> HReturned e"
    and "\<And>m. rs_broken st \<noteq> None \<or> room (rs_flight st) m"
  shows "\<exists>st'. serve_step env room s st st'"
proof (cases "rs_handler st")
  case (HLoop i)
  then have "iok i" using assms(1) by (simp add: stream_inv_def)
  then show ?thesis
    using HLoop next_message_end [of i] next_message_pair [of i] finished [OF HLoop _ prod.collapse [symmetric]]
      message [OF HLoop]
    by (cases "rest i") blast+
next
  case (HSend m i)
  then obtain x ys where "iok i" "rest i = x # ys" using assms(1) by (auto simp: stream_inv_def)
  then obtain i' where "I_Next (D_itr (ge_db env)) i = Ret i'" using it_next [of i x ys] by blast
  then show ?thesis
    using sent [OF HSend, of room env i' s] send_failed [OF HSend _ prod.collapse [symmetric], of _ env room s] assms(3)
    by (cases "rs_broken st") auto
qed (use assms(1,2) in \<open>auto simp: stream_inv_def\<close>)

text \<open>A stream that is open and not at its end can go on: its goroutine, or its client.\<close>

lemma stream_progress:
  assumes "j < length (sys_streams y)" and "inv_at dm xs (sys_streams y ! j)" and "\<And>m. room [] m"
    and "rs_open (sys_streams y ! j)" and "rs_broken (sys_streams y ! j) = None"
    and "rs_flight (sys_streams y ! j) \<noteq> [] \<or> (\<forall>e. rs_handler (sys_streams y ! j) \<noteq> HReturned e)"
  shows "\<exists>ev y'. ev \<in> {EServe j, ERecv j} \<and> remote_step env room ev y y'"
proof (cases "rs_flight (sys_streams y ! j)")
  case (Cons m ms)
  then show ?thesis using remote_step.recv [OF assms(1) refl assms(4,5) Cons] by blast
next
  case Nil
  with assms(3,6) have "\<exists>st'. serve_step env room (sys_srv y) (sys_streams y ! j) st'"
    by (intro serve_progress [OF assms(2)]) auto
  then show ?thesis using remote_step.serve [OF assms(1)] by blast
qed

text \<open>Its events alone bring it to its end, with every pair received.\<close>

lemma stream_completes:
  assumes "j < length (sys_streams y)" and "inv_at dm xs (sys_streams y ! j)" and "\<And>m. room [] m"
    and "rs_open (sys_streams y ! j)" and "rs_broken (sys_streams y ! j) = None"
  shows "\<exists>evs y'. remote_run env room evs y y' \<and> set evs \<subseteq> {EServe j, ERecv j} \<and>
    rs_handler (sys_streams y' ! j) = HReturned None \<and> rs_flight (sys_streams y' ! j) = [] \<and>
    rs_taken (sys_streams y' ! j) = map (pair_message dm) xs"
  using assms(1,2,4,5)
proof (induction "stream_weight rest (sys_streams y ! j)" arbitrary: y rule: less_induct)
  case less
  let ?st = "sys_streams y ! j"
  show ?case
  proof (cases "rs_flight ?st \<noteq> [] \<or> (\<forall>e. rs_handler ?st \<noteq> HReturned e)")
    case True
    then obtain ev y1 where ev: "ev \<in> {EServe j, ERecv j}" and st: "remote_step env room ev y y1"
      using stream_progress [of j y dm xs room] less.prems assms(3) by blast
    from ev have "length (events_of j [ev]) = 1" "ev \<noteq> EClose j" "unbroken j [ev]" by (auto simp: events_of_def unbroken_def)
    with step_inv [OF st less.prems(1,2)] less.prems(3,4) less.hyps [of y1]
    obtain evs y' where "remote_run env room evs y1 y'" "set evs \<subseteq> {EServe j, ERecv j}"
      "rs_handler (sys_streams y' ! j) = HReturned None" "rs_flight (sys_streams y' ! j) = []"
      "rs_taken (sys_streams y' ! j) = map (pair_message dm) xs"
      by fastforce
    with run_Cons [OF st] ev show ?thesis by (metis insert_subset list.simps(15))
  next
    case False
    with less.prems(2,4) have "rs_handler ?st = HReturned None \<and> rs_flight ?st = [] \<and> rs_taken ?st = map (pair_message dm) xs"
      by (auto simp: stream_inv_def split: option.splits)
    then show ?thesis by (metis empty_subsetI list.set(1) run_nil)
  qed
qed

text \<open>
  A stream whose iterator is closed: nothing is received, and with room for \<open>k\<close> messages only the
  goroutine gets no further than the message after them.
\<close>

lemma blocked_step:
  assumes "serve_step env room s st st'" and "inv_at dm xs st" and "length (rs_flight st) \<le> k"
    and "ms = drop (length (rs_taken st)) (map (pair_message dm) xs)" and "\<not> room (take k ms) (ms ! k)"
  shows "length (rs_flight st') \<le> k"
  using assms
proof (induction rule: serve_step.induct)
  case (sent st m i i')
  then obtain x ys where r: "rest i = x # ys" "m = pair_msg dm x" by (auto simp: stream_inv_def)
  have "map (pair_message dm) xs = rs_taken st @ rs_flight st @ pair_message dm x # map (pair_message dm) ys"
    using sent r by (simp add: stream_inv_def)
  then have "ms = rs_flight st @ pair_message dm x # map (pair_message dm) ys" using sent by simp
  then have "length (rs_flight st) \<noteq> k" using sent r by (auto simp: wire_pair)
  with sent show ?case by simp
qed simp_all

lemma blocked_run:
  assumes "remote_run env room evs y y'" and "j < length (sys_streams y)" and "inv_at dm xs (sys_streams y ! j)"
    and "\<not> rs_open (sys_streams y ! j)" and "length (rs_flight (sys_streams y ! j)) \<le> k"
    and "ms = drop (length (rs_taken (sys_streams y ! j))) (map (pair_message dm) xs)" and "\<not> room (take k ms) (ms ! k)"
  shows "\<not> rs_open (sys_streams y' ! j) \<and> length (rs_flight (sys_streams y' ! j)) \<le> k \<and>
    rs_taken (sys_streams y' ! j) = rs_taken (sys_streams y ! j)"
  using assms
proof (induction rule: remote_run.induct)
  case (run_snoc evs y y' ev y'')
  note IH = run_snoc.IH [OF run_snoc.prems]
  have run: "j < length (sys_streams y')" "inv_at dm xs (sys_streams y' ! j)"
    using run_inv [OF run_snoc.hyps(1) run_snoc.prems(1,2)] by auto
  show ?case
  proof (cases "event_stream ev = Some j")
    case True
    then consider "ev = EServe j" | "ev = ERecv j" | "ev = EClose j" | err where "ev = EBreak j err"
      by (cases ev) auto
    then show ?thesis
    proof cases
      case 1
      with run_snoc.hyps(2) obtain st where st: "serve_step env room (sys_srv y') (sys_streams y' ! j) st"
        "y'' = y'\<lparr>sys_streams := (sys_streams y')[j := st]\<rparr>" by auto
      with blocked_step [OF st(1) run(2)] serve_step_inv [OF st(1) run(2)] IH run_snoc.prems(5,6) run(1)
      show ?thesis by simp
    qed (use run_snoc.hyps(2) IH run(1) in auto)
  qed (use step_other [OF run_snoc.hyps(2) run(1)] IH in auto)
qed simp

text \<open>A stream that is broken while messages are left ends with the error.\<close>

lemma broken_returns:
  assumes "j < length (sys_streams y)" and "inv_at dm xs (sys_streams y ! j)" and "rs_broken (sys_streams y ! j) = Some err"
    and "rs_taken (sys_streams y ! j) @ rs_flight (sys_streams y ! j) \<noteq> map (pair_message dm) xs"
  shows "\<exists>evs y'. remote_run env room evs y y' \<and> set evs \<subseteq> {EServe j} \<and>
    rs_handler (sys_streams y' ! j) = HReturned (Some err)"
  using assms
proof (induction "stream_weight rest (sys_streams y ! j)" arbitrary: y rule: less_induct)
  case less
  let ?st = "sys_streams y ! j"
  show ?case
  proof (cases "rs_handler ?st = HReturned (Some err)")
    case False
    with less.prems(2-4) have "\<forall>e. rs_handler ?st \<noteq> HReturned e"
      by (auto simp: stream_inv_def split: option.splits)
    with serve_progress [OF less.prems(2), of room] less.prems(3)
    obtain st where st: "serve_step env room (sys_srv y) ?st st" by blast
    let ?y = "y\<lparr>sys_streams := (sys_streams y)[j := st]\<rparr>"
    have "rs_flight st = rs_flight ?st" using st less.prems(3) by (induction rule: serve_step.induct) auto
    with serve_step_inv [OF st less.prems(2)] less.hyps [of ?y] less.prems
    obtain evs y' where "remote_run env room evs ?y y'" "set evs \<subseteq> {EServe j}"
      "rs_handler (sys_streams y' ! j) = HReturned (Some err)" by auto
    with run_Cons [OF remote_step.serve [OF less.prems(1) st]] show ?thesis by fastforce
  qed (metis empty_subsetI list.set(1) run_nil)
qed

end

section \<open>GetStream with its client\<close>

text \<open>
  The stubs of both sides. \<open>Send\<close> puts a message on its way; \<open>Recv\<close> takes the next one, gives the error
  with which the other side ended, or waits (\<open>None\<close>).
\<close>

definition dBGetStreamClient_Send :: "transport \<Rightarrow> message list \<Rightarrow> Entity \<Rightarrow> message list" where
  "dBGetStreamClient_Send net up m = up @ [nt_wire net (MEntity m)]"

definition dBGetStreamServer_Recv :: "transport \<Rightarrow> message list \<Rightarrow> bool \<Rightarrow> (message list \<times> (Entity + error)) option" where
  "dBGetStreamServer_Recv net up closed =
     (case up of
        m # ms \<Rightarrow> Some (ms, as_Entity net (Inl m))
      | [] \<Rightarrow> if closed then Some ([], Inr io_EOF) else None)"

definition dBGetStreamServer_Send :: "transport \<Rightarrow> message list \<Rightarrow> Entity \<Rightarrow> message list" where
  "dBGetStreamServer_Send net down m = down @ [nt_wire net (MEntity m)]"

definition dBGetStreamClient_Recv :: "transport \<Rightarrow> message list \<Rightarrow> gs_sender \<Rightarrow> (message list \<times> (Entity + error)) option" where
  "dBGetStreamClient_Recv net down server =
     (case down of
        m # ms \<Rightarrow> Some (ms, as_Entity net (Inl m))
      | [] \<Rightarrow> (case server of
          SReturned None \<Rightarrow> Some ([], Inr io_EOF)
        | SReturned (Some err) \<Rightarrow> Some ([], Inr (nt_status net err))
        | _ \<Rightarrow> None))"

text \<open>
  A session: the requests that the client has still to send before it closes its side, the requests
  on their way, the two goroutines of the server, the responses on their way, the responses that
  the client has received, and the error that ended them.
\<close>

datatype gx_receiver = XRecv | XPush Entity bool | XDone

record gs_session =
  gx_todo :: "Entity list"
  gx_up :: "message list"
  gx_closed :: bool
  gx_recv :: gx_receiver
  gx_send :: gs_sender
  gx_down :: "message list"
  gx_got :: "Entity list"
  gx_end :: "error option"

text \<open>The handler calls \<open>GetStream\<close> of the server as soon as the stream is open.\<close>

fun gx_receiving :: "gs_receiver \<Rightarrow> gx_receiver" where
  "gx_receiving (RRecv ins) = XRecv"
| "gx_receiving (RPush out ins last') = XPush out last'"
| "gx_receiving RDone = XDone"

definition DB_GetStream_Handler :: "'x DBServer \<Rightarrow> Entity list \<Rightarrow> gs_session" where
  "DB_GetStream_Handler srv ins =
     \<lparr>gx_todo = ins, gx_up = [], gx_closed = False, gx_recv = gx_receiving (gs_recv (ds_GetStream srv)),
      gx_send = gs_send (ds_GetStream srv), gx_down = [], gx_got = [], gx_end = None\<rparr>"

definition dBClient_GetStream :: "('s, 'i, 'b) grpc_env \<Rightarrow> Entity list \<Rightarrow> gs_session + error" where
  "dBClient_GetStream env ins =
     (case nt_newStream (ge_net env) of
        Some err \<Rightarrow> Inr err
      | None \<Rightarrow> Inl (DB_GetStream_Handler (server_DBServer env) ins))"

lemma DB_GetStream_Handler_server:
  "DB_GetStream_Handler (server_DBServer env) ins =
     \<lparr>gx_todo = ins, gx_up = [], gx_closed = False, gx_recv = XRecv, gx_send = SRange, gx_down = [], gx_got = [], gx_end = None\<rparr>"
  by (simp add: DB_GetStream_Handler_def server_DBServer_def gs_start_def)

inductive gx_step ::
  "('s, 'i, 'b) grpc_env \<Rightarrow> (message list \<Rightarrow> bool) \<Rightarrow> 's server \<Rightarrow> gs_session \<Rightarrow> gs_session \<Rightarrow> bool"
  for env :: "('s, 'i, 'b) grpc_env" and room :: "message list \<Rightarrow> bool" and s :: "'s server" where
  client_send: "gx_todo x = e # es \<Longrightarrow> room (gx_up x) \<Longrightarrow>
    gx_step env room s x (x\<lparr>gx_todo := es, gx_up := dBGetStreamClient_Send (ge_net env) (gx_up x) e\<rparr>)"
| client_close: "gx_todo x = [] \<Longrightarrow> \<not> gx_closed x \<Longrightarrow> gx_step env room s x (x\<lparr>gx_closed := True\<rparr>)"
| server_recv: "gx_recv x = XRecv \<Longrightarrow>
    dBGetStreamServer_Recv (ge_net env) (gx_up x) (gx_closed x) = Some (up, Inl in') \<Longrightarrow>
    gs_response (ge_db env) s in' = Ret (out, last') \<Longrightarrow>
    gx_step env room s x (x\<lparr>gx_up := up, gx_recv := XPush out last'\<rparr>)"
| server_recv_error: "gx_recv x = XRecv \<Longrightarrow>
    dBGetStreamServer_Recv (ge_net env) (gx_up x) (gx_closed x) = Some (up, Inr err) \<Longrightarrow>
    gx_step env room s x (x\<lparr>gx_up := up, gx_recv := XPush (new_Entity\<lparr>en_Err := error_text err\<rparr>) True\<rparr>)"
| server_pass: "gx_recv x = XPush out last' \<Longrightarrow> gx_send x = SRange \<Longrightarrow>
    gx_step env room s x (x\<lparr>gx_recv := (if last' then XDone else XRecv), gx_send := SSend out\<rparr>)"
| server_send: "gx_send x = SSend out \<Longrightarrow> room (gx_down x) \<Longrightarrow>
    gx_step env room s x (x\<lparr>gx_send := SRange, gx_down := dBGetStreamServer_Send (ge_net env) (gx_down x) out\<rparr>)"
| server_return: "gx_recv x = XDone \<Longrightarrow> gx_send x = SRange \<Longrightarrow> gx_step env room s x (x\<lparr>gx_send := SReturned None\<rparr>)"
| client_recv: "gx_end x = None \<Longrightarrow> dBGetStreamClient_Recv (ge_net env) (gx_down x) (gx_send x) = Some (down, Inl out) \<Longrightarrow>
    gx_step env room s x (x\<lparr>gx_down := down, gx_got := gx_got x @ [out]\<rparr>)"
| client_end: "gx_end x = None \<Longrightarrow> dBGetStreamClient_Recv (ge_net env) (gx_down x) (gx_send x) = Some (down, Inr err) \<Longrightarrow>
    gx_step env room s x (x\<lparr>gx_down := down, gx_end := Some err\<rparr>)"

text \<open>
  The session against the two goroutines alone: what is on its way to the server and still to be
  sent are the requests to come, and what the client has received or is to receive was sent.
\<close>

fun gx_pending :: "gx_receiver \<Rightarrow> Entity list \<Rightarrow> gs_receiver" where
  "gx_pending XRecv ins = RRecv ins"
| "gx_pending (XPush out last') ins = RPush out ins last'"
| "gx_pending XDone ins = RDone"

fun gx_outs :: "gx_receiver \<Rightarrow> gs_sender \<Rightarrow> Entity list" where
  "gx_outs (XPush out last') (SSend out') = [out, out']"
| "gx_outs (XPush out last') _ = [out]"
| "gx_outs _ (SSend out') = [out']"
| "gx_outs _ _ = []"

definition gx_view :: "gs_session \<Rightarrow> Entity list \<Rightarrow> Entity list \<Rightarrow> Entity list \<Rightarrow> bool" where
  "gx_view x ups downs sent \<longleftrightarrow>
     gx_up x = map MEntity ups \<and> gx_down x = map MEntity downs \<and> map norm_Entity sent = gx_got x @ downs \<and>
     (gx_closed x \<longrightarrow> gx_todo x = []) \<and>
     list_all Entity_encodable (gx_todo x) \<and> list_all Entity_encodable (gx_outs (gx_recv x) (gx_send x))"

definition gx_server :: "gs_session \<Rightarrow> Entity list \<Rightarrow> Entity list \<Rightarrow> gs_state" where
  "gx_server x ups sent =
     \<lparr>gs_recv = gx_pending (gx_recv x) (ups @ map norm_Entity (gx_todo x)), gs_send = gx_send x, gs_sent = sent\<rparr>"

fun gx_recv_weight :: "gx_receiver \<Rightarrow> nat" where
  "gx_recv_weight XRecv = 4"
| "gx_recv_weight (XPush out last') = (if last' then 3 else 7)"
| "gx_recv_weight XDone = 0"

fun gx_send_weight :: "gs_sender \<Rightarrow> nat" where
  "gx_send_weight (SSend out) = 3"
| "gx_send_weight SRange = 1"
| "gx_send_weight (SReturned e) = 0"

definition gx_weight :: "gs_session \<Rightarrow> nat" where
  "gx_weight x =
     5 * length (gx_todo x) + 4 * length (gx_up x) + (if gx_closed x then 0 else 1) + gx_recv_weight (gx_recv x) +
     gx_send_weight (gx_send x) + length (gx_down x) + (if gx_end x = None then 1 else 0)"

lemma gx_step_weight: "gx_step env room s x x' \<Longrightarrow> gx_weight x' < gx_weight x"
proof (induction rule: gx_step.induct)
  case (client_end x down err)
  then show ?case
    by (cases "gx_down x") (auto simp: gx_weight_def dBGetStreamClient_Recv_def split: gs_sender.splits option.splits)
qed (auto simp: gx_weight_def dBGetStreamClient_Send_def dBGetStreamServer_Recv_def dBGetStreamServer_Send_def
      dBGetStreamClient_Recv_def split: list.splits if_splits gs_sender.splits option.splits)

text \<open>The answers to the keys that a client asks for, as the client sees them.\<close>

fun key_answers :: "kv list \<Rightarrow> slice list \<Rightarrow> Entity list" where
  "key_answers m [] = [new_Entity\<lparr>en_Err := ''EOF''\<rparr>]"
| "key_answers m (k # ks) =
     (if len k = 0 then [new_Entity\<lparr>en_Err := error_text errKeyEmpty\<rparr>]
      else new_Entity\<lparr>en_Value := norm_bytes (map_of m (sl k))\<rparr> # key_answers m ks)"

context remote_store
begin

lemma gs_response_key:
  assumes "srv_db s = Some d" and "ok d"
  shows "gs_response (ge_db env) s in' =
    (if len (en_Key in') = 0 then Ret (new_Entity\<lparr>en_Key := en_Key in', en_Err := error_text errKeyEmpty\<rparr>, True)
     else Ret (new_Entity\<lparr>en_Value := map_of (ents d) (sl (en_Key in'))\<rparr>, False))"
  using assms get [OF assms(2), of "en_Key in'"]
  by (simp add: gs_response_def server_Get_def with_db_def reply_def)

lemma gs_answers_keys:
  assumes "srv_db s = Some d" and "ok d"
  shows "map norm_Entity (gs_answers (ge_db env) s io_EOF (map norm_Entity (map (\<lambda>k. new_Entity\<lparr>en_Key := k\<rparr>) ks))) =
    key_answers (ents d) ks"
proof (induction ks)
  case Nil
  show ?case by (simp add: io_EOF_def norm_Entity_def new_Entity_def)
next
  case (Cons k ks)
  then show ?case by (simp add: gs_response_key [OF assms] norm_Entity_def new_Entity_def norm_bytes_def)
qed

end

lemma gx_outs_simps [simp]:
  "list_all P (gx_outs r s) \<longleftrightarrow> (\<forall>out l. r = XPush out l \<longrightarrow> P out) \<and> (\<forall>out. s = SSend out \<longrightarrow> P out)"
  by (cases "(r, s)" rule: gx_outs.cases) auto

text \<open>A request or a response that arrives is the one that was sent.\<close>

lemma Recv_requests:
  "dBGetStreamServer_Recv net (map MEntity ups) closed =
     (case ups of e # es \<Rightarrow> Some (map MEntity es, Inl e) | [] \<Rightarrow> if closed then Some ([], Inr io_EOF) else None)"
  by (simp add: dBGetStreamServer_Recv_def split: list.split)

lemma Recv_responses:
  "dBGetStreamClient_Recv net (map MEntity downs) server =
     (case downs of
        e # es \<Rightarrow> Some (map MEntity es, Inl e)
      | [] \<Rightarrow> (case server of
          SReturned None \<Rightarrow> Some ([], Inr io_EOF)
        | SReturned (Some err) \<Rightarrow> Some ([], Inr (nt_status net err))
        | _ \<Rightarrow> None))"
  by (simp add: dBGetStreamClient_Recv_def split: list.split)

context remote_store
begin

lemma gs_response_encodable:
  assumes "srv_db s = Some d" and "ok d" and "gs_response (ge_db env) s in' = Ret (out, last')"
  shows "Entity_encodable out"
  using assms(3) by (auto simp: gs_response_key [OF assms(1,2)] ascii_text_def split: if_splits)

lemma gx_client_sim:
  assumes "gx_view x ups downs sent"
    and "gx_todo x = e # es \<and> x' = x\<lparr>gx_todo := es, gx_up := dBGetStreamClient_Send (ge_net env) (gx_up x) e\<rparr> \<or>
      gx_todo x = [] \<and> x' = x\<lparr>gx_closed := True\<rparr> \<or>
      dBGetStreamClient_Recv (ge_net env) (gx_down x) (gx_send x) = Some (down, Inl out) \<and>
        x' = x\<lparr>gx_down := down, gx_got := gx_got x @ [out]\<rparr> \<or>
      dBGetStreamClient_Recv (ge_net env) (gx_down x) (gx_send x) = Some (down, Inr err) \<and>
        x' = x\<lparr>gx_down := down, gx_end := Some err\<rparr>"
  shows "\<exists>ups' downs'. gx_view x' ups' downs' sent \<and> gx_server x' ups' sent = gx_server x ups sent"
  using assms(2)
proof (elim disjE conjE)
  assume "gx_todo x = e # es" "x' = x\<lparr>gx_todo := es, gx_up := dBGetStreamClient_Send (ge_net env) (gx_up x) e\<rparr>"
  then show ?thesis
    using assms(1) by (intro exI [of _ "ups @ [norm_Entity e]"] exI [of _ downs])
      (auto simp: gx_view_def gx_server_def dBGetStreamClient_Send_def wire)
next
  assume "gx_todo x = []" "x' = x\<lparr>gx_closed := True\<rparr>"
  then show ?thesis
    using assms(1) by (intro exI [of _ ups] exI [of _ downs]) (auto simp: gx_view_def gx_server_def)
next
  assume "dBGetStreamClient_Recv (ge_net env) (gx_down x) (gx_send x) = Some (down, Inl out)"
    "x' = x\<lparr>gx_down := down, gx_got := gx_got x @ [out]\<rparr>"
  then show ?thesis
    using assms(1) by (intro exI [of _ ups] exI [of _ "tl downs"])
      (auto simp: gx_view_def gx_server_def Recv_responses split: list.splits gs_sender.splits option.splits)
next
  assume "dBGetStreamClient_Recv (ge_net env) (gx_down x) (gx_send x) = Some (down, Inr err)"
    "x' = x\<lparr>gx_down := down, gx_end := Some err\<rparr>"
  then show ?thesis
    using assms(1) by (intro exI [of _ ups] exI [of _ "[]"])
      (auto simp: gx_view_def gx_server_def Recv_responses split: list.splits gs_sender.splits option.splits)
qed

lemma gx_recv_sim:
  assumes view: "gx_view x ups downs sent" and "srv_db s = Some d" and "ok d" and r: "gx_recv x = XRecv"
    and recv: "dBGetStreamServer_Recv (ge_net env) (gx_up x) (gx_closed x) = Some (up, r)"
    and out: "(case r of Inl in' \<Rightarrow> gs_response (ge_db env) s in' = Ret (out, last')
      | Inr err \<Rightarrow> out = new_Entity\<lparr>en_Err := error_text err\<rparr> \<and> last')"
    and x': "x' = x\<lparr>gx_up := up, gx_recv := XPush out last'\<rparr>"
  shows "\<exists>ups'. gx_view x' ups' downs sent \<and>
    gs_step (ge_db env) s io_EOF (\<lambda>sent out. None) (gx_server x ups sent) (gx_server x' ups' sent)"
proof -
  have next_request: "(case ups of e # es \<Rightarrow> Some (map MEntity es, Inl e)
      | [] \<Rightarrow> if gx_closed x then Some ([], Inr io_EOF) else None) = Some (up, r)"
    using recv view by (simp add: gx_view_def Recv_requests)
  show ?thesis
  proof (cases ups)
    case Nil
    then have "r = Inr io_EOF" "gx_closed x" "up = []"
      using next_request by (auto split: if_splits)
    then show ?thesis
      using view r out Nil gs_step.recv_error [of "ge_db env" s io_EOF "\<lambda>sent out. None" "gx_send x" sent]
      by (intro exI [of _ "[]"]) (auto simp: x' gx_view_def gx_server_def io_EOF_def ascii_text_def)
  next
    case (Cons e es)
    then have e: "r = Inl e" "up = map MEntity es"
      using next_request by auto
    then have "gs_response (ge_db env) s e = Ret (out, last')" using out by simp
    with gs_response_encodable [OF assms(2,3) this] show ?thesis
      using view r e Cons by (intro exI [of _ es]) (auto simp: x' gx_view_def gx_server_def intro: gs_step.recv)
  qed
qed

lemma gx_server_sim:
  assumes "gx_view x ups downs sent"
    and "gx_recv x = XPush out last' \<and> gx_send x = SRange \<and>
        x' = x\<lparr>gx_recv := (if last' then XDone else XRecv), gx_send := SSend out\<rparr> \<or>
      gx_send x = SSend out \<and> x' = x\<lparr>gx_send := SRange, gx_down := dBGetStreamServer_Send (ge_net env) (gx_down x) out\<rparr> \<or>
      gx_recv x = XDone \<and> gx_send x = SRange \<and> x' = x\<lparr>gx_send := SReturned None\<rparr>"
  shows "\<exists>downs' sent'. gx_view x' ups downs' sent' \<and>
    gs_step (ge_db env) s io_EOF (\<lambda>sent out. None) (gx_server x ups sent) (gx_server x' ups sent')"
  using assms(2)
proof (elim disjE conjE)
  assume "gx_recv x = XPush out last'" "gx_send x = SRange"
    "x' = x\<lparr>gx_recv := (if last' then XDone else XRecv), gx_send := SSend out\<rparr>"
  then show ?thesis
    using assms(1) gs_step.pass [of "ge_db env" s io_EOF "\<lambda>sent out. None" out "ups @ map norm_Entity (gx_todo x)" last' sent]
    by (intro exI [of _ downs] exI [of _ sent]) (auto simp: gx_view_def gx_server_def)
next
  assume "gx_send x = SSend out"
    "x' = x\<lparr>gx_send := SRange, gx_down := dBGetStreamServer_Send (ge_net env) (gx_down x) out\<rparr>"
  then show ?thesis
    using assms(1) by (intro exI [of _ "downs @ [norm_Entity out]"] exI [of _ "sent @ [out]"])
      (auto simp: gx_view_def gx_server_def dBGetStreamServer_Send_def wire intro: gs_step.send_ok)
next
  assume "gx_recv x = XDone" "gx_send x = SRange" "x' = x\<lparr>gx_send := SReturned None\<rparr>"
  then show ?thesis
    using assms(1) by (intro exI [of _ downs] exI [of _ sent]) (auto simp: gx_view_def gx_server_def intro: gs_step.closed)
qed

text \<open>So a session runs as the two goroutines of the server do, with the requests that arrive.\<close>

lemma gx_step_sim:
  assumes "gx_step env room s x x'" and "gx_view x ups downs sent" and "srv_db s = Some d" and "ok d"
  shows "\<exists>ups' downs' sent'. gx_view x' ups' downs' sent' \<and>
    (gx_server x' ups' sent' = gx_server x ups sent \<or>
     gs_step (ge_db env) s io_EOF (\<lambda>sent out. None) (gx_server x ups sent) (gx_server x' ups' sent'))"
  using assms(1)
proof cases
  case (server_recv up in' out last')
  with gx_recv_sim [OF assms(2-4), of up "Inl in'" out last' x'] show ?thesis by auto
next
  case (server_recv_error up err)
  with gx_recv_sim [OF assms(2-4), of up "Inr err" _ True x'] show ?thesis by auto
next
  case (server_pass out last')
  with gx_server_sim [OF assms(2), of out last' x' s] show ?thesis by blast
next
  case (server_send out)
  with gx_server_sim [OF assms(2), of out False x' s] show ?thesis by blast
next
  case server_return
  with gx_server_sim [OF assms(2), of _ _ x' s] show ?thesis by blast
next
  case (client_send e es)
  with gx_client_sim [OF assms(2), of e es x'] show ?thesis by blast
next
  case client_close
  with gx_client_sim [OF assms(2), of _ _ x'] show ?thesis by blast
next
  case (client_recv down out)
  with gx_client_sim [OF assms(2), of _ _ x' down out] show ?thesis by blast
next
  case (client_end down err)
  with gx_client_sim [OF assms(2), of _ _ x' down _ err] show ?thesis by blast
qed

end

lemma gx_receiver_progress:
  assumes "srv_db s = Some d" and "room []" and "gx_send x = SRange"
  shows "\<exists>x'. gx_step env room s x x'"
proof (cases "gx_recv x")
  case XRecv
  show ?thesis
  proof (cases "gx_up x")
    case (Cons m ms)
    then have recv: "dBGetStreamServer_Recv (ge_net env) (gx_up x) (gx_closed x) = Some (ms, as_Entity (ge_net env) (Inl m))"
      by (simp add: dBGetStreamServer_Recv_def)
    show ?thesis
    proof (cases "as_Entity (ge_net env) (Inl m)")
      case (Inl in')
      obtain out last' where "gs_response (ge_db env) s in' = Ret (out, last')"
        using gs_response_Ret [OF assms(1)] by blast
      with gx_step.server_recv [OF XRecv recv [unfolded Inl]] show ?thesis by blast
    next
      case (Inr err)
      show ?thesis using gx_step.server_recv_error [OF XRecv recv [unfolded Inr]] by blast
    qed
  next
    case Nil
    show ?thesis
    proof (cases "gx_closed x")
      case True
      then have "dBGetStreamServer_Recv (ge_net env) (gx_up x) (gx_closed x) = Some ([], Inr io_EOF)"
        by (simp add: dBGetStreamServer_Recv_def Nil)
      then show ?thesis using gx_step.server_recv_error [OF XRecv] by blast
    next
      case False
      show ?thesis
      proof (cases "gx_todo x")
        case (Cons e es)
        have "room (gx_up x)" using assms(2) Nil by simp
        then show ?thesis using gx_step.client_send [of x e es room env s] Cons by blast
      qed (use gx_step.client_close False in blast)
    qed
  qed
qed (use assms(3) in \<open>auto intro: gx_step.server_pass gx_step.server_return\<close>)

text \<open>How a session ends: the client reads to the end, which comes after the server has returned.\<close>

definition gx_ends :: "gs_session \<Rightarrow> bool" where
  "gx_ends x \<longleftrightarrow> (\<forall>e. gx_send x \<noteq> SReturned (Some e)) \<and>
     (\<forall>e. gx_end x = Some e \<longrightarrow> e = io_EOF \<and> gx_down x = [] \<and> gx_send x = SReturned None)"

lemma gx_step_ends:
  assumes "gx_step env room s x x'" and "gx_ends x" and "gx_down x = map MEntity downs"
  shows "gx_ends x'"
  using assms
  by (induction rule: gx_step.induct)
    (auto simp: gx_ends_def Recv_responses split: list.splits gs_sender.splits option.splits)

lemma gx_progress:
  assumes "srv_db s = Some d" and "room []" and "gx_end x = None"
  shows "\<exists>x'. gx_step env room s x x'"
proof (cases "gx_down x")
  case (Cons m ms)
  then have "dBGetStreamClient_Recv (ge_net env) (gx_down x) (gx_send x) = Some (ms, as_Entity (ge_net env) (Inl m))"
    by (simp add: dBGetStreamClient_Recv_def)
  with assms(3) show ?thesis
    by (cases "as_Entity (ge_net env) (Inl m)") (auto intro: gx_step.client_recv gx_step.client_end)
next
  case Nil
  show ?thesis
  proof (cases "gx_send x")
    case (SReturned e)
    then obtain err where "dBGetStreamClient_Recv (ge_net env) (gx_down x) (gx_send x) = Some ([], Inr err)"
      using Nil by (cases e) (auto simp: dBGetStreamClient_Recv_def)
    with assms(3) show ?thesis by (auto intro: gx_step.client_end)
  next
    case SRange
    then show ?thesis using gx_receiver_progress [of s d room x env] assms by blast
  next
    case (SSend out)
    then show ?thesis using gx_step.server_send [of x out room env s] Nil assms(2) by auto
  qed
qed

context remote_store
begin

lemma gx_start_view:
  "list_all Entity_encodable ins \<Longrightarrow>
     gx_view (DB_GetStream_Handler (server_DBServer env) ins) [] [] [] \<and> gx_server (DB_GetStream_Handler (server_DBServer env) ins) [] [] = gs_start (map norm_Entity ins)"
  by (simp add: gx_view_def gx_server_def DB_GetStream_Handler_server gs_start_def)

lemma gx_run_sim:
  assumes "(gx_step env room s ^^ n) (DB_GetStream_Handler (server_DBServer env) ins) x" and "list_all Entity_encodable ins"
    and "srv_db s = Some d" and "ok d"
  shows "gx_weight x + n \<le> 5 * length ins + 7 \<and> gx_ends x \<and>
    (\<exists>ups downs sent. gx_view x ups downs sent \<and>
       (gs_step (ge_db env) s io_EOF (\<lambda>sent out. None))\<^sup>*\<^sup>* (gs_start (map norm_Entity ins)) (gx_server x ups sent))"
  using assms(1)
proof (induction n arbitrary: x)
  case 0
  then have x: "x = DB_GetStream_Handler (server_DBServer env) ins" by simp
  have "gx_weight x + 0 \<le> 5 * length ins + 7 \<and> gx_ends x"
    by (simp add: x DB_GetStream_Handler_server gx_weight_def gx_ends_def)
  with gx_start_view [OF assms(2)] x show ?case by (metis rtranclp.rtrancl_refl)
next
  case (Suc n)
  then obtain x1 where x1: "(gx_step env room s ^^ n) (DB_GetStream_Handler (server_DBServer env) ins) x1" and st: "gx_step env room s x1 x" by auto
  obtain ups downs sent where v: "gx_view x1 ups downs sent"
    and run: "(gs_step (ge_db env) s io_EOF (\<lambda>sent out. None))\<^sup>*\<^sup>* (gs_start (map norm_Entity ins)) (gx_server x1 ups sent)"
    using Suc.IH [OF x1] by blast
  have "gx_weight x + Suc n \<le> 5 * length ins + 7" using Suc.IH [OF x1] gx_step_weight [OF st] by simp
  moreover have "gx_ends x" using gx_step_ends [OF st] Suc.IH [OF x1] v by (simp add: gx_view_def)
  moreover obtain ups' downs' sent' where "gx_view x ups' downs' sent'"
    and "gx_server x ups' sent' = gx_server x1 ups sent \<or>
      gs_step (ge_db env) s io_EOF (\<lambda>sent out. None) (gx_server x1 ups sent) (gx_server x ups' sent')"
    using gx_step_sim [OF st v assms(3,4)] by blast
  with run have "(gs_step (ge_db env) s io_EOF (\<lambda>sent out. None))\<^sup>*\<^sup>* (gs_start (map norm_Entity ins)) (gx_server x ups' sent')"
    by (metis rtranclp.rtrancl_into_rtrancl)
  ultimately show ?case using \<open>gx_view x ups' downs' sent'\<close> by blast
qed

text \<open>What the client has received, is to receive and is to be answered are the answers.\<close>

lemma gx_run_answers:
  assumes "(gx_step env room s ^^ n) (DB_GetStream_Handler (server_DBServer env) ins) x" and "list_all Entity_encodable ins"
    and "srv_db s = Some d" and "ok d"
  shows "prefix (gx_got x) (map norm_Entity (gs_answers (ge_db env) s io_EOF (map norm_Entity ins))) \<and>
    (gx_end x \<noteq> None \<longrightarrow> gx_end x = Some io_EOF \<and>
       gx_got x = map norm_Entity (gs_answers (ge_db env) s io_EOF (map norm_Entity ins)))"
proof -
  let ?A = "gs_answers (ge_db env) s io_EOF (map norm_Entity ins)"
  obtain ups downs sent where v: "gx_view x ups downs sent" and e: "gx_ends x"
    and run: "(gs_step (ge_db env) s io_EOF (\<lambda>sent out. None))\<^sup>*\<^sup>* (gs_start (map norm_Entity ins)) (gx_server x ups sent)"
    using gx_run_sim [OF assms] by blast
  have inv: "gs_inv (ge_db env) s io_EOF (map norm_Entity ins) (gx_server x ups sent)"
    by (rule gs_inv_reachable [OF run])
  then obtain todo where todo: "sent @ todo = ?A" "gx_send x = SReturned None \<longrightarrow> todo = []"
    using e by (auto simp: gs_inv_def gx_server_def gx_ends_def split: gs_sender.splits option.splits)
  have got: "map norm_Entity sent = gx_got x @ downs" "gx_down x = map MEntity downs" using v by (simp_all add: gx_view_def)
  have "map norm_Entity ?A = gx_got x @ downs @ map norm_Entity todo"
    using got(1) by (simp flip: todo(1))
  moreover have "downs = [] \<and> todo = [] \<and> gx_end x = Some io_EOF" if "gx_end x \<noteq> None"
    using that e got todo(2) by (auto simp: gx_ends_def)
  ultimately show ?thesis by (auto simp: prefix_def)
qed

end

section \<open>Properties\<close>

text \<open>What a stream over the domain has to send: the pairs of the range as messages.\<close>

definition scan_messages :: "bool \<Rightarrow> slice \<Rightarrow> slice \<Rightarrow> kv list \<Rightarrow> message list" where
  "scan_messages reverse start end' m = map (pair_message (start, end')) (kv_scan reverse start end' m)"

text \<open>A server of an in-memory database that has just accepted one stream.\<close>

definition mem_stream_example :: "(item list MemDB, memDBIterator) remote_sys" where
  "mem_stream_example =
     \<lparr>sys_srv = \<lparr>srv_db = Some mem_example\<rparr>, sys_streams = [new_stream False (new_Entity\<lparr>en_Start := None, en_End := None\<rparr>)]\<rparr>"

lemma mem_stream_example_simps [simp]:
  "sys_srv mem_stream_example = \<lparr>srv_db = Some mem_example\<rparr>"
  "sys_streams mem_stream_example = [new_stream False (new_Entity\<lparr>en_Start := None, en_End := None\<rparr>)]"
  by (simp_all add: mem_stream_example_def)

lemma mem_example_scan:
  "kv_scan False None None (MemDB_ents list_btree mem_example) = [([1], [10]), ([1, 2], []), ([3], [30])]"
  by (simp add: mem_example_ents kv_scan_def kv_range_def IsKeyInDomain_iff)

lemma mem_stream_starts: "\<exists>y1. remote_step mem_env room (EServe 0) mem_stream_example y1"
proof -
  obtain i where "D_Iterator (ge_db mem_env) mem_example None None = Ret (Some i, None)"
    using mem_env.iterator [OF mem_example_ok, of None None] by (auto simp: domain_error_def)
  then show ?thesis
    using remote_step.serve [of 0 mem_stream_example, OF _ started [where reverse = False and d = mem_example and i = i]]
    by (fastforce simp: new_stream_def)
qed

text \<open>
  The stream as a whole, the one of \<open>RemoteDB\<close>, and the stream as it runs deliver the same: at every
  moment what has been received and what is on its way is a prefix of the messages of the whole
  stream, and all of them once the server's method has returned without an error.
\<close>

lemma stream_delivers:
  assumes "remote_store env iok rest ok ents bok bops fits" and "srv_db (sys_srv y) = Some d" and "ok d"
    and "\<not> blank start" and "\<not> blank end'" and "j < length (sys_streams y)"
    and "sys_streams y ! j = new_stream reverse (new_Entity\<lparr>en_Start := start, en_End := end'\<rparr>)"
    and "remote_step env room (EServe j) y y1" and "remote_run env room evs y1 y2"
  shows "(if reverse then RemoteDB_ReverseIterator env \<lparr>rd_dc = sys_srv y\<rparr> start end'
      else RemoteDB_Iterator env \<lparr>rd_dc = sys_srv y\<rparr> start end') =
      Ret (Some (remote_at (ge_net env) reverse
        \<lparr>st_pending = scan_messages reverse start end' (ents d), st_status = None\<rparr> None), None) \<and>
    (let st = sys_streams y2 ! j in
       prefix (rs_taken st @ rs_flight st) (scan_messages reverse start end' (ents d)) \<and>
       (rs_handler st = HReturned None \<longrightarrow> rs_taken st @ rs_flight st = scan_messages reverse start end' (ents d)))"
proof -
  note started = remote_store.started_inv [OF assms(1,6,7,2-5,8)]
  note inv = remote_store.run_inv [OF assms(1,9) started [THEN conjunct1] started [THEN conjunct2, THEN conjunct1],
      THEN conjunct2, THEN conjunct1]
  have "rs_handler (sys_streams y2 ! j) = HReturned None \<longrightarrow>
      rs_taken (sys_streams y2 ! j) @ rs_flight (sys_streams y2 ! j) = scan_messages reverse start end' (ents d)"
    using inv by (auto simp: stream_inv_def scan_messages_def)
  with stream_inv_prefix [OF inv] remote_store.open_scan [OF assms(1), of "\<lparr>rd_dc = sys_srv y\<rparr>" d start end' reverse]
  show ?thesis using assms(2-5) by (simp add: scan_messages_def pair_message_def [abs_def] Let_def)
qed

text \<open>
  C23. A stream ends: over \<open>n\<close> pairs it has at most \<open>3 n + 1\<close> events after the iterator is made, sends and receipts
  together, whatever else happens on the server and also if its iterator is closed or the stream
  breaks. As long as neither has happened and the transport takes a message when
  none is on its way, the events of the stream alone lead from every state to the one in which the
  client has received every pair and the server's method has returned.
\<close>

theorem RemoteDB_stream_terminates:
  assumes "remote_store env iok rest ok ents bok bops fits" and "srv_db (sys_srv y) = Some d" and "ok d"
    and "\<not> blank start" and "\<not> blank end'" and "j < length (sys_streams y)"
    and "sys_streams y ! j = new_stream reverse (new_Entity\<lparr>en_Start := start, en_End := end'\<rparr>)"
    and "remote_step env room (EServe j) y y1" and "remote_run env room evs y1 y2" and "\<And>m. room [] m"
  shows "length (events_of j evs) \<le> 3 * length (kv_scan reverse start end' (ents d)) + 1 \<and>
    (EClose j \<notin> set evs \<and> unbroken j evs \<longrightarrow>
       (\<exists>evs' y3. remote_run env room evs' y2 y3 \<and> set evs' \<subseteq> {EServe j, ERecv j} \<and>
          rs_handler (sys_streams y3 ! j) = HReturned None \<and> rs_flight (sys_streams y3 ! j) = [] \<and>
          rs_taken (sys_streams y3 ! j) = scan_messages reverse start end' (ents d)))"
proof -
  note start = remote_store.started_inv [OF assms(1,6,7,2-5,8)]
  note run = remote_store.run_inv [OF assms(1,9), of j "(start, end')" "kv_scan reverse start end' (ents d)"]
  have "\<exists>evs' y3. remote_run env room evs' y2 y3 \<and> set evs' \<subseteq> {EServe j, ERecv j} \<and>
      rs_handler (sys_streams y3 ! j) = HReturned None \<and> rs_flight (sys_streams y3 ! j) = [] \<and>
      rs_taken (sys_streams y3 ! j) = scan_messages reverse start end' (ents d)"
    if "EClose j \<notin> set evs" "unbroken j evs"
    using remote_store.stream_completes [OF assms(1), of j y2 "(start, end')" "kv_scan reverse start end' (ents d)" room]
      run start that assms(10)
    by (simp add: scan_messages_def)
  with run start show ?thesis by auto
qed

theorem RemoteDB_stream_terminates_witness:
  "\<exists>y1 evs y3. remote_step mem_env (\<lambda>fl m. fl = []) (EServe 0) mem_stream_example y1 \<and>
    remote_run mem_env (\<lambda>fl m. fl = []) evs y1 y3 \<and> rs_handler (sys_streams y3 ! 0) = HReturned None \<and>
    rs_taken (sys_streams y3 ! 0) = map (pair_message (None, None)) [([1], [10]), ([1, 2], []), ([3], [30])]"
proof -
  obtain y1 where y1: "remote_step mem_env (\<lambda>fl m. fl = []) (EServe 0) mem_stream_example y1"
    using mem_stream_starts by blast
  from RemoteDB_stream_terminates [OF mem_env.remote_store_axioms _ mem_example_ok _ _ _ _ y1 run_nil,
      where reverse = False and start = None and end' = None]
  obtain evs y3 where "remote_run mem_env (\<lambda>fl m. fl = []) evs y1 y3" "rs_handler (sys_streams y3 ! 0) = HReturned None"
    "rs_taken (sys_streams y3 ! 0) = scan_messages False None None (MemDB_ents list_btree mem_example)"
    by (auto simp: unbroken_def)
  with y1 mem_example_scan show ?thesis
    by (intro exI [of _ y1] exI [of _ evs] exI [of _ y3]) (simp add: scan_messages_def)
qed

text \<open>
  C25. A remote iterator that is closed before its end leaves its server method behind. \<open>Close\<close> closes the
  sending side of a forward stream, which is closed already, and does nothing to a reverse one. If
  the transport does not take all of the messages that are left, then the method does not return as
  long as the stream does not break, whatever else happens on the server, and the iterator of the database, with the
  lock or the snapshot that it holds, stays open. Only the error that \<open>Send\<close> returns once the stream is broken
  lets the method return, and it then returns that error.
\<close>

theorem RemoteDB_closed_iterator_leaks:
  assumes "remote_store env iok rest ok ents bok bops fits" and "srv_db (sys_srv y) = Some d" and "ok d"
    and "\<not> blank start" and "\<not> blank end'" and "j < length (sys_streams y)"
    and "sys_streams y ! j = new_stream reverse (new_Entity\<lparr>en_Start := start, en_End := end'\<rparr>)"
    and "remote_step env room (EServe j) y y1" and "remote_run env room evs y1 y2" and "unbroken j evs"
    and "ms = drop (length (rs_taken (sys_streams y2 ! j))) (scan_messages reverse start end' (ents d))"
    and "length (rs_flight (sys_streams y2 ! j)) \<le> k" and "k < length ms" and "\<not> room (take k ms) (ms ! k)"
    and "remote_step env room (EClose j) y2 y3" and "remote_run env room evs' y3 y4" and "unbroken j evs'"
  shows "(\<forall>e. rs_handler (sys_streams y4 ! j) \<noteq> HReturned e) \<and>
    (\<forall>err y5. remote_step env room (EBreak j err) y4 y5 \<longrightarrow>
       (\<exists>evs5 y6. remote_run env room evs5 y5 y6 \<and> set evs5 \<subseteq> {EServe j} \<and>
          rs_handler (sys_streams y6 ! j) = HReturned (Some err)))"
proof -
  let ?xs = "kv_scan reverse start end' (ents d)" let ?dm = "(start, end')"
  let ?inv = "stream_inv (D_itr (ge_db env)) iok rest ?dm ?xs"
  have y2: "j < length (sys_streams y2)" "?inv (sys_streams y2 ! j)" "rs_broken (sys_streams y2 ! j) = None"
    using remote_store.started_inv [OF assms(1,6,7,2-5,8)] remote_store.run_inv [OF assms(1,9), of j ?dm ?xs] assms(10) by auto
  have y3: "j < length (sys_streams y3)" "?inv (sys_streams y3 ! j)" "rs_broken (sys_streams y3 ! j) = None"
    using remote_store.step_inv [OF assms(1,15) y2(1,2)] y2(3) by (auto simp: unbroken_def)
  have closed: "\<not> rs_open (sys_streams y3 ! j)" "rs_flight (sys_streams y3 ! j) = rs_flight (sys_streams y2 ! j)"
    "rs_taken (sys_streams y3 ! j) = rs_taken (sys_streams y2 ! j)"
    using assms(15) y2(1) by auto
  have y4: "j < length (sys_streams y4)" "?inv (sys_streams y4 ! j)" "rs_broken (sys_streams y4 ! j) = None"
    using remote_store.run_inv [OF assms(1,16) y3(1,2)] assms(17) y3(3) by auto
  let ?st = "sys_streams y4 ! j"
  have "length (rs_flight ?st) \<le> k" "rs_taken ?st = rs_taken (sys_streams y2 ! j)"
    using remote_store.blocked_run [OF assms(1,16) y3(1,2) closed(1), of k ms] closed assms(11,12,14)
    by (auto simp: scan_messages_def)
  then have left: "rs_taken ?st @ rs_flight ?st \<noteq> map (pair_message ?dm) ?xs"
    using assms(11,13) by (metis append_eq_conv_conj leD scan_messages_def)
  then have "\<forall>e. rs_handler ?st \<noteq> HReturned e"
    using y4(2,3) by (auto simp: stream_inv_def split: option.splits)
  moreover have "\<exists>evs5 y6. remote_run env room evs5 y5 y6 \<and> set evs5 \<subseteq> {EServe j} \<and>
      rs_handler (sys_streams y6 ! j) = HReturned (Some err)" if "remote_step env room (EBreak j err) y4 y5" for err y5
  proof -
    have "rs_broken (sys_streams y5 ! j) = Some err" "rs_taken (sys_streams y5 ! j) = rs_taken ?st"
      "rs_flight (sys_streams y5 ! j) = rs_flight ?st" using that by auto
    with remote_store.step_inv [OF assms(1) that y4(1,2)] remote_store.broken_returns [OF assms(1), of j y5 ?dm ?xs err room] left
    show ?thesis by simp
  qed
  ultimately show ?thesis by blast
qed

theorem RemoteDB_closed_iterator_leaks_witness:
  "\<exists>y1 y2. remote_step mem_env (\<lambda>fl m. fl = []) (EServe 0) mem_stream_example y1 \<and>
    remote_step mem_env (\<lambda>fl m. fl = []) (EClose 0) y1 y2 \<and>
    (\<nexists>evs y3 e. remote_run mem_env (\<lambda>fl m. fl = []) evs y2 y3 \<and> unbroken 0 evs \<and>
       rs_handler (sys_streams y3 ! 0) = HReturned e)"
proof -
  obtain y1 where y1: "remote_step mem_env (\<lambda>fl m. fl = []) (EServe 0) mem_stream_example y1"
    using mem_stream_starts by blast
  then have st: "rs_flight (sys_streams y1 ! 0) = []" "rs_taken (sys_streams y1 ! 0) = []" "rs_open (sys_streams y1 ! 0)"
    "0 < length (sys_streams y1)"
    by (auto simp: new_stream_def elim!: stream_step serve_step.cases)
  then obtain y2 where y2: "remote_step mem_env (\<lambda>fl m. fl = []) (EClose 0) y1 y2"
    using remote_step.close by blast
  have "rs_handler (sys_streams y3 ! 0) \<noteq> HReturned e"
    if "remote_run mem_env (\<lambda>fl m. fl = []) evs y2 y3" "unbroken 0 evs" for evs y3 e
    using RemoteDB_closed_iterator_leaks [OF mem_env.remote_store_axioms _ mem_example_ok _ _ _ _ y1 run_nil _ _ _ _ _ y2 that,
        where reverse = False and start = None and end' = None and k = 1] mem_example_scan st
    by (simp add: scan_messages_def unbroken_def)
  with y1 y2 show ?thesis by blast
qed

text \<open>
  C24. \<open>GetStream\<close> from the client to the server and back. A client that asks for a list of keys, closes its side and
  reads to the end has received, in the order of the keys, what the store holds under each of
  them, followed by one more response with the error \<open>EOF\<close>; an empty key ends the answers with its
  error instead. It takes at most \<open>5 n + 7\<close> steps for \<open>n\<close> keys, however the client, the two goroutines
  of the server and the transport interleave, and at every moment a prefix has been received.
\<close>

theorem GetStream_session_answers:
  assumes "remote_store env iok rest ok ents bok bops fits" and "srv_db s = Some d" and "ok d" and "room []"
    and "dBClient_GetStream env (map (\<lambda>k. new_Entity\<lparr>en_Key := k\<rparr>) ks) = Inl x0" and "(gx_step env room s ^^ n) x0 x"
  shows "n \<le> 5 * length ks + 7 \<and> prefix (gx_got x) (key_answers (ents d) ks) \<and>
    ((\<nexists>x'. gx_step env room s x x') \<longrightarrow> gx_end x = Some io_EOF \<and> gx_got x = key_answers (ents d) ks)"
proof -
  let ?ins = "map (\<lambda>k. new_Entity\<lparr>en_Key := k\<rparr>) ks"
  have run: "(gx_step env room s ^^ n) (DB_GetStream_Handler (server_DBServer env) ?ins) x"
    using assms(5,6) by (auto simp: dBClient_GetStream_def split: option.splits)
  have "list_all Entity_encodable ?ins" by (simp add: list_all_iff)
  note sim = remote_store.gx_run_sim [OF assms(1) run this assms(2,3)]
    and answers = remote_store.gx_run_answers [OF assms(1) run this assms(2,3), unfolded remote_store.gs_answers_keys [OF assms(1-3)]]
  from sim have "n \<le> 5 * length ks + 7" by simp
  moreover have "gx_end x \<noteq> None" if "\<nexists>x'. gx_step env room s x x'"
    using gx_progress [of s d room x env] assms(2,4) that by blast
  ultimately show ?thesis using answers by blast
qed

theorem GetStream_session_answers_witness:
  "\<exists>x. (gx_step mem_env (\<lambda>q. True) \<lparr>srv_db = Some mem_example\<rparr> ^^ 5) (DB_GetStream_Handler (server_DBServer mem_env) [new_Entity\<lparr>en_Key := Some [1]\<rparr>]) x \<and>
    gx_got x = [new_Entity\<lparr>en_Value := Some [10]\<rparr>] \<and>
    prefix (gx_got x) (key_answers (MemDB_ents list_btree mem_example) [Some [1]])"
proof -
  let ?s = "\<lparr>srv_db = Some mem_example\<rparr>" and ?q = "new_Entity\<lparr>en_Key := Some [1]\<rparr>" and ?a = "new_Entity\<lparr>en_Value := Some [10]\<rparr>"
  let ?step = "gx_step mem_env (\<lambda>q. True) ?s"
  let ?x = "DB_GetStream_Handler (server_DBServer mem_env) [?q]"
  let ?x1 = "?x\<lparr>gx_todo := [], gx_up := [MEntity ?q]\<rparr>"
  let ?x2 = "?x1\<lparr>gx_up := [], gx_recv := XPush ?a False\<rparr>"
  let ?x3 = "?x2\<lparr>gx_recv := XRecv, gx_send := SSend ?a\<rparr>"
  let ?x4 = "?x3\<lparr>gx_send := SRange, gx_down := [MEntity ?a]\<rparr>"
  let ?x5 = "?x4\<lparr>gx_down := [], gx_got := [?a]\<rparr>"
  have wire: "nt_wire (ge_net mem_env) (MEntity ?q) = MEntity ?q" "nt_wire (ge_net mem_env) (MEntity ?a) = MEntity ?a"
    by (simp_all add: mem_env_def plain_net_def norm_Entity_def new_Entity_def norm_bytes_def)
  have answer: "gs_response (ge_db mem_env) ?s ?q = Ret (?a, False)"
    using mem_env.gs_response_key [of ?s mem_example ?q] mem_example_ok by (simp add: mem_example_ents)
  have 1: "?step ?x ?x1"
    using gx_step.client_send [of ?x ?q "[]" "\<lambda>q. True" mem_env ?s] wire
    by (simp add: DB_GetStream_Handler_server dBGetStreamClient_Send_def)
  have 2: "?step ?x1 ?x2"
    using gx_step.server_recv [of ?x1 mem_env "[]" ?q ?s ?a False "\<lambda>q. True"] answer
    by (simp add: DB_GetStream_Handler_server dBGetStreamServer_Recv_def)
  have 3: "?step ?x2 ?x3"
    using gx_step.server_pass [of ?x2 ?a False mem_env "\<lambda>q. True" ?s] by (simp add: DB_GetStream_Handler_server)
  have 4: "?step ?x3 ?x4"
    using gx_step.server_send [of ?x3 ?a "\<lambda>q. True" mem_env ?s] wire
    by (simp add: DB_GetStream_Handler_server dBGetStreamServer_Send_def)
  have 5: "?step ?x4 ?x5"
    using gx_step.client_recv [of ?x4 mem_env "[]" ?a "\<lambda>q. True" ?s]
    by (simp add: DB_GetStream_Handler_server dBGetStreamClient_Recv_def)
  have "(?step ^^ Suc (Suc (Suc (Suc (Suc 0))))) ?x ?x5"
    by (rule relpowp_Suc_I [where P = ?step, OF relpowp_Suc_I [where P = ?step, OF relpowp_Suc_I [where P = ?step,
        OF relpowp_Suc_I [where P = ?step, OF relpowp_Suc_I [where P = ?step, OF relpowp_0_I 1] 2] 3] 4] 5])
  then have run: "(?step ^^ 5) ?x ?x5" by (simp only: numeral_eq_Suc pred_numeral_simps BitM.simps arith_simps eval_nat_numeral)
  have "dBClient_GetStream mem_env (map (\<lambda>k. new_Entity\<lparr>en_Key := k\<rparr>) [Some [1]]) = Inl ?x"
    by (simp add: dBClient_GetStream_def mem_env_def plain_net_def)
  from GetStream_session_answers [OF mem_env.remote_store_axioms _ mem_example_ok _ this run] run
  show ?thesis by (intro exI [of _ ?x5]) simp
qed

end
