(* ===== verification/MemDB_Concurrent.thy ===== *)
theory MemDB_Concurrent
  imports MemDB
begin

text \<open>
  \<open>memdb_iterator.go\<close> and the mutex of \<open>memdb.go\<close> as they run: the goroutine that traverses the
  tree, the buffered channel, the cancelled context, the client that calls \<open>Next\<close> and \<open>Close\<close>,
  and the read-write lock between iterators and writers. One iterator is the step relation
  \<open>iter_step\<close>; a database with its lock, its iterators and its writers is \<open>sys_step\<close>. The
  theory shows that every interleaving answers as the sequential iterator of \<open>MemDB\<close>.
\<close>

section \<open>One iterator\<close>

definition chBufferSize :: nat where
  "chBufferSize = 64"

text \<open>
  The goroutine: inside the traversal with the items still to be offered and the variables
  \<open>skipEqual\<close> and \<open>abortLessThan\<close>; at the \<open>select\<close> with an item; after the traversal; after
  \<open>close(ch)\<close>; returned, with the deferred \<open>RUnlock\<close> done.
\<close>

datatype go_state =
    GVisit "item list" slice slice
  | GSelect item "item list" slice slice
  | GExit
  | GClosed
  | GDone

text \<open>The calls of a client, and where it is: receiving in the constructor, in \<open>Next\<close>, in \<open>Close\<close>, or between calls.\<close>

datatype iter_call = NextCall | CloseCall

datatype client_pc = KPrime | KIdle | KNext | KDrain | KPanic

text \<open>\<open>ir_done\<close> is the cancelled context; \<open>ir_got\<close> records what the client received as an item.\<close>

record iter_run =
  ir_go :: go_state
  ir_ch :: "item list"
  ir_closed :: bool
  ir_done :: bool
  ir_pc :: client_pc
  ir_item :: "item option"
  ir_calls :: "iter_call list"
  ir_got :: "item list"

inductive iter_step :: "iter_run \<Rightarrow> iter_run \<Rightarrow> bool" where
  visit_skip: "ir_go r = GVisit (i # is) skipEqual abortLessThan \<Longrightarrow> visitor skipEqual abortLessThan i = Skip \<Longrightarrow>
    iter_step r (r\<lparr>ir_go := GVisit is None abortLessThan\<rparr>)"
| visit_stop: "ir_go r = GVisit (i # is) skipEqual abortLessThan \<Longrightarrow> visitor skipEqual abortLessThan i = Stop \<Longrightarrow>
    iter_step r (r\<lparr>ir_go := GExit\<rparr>)"
| visit_send: "ir_go r = GVisit (i # is) skipEqual abortLessThan \<Longrightarrow> visitor skipEqual abortLessThan i = Send \<Longrightarrow>
    iter_step r (r\<lparr>ir_go := GSelect i is skipEqual abortLessThan\<rparr>)"
| visit_end: "ir_go r = GVisit [] skipEqual abortLessThan \<Longrightarrow> iter_step r (r\<lparr>ir_go := GExit\<rparr>)"
| select_send: "ir_go r = GSelect i is skipEqual abortLessThan \<Longrightarrow> length (ir_ch r) < chBufferSize \<Longrightarrow>
    iter_step r (r\<lparr>ir_go := GVisit is skipEqual abortLessThan, ir_ch := ir_ch r @ [i]\<rparr>)"
| select_done: "ir_go r = GSelect i is skipEqual abortLessThan \<Longrightarrow> ir_done r \<Longrightarrow> iter_step r (r\<lparr>ir_go := GExit\<rparr>)"
| close_ch: "ir_go r = GExit \<Longrightarrow> iter_step r (r\<lparr>ir_go := GClosed, ir_closed := True\<rparr>)"
| unlock: "ir_go r = GClosed \<Longrightarrow> iter_step r (r\<lparr>ir_go := GDone\<rparr>)"
| prime_recv: "ir_pc r = KPrime \<Longrightarrow> ir_ch r = x # xs \<Longrightarrow>
    iter_step r (r\<lparr>ir_pc := KIdle, ir_ch := xs, ir_item := Some x, ir_got := ir_got r @ [x]\<rparr>)"
| prime_closed: "ir_pc r = KPrime \<Longrightarrow> ir_ch r = [] \<Longrightarrow> ir_closed r \<Longrightarrow> iter_step r (r\<lparr>ir_pc := KIdle\<rparr>)"
| call_next: "ir_pc r = KIdle \<Longrightarrow> ir_calls r = NextCall # cs \<Longrightarrow> ir_item r \<noteq> None \<Longrightarrow>
    iter_step r (r\<lparr>ir_pc := KNext, ir_calls := cs\<rparr>)"
| next_panic: "ir_pc r = KIdle \<Longrightarrow> ir_calls r = NextCall # cs \<Longrightarrow> ir_item r = None \<Longrightarrow>
    iter_step r (r\<lparr>ir_pc := KPanic, ir_calls := cs\<rparr>)"
| next_recv: "ir_pc r = KNext \<Longrightarrow> ir_ch r = x # xs \<Longrightarrow>
    iter_step r (r\<lparr>ir_pc := KIdle, ir_ch := xs, ir_item := Some x, ir_got := ir_got r @ [x]\<rparr>)"
| next_closed: "ir_pc r = KNext \<Longrightarrow> ir_ch r = [] \<Longrightarrow> ir_closed r \<Longrightarrow> iter_step r (r\<lparr>ir_pc := KIdle, ir_item := None\<rparr>)"
| call_close: "ir_pc r = KIdle \<Longrightarrow> ir_calls r = CloseCall # cs \<Longrightarrow>
    iter_step r (r\<lparr>ir_pc := KDrain, ir_calls := cs, ir_done := True\<rparr>)"
| drain: "ir_pc r = KDrain \<Longrightarrow> ir_ch r = x # xs \<Longrightarrow> iter_step r (r\<lparr>ir_ch := xs\<rparr>)"
| drain_end: "ir_pc r = KDrain \<Longrightarrow> ir_ch r = [] \<Longrightarrow> ir_closed r \<Longrightarrow> iter_step r (r\<lparr>ir_pc := KIdle, ir_item := None\<rparr>)"

definition ir_start :: "item list \<times> slice \<times> slice \<Rightarrow> iter_call list \<Rightarrow> iter_run" where
  "ir_start t calls =
     \<lparr>ir_go = (case t of (offered, skipEqual, abortLessThan) \<Rightarrow> GVisit offered skipEqual abortLessThan), ir_ch = [],
      ir_closed = False, ir_done = False, ir_pc = KPrime, ir_item = None, ir_calls = calls, ir_got = []\<rparr>"

section \<open>A database with its lock\<close>

text \<open>A call that writes, once its arguments are checked: what it does under the lock.\<close>

datatype mem_write = WSet slice slice | WDelete slice | WBatch "operation list"

fun apply_write :: "'t btree_ops \<Rightarrow> mem_write \<Rightarrow> 't MemDB \<Rightarrow> 't MemDB" where
  "apply_write bt (WSet k v) db = MemDB_set bt db k v"
| "apply_write bt (WDelete k) db = MemDB_delete bt db k"
| "apply_write bt (WBatch ops) db = fst (memDBBatch_write_loop bt ops db)"

fun write_ok :: "mem_write \<Rightarrow> bool" where
  "write_ok (WSet k v) \<longleftrightarrow> len k \<noteq> 0 \<and> v \<noteq> None"
| "write_ok (WDelete k) \<longleftrightarrow> len k \<noteq> 0"
| "write_ok (WBatch ops) \<longleftrightarrow> list_all operation_ok ops"

text \<open>What a call to \<open>Iterator\<close> or \<open>ReverseIterator\<close> asked for, and the database it was made on.\<close>

record 't opened =
  op_db :: "'t MemDB"
  op_start :: slice
  op_end :: slice
  op_reverse :: bool

record 't memsys =
  ms_db :: "'t MemDB"
  ms_readers :: nat
  ms_waiting :: "mem_write list"
  ms_writer :: "mem_write option"
  ms_runs :: "('t opened \<times> iter_run) list"

definition start_run :: "'t btree_ops \<Rightarrow> 't opened \<Rightarrow> iter_call list \<Rightarrow> iter_run" where
  "start_run bt p calls = ir_start (traversal bt (op_db p) (op_start p) (op_end p) (op_reverse p)) calls"

text \<open>
  The lock is the documented \<open>sync.RWMutex\<close>: any number of readers or one writer, and a writer
  that waits for readers keeps new readers out. The constructor takes the read lock before it
  starts the goroutine, which releases it at its end.
\<close>

inductive sys_step :: "'t btree_ops \<Rightarrow> 't memsys \<Rightarrow> 't memsys \<Rightarrow> bool" for bt :: "'t btree_ops" where
  open_iterator: "ms_writer s = None \<Longrightarrow> ms_waiting s = [] \<or> ms_readers s = 0 \<Longrightarrow> op_db p = ms_db s \<Longrightarrow>
    \<not> blank (op_start p) \<Longrightarrow> \<not> blank (op_end p) \<Longrightarrow>
    sys_step bt s (s\<lparr>ms_readers := Suc (ms_readers s), ms_runs := ms_runs s @ [(p, start_run bt p calls)]\<rparr>)"
| iterate: "j < length (ms_runs s) \<Longrightarrow> ms_runs s ! j = (p, r) \<Longrightarrow> iter_step r r' \<Longrightarrow>
    sys_step bt s (s\<lparr>ms_readers := ms_readers s - (if ir_go r' = GDone \<and> ir_go r \<noteq> GDone then 1 else 0),
      ms_runs := (ms_runs s)[j := (p, r')]\<rparr>)"
| lock: "write_ok w \<Longrightarrow> sys_step bt s (s\<lparr>ms_waiting := ms_waiting s @ [w]\<rparr>)"
| locked: "ms_readers s = 0 \<Longrightarrow> ms_writer s = None \<Longrightarrow> ms_waiting s = ws @ w # ws' \<Longrightarrow>
    sys_step bt s (s\<lparr>ms_waiting := ws @ ws', ms_writer := Some w\<rparr>)"
| written: "ms_writer s = Some w \<Longrightarrow> sys_step bt s (s\<lparr>ms_db := apply_write bt w (ms_db s), ms_writer := None\<rparr>)"

definition sys_start :: "'t MemDB \<Rightarrow> 't memsys" where
  "sys_start db = \<lparr>ms_db = db, ms_readers = 0, ms_waiting = [], ms_writer = None, ms_runs = []\<rparr>"

section \<open>The sequential iterator as specification\<close>

fun seq_calls :: "iter_call list \<Rightarrow> memDBIterator \<Rightarrow> memDBIterator res" where
  "seq_calls [] i = Ret i"
| "seq_calls (NextCall # cs) i = bindR (memDBIterator_Next i) (seq_calls cs)"
| "seq_calls (CloseCall # cs) i = seq_calls cs (fst (memDBIterator_Close i))"

text \<open>What the goroutine still sends if nobody cancels it.\<close>

fun go_rest :: "go_state \<Rightarrow> item list" where
  "go_rest (GVisit is skipEqual abortLessThan) = visited skipEqual abortLessThan is"
| "go_rest (GSelect i is skipEqual abortLessThan) = i # visited skipEqual abortLessThan is"
| "go_rest _ = []"

definition pending :: "iter_run \<Rightarrow> item list" where
  "pending r = ir_ch r @ go_rest (ir_go r)"

text \<open>The sequential iterator that a run stands for; \<open>Close\<close> takes effect when it cancels the context.\<close>

definition iter_abs :: "slice \<Rightarrow> slice \<Rightarrow> bool \<Rightarrow> iter_run \<Rightarrow> memDBIterator" where
  "iter_abs start end' useMtx r =
     (let i = \<lparr>mi_ch = pending r, mi_item = ir_item r, mi_start = start, mi_end = end', mi_useMtx = useMtx\<rparr>
      in if ir_done r then i\<lparr>mi_ch := [], mi_item := None\<rparr>
         else if ir_pc r = KPrime then
           (case pending r of [] \<Rightarrow> i | x # xs \<Rightarrow> i\<lparr>mi_ch := xs, mi_item := Some x\<rparr>)
         else i)"

section \<open>The invariant of a run\<close>

definition iter_inv :: "item list \<Rightarrow> iter_run \<Rightarrow> bool" where
  "iter_inv items r \<longleftrightarrow>
     (ir_closed r \<longleftrightarrow> ir_go r = GClosed \<or> ir_go r = GDone) \<and> length (ir_ch r) \<le> chBufferSize \<and>
     (ir_pc r = KPrime \<longrightarrow> \<not> ir_done r \<and> ir_item r = None \<and> ir_got r = []) \<and>
     (ir_pc r = KNext \<longrightarrow> \<not> ir_done r \<and> ir_item r \<noteq> None) \<and>
     (ir_done r \<longleftrightarrow> ir_pc r = KDrain \<or> ir_done r \<and> ir_item r = None) \<and>
     (ir_item r = None \<and> ir_pc r \<noteq> KPrime \<and> \<not> ir_done r \<longrightarrow> pending r = []) \<and>
     (if ir_done r then prefix (ir_got r) items else ir_got r @ pending r = items)"

lemma iter_inv_start: "iter_inv (go_rest (ir_go (ir_start t calls))) (ir_start t calls)"
  by (simp add: iter_inv_def ir_start_def pending_def split: prod.splits)

lemma iter_inv_step: "iter_step r r' \<Longrightarrow> iter_inv items r \<Longrightarrow> iter_inv items r'"
  by (induction rule: iter_step.induct)
     (auto simp: iter_inv_def pending_def split: if_splits)

lemma iter_inv_got:
  assumes "iter_inv items r"
  shows "prefix (ir_got r) items" and "ir_pc r = KIdle \<Longrightarrow> ir_item r = None \<Longrightarrow> \<not> ir_done r \<Longrightarrow> ir_got r = items"
    and "length (ir_ch r) \<le> chBufferSize"
proof -
  show "prefix (ir_got r) items"
  proof (cases "ir_done r")
    case False
    then have "items = ir_got r @ pending r" using assms by (simp add: iter_inv_def)
    then show ?thesis by (rule prefixI)
  qed (use assms in \<open>simp add: iter_inv_def\<close>)
qed (use assms in \<open>auto simp: iter_inv_def\<close>)

text \<open>Goroutine steps and the receiving of an item are invisible; the calls act as the sequential ones.\<close>

definition iter_visible :: "slice \<Rightarrow> slice \<Rightarrow> bool \<Rightarrow> iter_run \<Rightarrow> iter_run \<Rightarrow> bool" where
  "iter_visible a b m r r' \<longleftrightarrow>
     ir_calls r' = ir_calls r \<and> iter_abs a b m r' = iter_abs a b m r \<and> (ir_pc r' = ir_pc r \<or> ir_pc r \<in> {KPrime, KDrain} \<and> ir_pc r' = KIdle)
    \<or> ir_pc r = KNext \<and> ir_pc r' = KIdle \<and> ir_calls r' = ir_calls r \<and>
        memDBIterator_Next (iter_abs a b m r) = Ret (iter_abs a b m r')
    \<or> ir_pc r = KIdle \<and> ir_pc r' = KNext \<and> ir_calls r = NextCall # ir_calls r' \<and> iter_abs a b m r' = iter_abs a b m r
    \<or> ir_pc r = KIdle \<and> ir_pc r' = KPanic \<and> ir_calls r = NextCall # ir_calls r' \<and>
        memDBIterator_Next (iter_abs a b m r) = Panic ''iterator is invalid''
    \<or> ir_pc r = KIdle \<and> ir_pc r' = KDrain \<and> ir_calls r = CloseCall # ir_calls r' \<and>
        iter_abs a b m r' = fst (memDBIterator_Close (iter_abs a b m r))"

lemma iter_abs_step:
  assumes "iter_step r r'" and "iter_inv items r"
  shows "iter_visible a b m r r'"
  using assms
proof (induction rule: iter_step.induct)
  case (prime_recv r x xs)
  then show ?case by (simp add: iter_visible_def iter_inv_def iter_abs_def Let_def pending_def)
next
  case (prime_closed r)
  then show ?case by (auto simp: iter_visible_def iter_inv_def iter_abs_def Let_def pending_def)
next
  case (call_next r cs)
  then show ?case by (simp add: iter_visible_def iter_abs_def Let_def pending_def)
next
  case (next_panic r cs)
  then show ?case by (simp add: iter_visible_def iter_abs_def Let_def pending_def memDBIterator_defs)
next
  case (next_recv r x xs)
  then show ?case by (simp add: iter_visible_def iter_inv_def iter_abs_def Let_def pending_def memDBIterator_defs)
next
  case (next_closed r)
  then show ?case by (auto simp: iter_visible_def iter_inv_def iter_abs_def Let_def pending_def memDBIterator_defs)
next
  case (call_close r cs)
  then show ?case by (simp add: iter_visible_def iter_abs_def Let_def memDBIterator_defs)
next
  case (drain r x xs)
  then show ?case by (auto simp: iter_visible_def iter_inv_def iter_abs_def Let_def pending_def)
next
  case (drain_end r)
  then show ?case by (auto simp: iter_visible_def iter_inv_def iter_abs_def Let_def pending_def)
qed (simp_all add: iter_visible_def iter_abs_def Let_def pending_def)

lemma seq_calls_append: "seq_calls (cs @ ds) i = bindR (seq_calls cs i) (seq_calls ds)"
proof (induction cs arbitrary: i)
  case (Cons c cs)
  then have "seq_calls (cs @ ds) = (\<lambda>x. bindR (seq_calls cs x) (seq_calls ds))" by (intro ext)
  then show ?case by (cases c) (simp_all add: bindR_assoc)
qed simp

lemma seq_calls_one: "seq_calls [NextCall] = memDBIterator_Next" "seq_calls [CloseCall] = (\<lambda>i. Ret (fst (memDBIterator_Close i)))"
proof -
  have "seq_calls [] = Ret" by (rule ext) simp
  then show "seq_calls [NextCall] = memDBIterator_Next" by (intro ext) (simp add: bindR_Ret)
qed (rule ext, simp)

text \<open>
  A run stands for the sequential iterator after the calls that are finished; a \<open>Next\<close> that waits
  at the channel is not finished.
\<close>

definition iter_sim :: "slice \<Rightarrow> slice \<Rightarrow> bool \<Rightarrow> memDBIterator \<Rightarrow> iter_call list \<Rightarrow> iter_run \<Rightarrow> bool" where
  "iter_sim a b m i calls r \<longleftrightarrow>
     (\<exists>cs. case ir_pc r of
        KNext \<Rightarrow> calls = cs @ NextCall # ir_calls r \<and> seq_calls cs i = Ret (iter_abs a b m r)
      | KPanic \<Rightarrow> calls = cs @ ir_calls r \<and> seq_calls cs i = Panic ''iterator is invalid''
      | _ \<Rightarrow> calls = cs @ ir_calls r \<and> seq_calls cs i = Ret (iter_abs a b m r))"

lemma iter_sim_step:
  assumes "iter_step r r'" and "iter_inv items r" and "iter_sim a b m i calls r"
  shows "iter_sim a b m i calls r'"
proof -
  let ?A = "iter_abs a b m"
  obtain cs where cs: "case ir_pc r of
        KNext \<Rightarrow> calls = cs @ NextCall # ir_calls r \<and> seq_calls cs i = Ret (?A r)
      | KPanic \<Rightarrow> calls = cs @ ir_calls r \<and> seq_calls cs i = Panic ''iterator is invalid''
      | _ \<Rightarrow> calls = cs @ ir_calls r \<and> seq_calls cs i = Ret (?A r)"
    using assms(3) by (auto simp: iter_sim_def)
  have next': "seq_calls (cs @ [NextCall]) i = bindR (seq_calls cs i) memDBIterator_Next"
    and close': "seq_calls (cs @ [CloseCall]) i = bindR (seq_calls cs i) (\<lambda>i. Ret (fst (memDBIterator_Close i)))"
    by (simp_all add: seq_calls_append seq_calls_one)
  from iter_abs_step [OF assms(1,2), of a b m] consider
      (same) "ir_calls r' = ir_calls r" "?A r' = ?A r" "ir_pc r' = ir_pc r \<or> ir_pc r \<in> {KPrime, KDrain} \<and> ir_pc r' = KIdle"
    | (got) "ir_pc r = KNext" "ir_pc r' = KIdle" "ir_calls r' = ir_calls r" "memDBIterator_Next (?A r) = Ret (?A r')"
    | (call) "ir_pc r = KIdle" "ir_pc r' = KNext" "ir_calls r = NextCall # ir_calls r'" "?A r' = ?A r"
    | (panic) "ir_pc r = KIdle" "ir_pc r' = KPanic" "ir_calls r = NextCall # ir_calls r'"
        "memDBIterator_Next (?A r) = Panic ''iterator is invalid''"
    | (close) "ir_pc r = KIdle" "ir_pc r' = KDrain" "ir_calls r = CloseCall # ir_calls r'"
        "?A r' = fst (memDBIterator_Close (?A r))"
    unfolding iter_visible_def by blast
  then show ?thesis
  proof cases
    case same
    then show ?thesis using cs by (auto simp: iter_sim_def split: client_pc.splits)
  next
    case got
    then show ?thesis using cs next' by (auto simp: iter_sim_def intro!: exI [of _ "cs @ [NextCall]"])
  next
    case call
    then show ?thesis using cs by (auto simp: iter_sim_def)
  next
    case panic
    then show ?thesis using cs next' by (auto simp: iter_sim_def intro!: exI [of _ "cs @ [NextCall]"])
  next
    case close
    then show ?thesis using cs close' by (auto simp: iter_sim_def intro!: exI [of _ "cs @ [CloseCall]"])
  qed
qed

lemma iter_abs_start:
  "iter_abs start end' m (ir_start (traversal bt db start end' rv) calls) = newMemDBIteratorMtxChoice bt db start end' rv m"
  by (auto simp: iter_abs_def ir_start_def newMemDBIteratorMtxChoice_def pending_def Let_def split: prod.splits list.splits)

lemma iter_sim_start:
  "iter_sim start end' m (newMemDBIteratorMtxChoice bt db start end' rv m) calls (ir_start (traversal bt db start end' rv) calls)"
  unfolding iter_abs_start [symmetric, where calls = calls] by (auto simp: iter_sim_def ir_start_def intro: exI [of _ "[]"])

section \<open>Termination and deadlock\<close>

text \<open>Every step decreases this number.\<close>

fun go_weight :: "go_state \<Rightarrow> nat" where
  "go_weight (GVisit is sk ab) = 3 * length is + 3"
| "go_weight (GSelect i is sk ab) = 3 * length is + 5"
| "go_weight GExit = 2"
| "go_weight GClosed = 1"
| "go_weight GDone = 0"

definition iter_weight :: "iter_run \<Rightarrow> nat" where
  "iter_weight r = go_weight (ir_go r) + length (ir_ch r) + 2 * length (ir_calls r) +
     (if ir_pc r = KIdle \<or> ir_pc r = KPanic then 0 else 1)"

lemma iter_step_weight: "iter_step r r' \<Longrightarrow> iter_weight r' < iter_weight r"
  by (induction rule: iter_step.induct) (simp_all add: iter_weight_def)

text \<open>
  A run that cannot move: the client has finished (or panicked), and the goroutine has returned
  or waits at the full channel of an iterator that was not closed.
\<close>

lemma iter_stuck:
  assumes "iter_inv items r" and "\<nexists>r'. iter_step r r'"
  shows "(ir_pc r = KIdle \<and> ir_calls r = [] \<or> ir_pc r = KPanic) \<and>
    (ir_go r = GDone \<or> \<not> ir_done r \<and> length (ir_ch r) = chBufferSize \<and> go_rest (ir_go r) \<noteq> [])"
proof -
  have go: "ir_go r = GDone \<or> (\<exists>i is sk ab. ir_go r = GSelect i is sk ab \<and> \<not> ir_done r \<and> chBufferSize \<le> length (ir_ch r))"
  proof (cases "ir_go r")
    case (GVisit xs sk ab)
    then show ?thesis
      using assms(2) visit_skip visit_stop visit_send visit_end by (cases xs) (metis visit.exhaust)+
  next
    case (GSelect i xs sk ab)
    then show ?thesis using assms(2) select_send select_done by (metis not_less)
  qed (use assms(2) close_ch unlock in blast)+
  have recv: "ir_ch r = [] \<Longrightarrow> ir_closed r"
    using go assms(1) by (auto simp: iter_inv_def chBufferSize_def)
  have "ir_pc r = KIdle \<and> ir_calls r = [] \<or> ir_pc r = KPanic"
  proof (cases "ir_pc r")
    case KIdle
    then show ?thesis
    proof (cases "ir_calls r")
      case (Cons c cs)
      then show ?thesis using assms(2) KIdle call_next next_panic call_close by (cases c) metis+
    qed simp
  next
    case KPrime
    then show ?thesis using assms(2) recv prime_recv prime_closed by (cases "ir_ch r") metis+
  next
    case KNext
    then show ?thesis using assms(2) recv next_recv next_closed by (cases "ir_ch r") metis+
  next
    case KDrain
    then show ?thesis using assms(2) recv drain drain_end by (cases "ir_ch r") metis+
  qed simp
  with go assms(1) show ?thesis by (auto simp: iter_inv_def)
qed

text \<open>An iterator that is left alone with more items than the channel holds keeps its goroutine, and so its lock.\<close>

definition abandoned :: "iter_run \<Rightarrow> bool" where
  "abandoned r \<longleftrightarrow> ir_pc r = KIdle \<and> ir_calls r = [] \<and> \<not> ir_done r \<and> chBufferSize < length (pending r)"

lemma abandoned_step:
  assumes "iter_step r r'" and "iter_inv items r" and "abandoned r"
  shows "abandoned r' \<and> ir_got r' = ir_got r"
  using assms by (induction rule: iter_step.induct) (auto simp: abandoned_def pending_def)

lemma abandoned_not_done: "iter_inv items r \<Longrightarrow> abandoned r \<Longrightarrow> ir_go r \<noteq> GDone"
  by (auto simp: abandoned_def pending_def iter_inv_def)

section \<open>The invariant of the system\<close>

definition opened_items :: "'t btree_ops \<Rightarrow> 't opened \<Rightarrow> item list" where
  "opened_items bt p = go_rest (ir_go (start_run bt p []))"

definition live :: "'t opened \<times> iter_run \<Rightarrow> nat" where
  "live q = (if ir_go (snd q) = GDone then 0 else 1)"

definition run_ok :: "'t btree_ops \<Rightarrow> ('t \<Rightarrow> bool) \<Rightarrow> 't MemDB \<Rightarrow> 't opened \<times> iter_run \<Rightarrow> bool" where
  "run_ok bt bwf db q \<longleftrightarrow> MemDB_ok bt bwf (op_db (fst q)) \<and> \<not> blank (op_start (fst q)) \<and> \<not> blank (op_end (fst q)) \<and>
     iter_inv (opened_items bt (fst q)) (snd q) \<and> (ir_go (snd q) \<noteq> GDone \<longrightarrow> op_db (fst q) = db)"

definition sys_inv :: "'t btree_ops \<Rightarrow> ('t \<Rightarrow> bool) \<Rightarrow> 't memsys \<Rightarrow> bool" where
  "sys_inv bt bwf s \<longleftrightarrow>
     MemDB_ok bt bwf (ms_db s) \<and> ms_readers s = sum_list (map live (ms_runs s)) \<and>
     (ms_writer s \<noteq> None \<longrightarrow> ms_readers s = 0) \<and>
     list_all write_ok (ms_waiting s) \<and> pred_option write_ok (ms_writer s) \<and>
     list_all (run_ok bt bwf (ms_db s)) (ms_runs s)"

lemma iter_done_stays: "iter_step r r' \<Longrightarrow> ir_go r = GDone \<Longrightarrow> ir_go r' = GDone"
  by (induction rule: iter_step.induct) auto

lemma run_ok_step: "iter_step r r' \<Longrightarrow> run_ok bt bwf db (p, r) \<Longrightarrow> run_ok bt bwf db (p, r')"
  using iter_inv_step [of r r'] iter_done_stays [of r r'] by (auto simp: run_ok_def)

lemma run_ok_start:
  "MemDB_ok bt bwf (op_db p) \<Longrightarrow> \<not> blank (op_start p) \<Longrightarrow> \<not> blank (op_end p) \<Longrightarrow>
     run_ok bt bwf (op_db p) (p, start_run bt p calls)"
  using iter_inv_start [of "traversal bt (op_db p) (op_start p) (op_end p) (op_reverse p)" calls]
  by (simp add: run_ok_def opened_items_def start_run_def ir_start_def)

lemma live_update:
  assumes "j < length qs" and "qs ! j = (p, r)" and "iter_step r r'"
  shows "sum_list (map live (qs[j := (p, r')])) =
    sum_list (map live qs) - (if ir_go r' = GDone \<and> ir_go r \<noteq> GDone then 1 else 0)"
  using assms iter_done_stays [OF assms(3)] elem_le_sum_list [of j "map live qs"]
  by (auto simp: map_update sum_list_update live_def)

lemma no_readers_done: "sum_list (map live qs) = 0 \<Longrightarrow> q \<in> set qs \<Longrightarrow> ir_go (snd q) = GDone"
  by (auto simp: live_def split: if_splits)

context btree_laws
begin

lemma apply_write_ok: "MemDB_ok bt bwf db \<Longrightarrow> write_ok w \<Longrightarrow> MemDB_ok bt bwf (apply_write bt w db)"
  using write_loop_ents [of db _ "fst (memDBBatch_write_loop bt ops db)" "snd (memDBBatch_write_loop bt ops db)" for ops]
  by (cases w) (simp_all add: set_ok delete_ok)

lemma sys_inv_step:
  assumes "sys_step bt s s'" and "sys_inv bt bwf s"
  shows "sys_inv bt bwf s'"
  using assms
proof (induction rule: sys_step.induct)
  case (open_iterator s p calls)
  then show ?case
    using run_ok_start [of bt bwf p calls] by (simp add: sys_inv_def live_def start_run_def ir_start_def split: prod.splits)
next
  case (iterate j s p r r')
  then have "run_ok bt bwf (ms_db s) (p, r)" by (metis sys_inv_def list_all_length)
  then have "run_ok bt bwf (ms_db s) (p, r')" by (rule run_ok_step [OF iterate(3)])
  then have "list_all (run_ok bt bwf (ms_db s)) ((ms_runs s)[j := (p, r')])"
    using iterate.prems by (auto simp: sys_inv_def list_all_iff dest!: subsetD [OF set_update_subset_insert])
  with iterate.prems live_update [OF iterate(1-3)] show ?case by (auto simp: sys_inv_def simp del: sum_list_eq_0_iff)
next
  case (written s w)
  then have "ir_go (snd q) = GDone" if "q \<in> set (ms_runs s)" for q
    using no_readers_done [OF _ that] by (simp add: sys_inv_def del: sum_list_eq_0_iff)
  then have "list_all (run_ok bt bwf (apply_write bt w (ms_db s))) (ms_runs s)"
    using written by (auto simp: sys_inv_def list_all_iff run_ok_def)
  with written show ?case by (simp add: sys_inv_def apply_write_ok)
qed (auto simp: sys_inv_def)

lemma sys_inv_reachable:
  assumes "(sys_step bt)\<^sup>*\<^sup>* s s'" and "sys_inv bt bwf s"
  shows "sys_inv bt bwf s'"
  using assms by (induction rule: rtranclp_induct) (auto intro: sys_inv_step)

lemma sys_inv_start: "MemDB_ok bt bwf db \<Longrightarrow> sys_inv bt bwf (sys_start db)"
  by (simp add: sys_inv_def sys_start_def)

text \<open>The items of an iterator are those of the scan.\<close>

lemma opened_items_scan:
  assumes "MemDB_ok bt bwf (op_db p)" and "\<not> blank (op_start p)" and "\<not> blank (op_end p)"
  shows "map item_kv (opened_items bt p) = kv_scan (op_reverse p) (op_start p) (op_end p) (MemDB_ents bt (op_db p))"
  using iterator_rest(1) [OF assms, of "op_reverse p" True]
  by (auto simp: opened_items_def start_run_def ir_start_def newMemDBIteratorMtxChoice_def memDBIterator_rest_def Let_def
      split: prod.splits list.splits)

end

text \<open>With room in the channel the goroutine returns on its own, and with it the lock.\<close>

lemma go_step_alone:
  assumes "ir_go r \<noteq> GDone" and "length (pending r) \<le> chBufferSize"
  shows "\<exists>r'. iter_step r r' \<and> go_weight (ir_go r') < go_weight (ir_go r) \<and> pending r' = pending r \<and>
    (\<forall>c. r'\<lparr>ir_go := GDone, ir_ch := pending r, ir_closed := c\<rparr> = r\<lparr>ir_go := GDone, ir_ch := pending r, ir_closed := c\<rparr>)"
proof -
  have via: ?thesis if "iter_step r r'" and "go_weight (ir_go r') < go_weight (ir_go r)" and "pending r' = pending r"
    and "\<And>c. r'\<lparr>ir_go := GDone, ir_ch := pending r, ir_closed := c\<rparr> = r\<lparr>ir_go := GDone, ir_ch := pending r, ir_closed := c\<rparr>"
    for r'
    using that by blast
  show ?thesis
  proof (cases "ir_go r")
    case (GVisit xs sk ab)
    show ?thesis
    proof (cases xs)
      case Nil
      then show ?thesis using GVisit by (intro via [OF visit_end]) (auto simp: pending_def)
    next
      case (Cons x ys)
      show ?thesis
      proof (cases "visitor sk ab x")
        case Skip
        then show ?thesis using GVisit Cons by (intro via [OF visit_skip]) (auto simp: pending_def)
      next
        case Stop
        then show ?thesis using GVisit Cons by (intro via [OF visit_stop]) (auto simp: pending_def)
      next
        case Send
        then show ?thesis using GVisit Cons by (intro via [OF visit_send]) (auto simp: pending_def)
      qed
    qed
  next
    case (GSelect x ys sk ab)
    then show ?thesis using assms(2) by (intro via [OF select_send]) (auto simp: pending_def)
  next
    case GExit
    then show ?thesis by (intro via [OF close_ch]) (auto simp: pending_def)
  next
    case GClosed
    then show ?thesis by (intro via [OF unlock]) (auto simp: pending_def)
  qed (use assms(1) in simp)
qed

lemma go_alone:
  assumes "length (pending r) \<le> chBufferSize"
  shows "\<exists>c. iter_step\<^sup>*\<^sup>* r (r\<lparr>ir_go := GDone, ir_ch := pending r, ir_closed := c\<rparr>)"
  using assms
proof (induction "go_weight (ir_go r)" arbitrary: r rule: less_induct)
  case less
  show ?case
  proof (cases "ir_go r = GDone")
    case True
    then have "r\<lparr>ir_go := GDone, ir_ch := pending r, ir_closed := ir_closed r\<rparr> = r" by (simp add: pending_def)
    then show ?thesis by (metis rtranclp.rtrancl_refl)
  next
    case False
    from go_step_alone [OF this less.prems] obtain r' where r': "iter_step r r'"
      "go_weight (ir_go r') < go_weight (ir_go r)" "pending r' = pending r"
      "\<forall>c. r'\<lparr>ir_go := GDone, ir_ch := pending r, ir_closed := c\<rparr> = r\<lparr>ir_go := GDone, ir_ch := pending r, ir_closed := c\<rparr>"
      by blast
    with less.hyps [OF r'(2)] less.prems obtain c where
      "iter_step\<^sup>*\<^sup>* r' (r\<lparr>ir_go := GDone, ir_ch := pending r, ir_closed := c\<rparr>)" by auto
    with r'(1) show ?thesis by (metis converse_rtranclp_into_rtranclp)
  qed
qed

lemma prime_after_close:
  assumes "ir_pc r = KPrime" and "ir_go r = GDone" and "\<not> ir_done r" and "ir_closed r"
  obtains r' where "iter_step r r'" and "ir_pc r' = KIdle" and "ir_go r' = GDone" and "\<not> ir_done r'"
proof (cases "ir_ch r")
  case Nil
  show thesis by (rule that [OF prime_closed]) (use assms Nil in auto)
next
  case (Cons x xs)
  show thesis by (rule that [OF prime_recv]) (use assms Cons in auto)
qed

lemma sys_write_alone:
  assumes "write_ok w" and "ms_readers s = 0" and "ms_waiting s = []" and "ms_writer s = None"
  shows "(sys_step bt)\<^sup>*\<^sup>* s (s\<lparr>ms_db := apply_write bt w (ms_db s)\<rparr>)"
proof -
  have 1: "sys_step bt s (s\<lparr>ms_waiting := [w]\<rparr>)" using lock [OF assms(1), of bt s] assms(3) by simp
  have "sys_step bt (s\<lparr>ms_waiting := [w]\<rparr>) (s\<lparr>ms_waiting := [], ms_writer := Some w\<rparr>)"
    using locked [of "s\<lparr>ms_waiting := [w]\<rparr>" "[]" w "[]" bt] assms(2,4) by simp
  also have "s\<lparr>ms_waiting := [], ms_writer := Some w\<rparr> = s\<lparr>ms_writer := Some w\<rparr>" using assms(3) by (cases s) simp
  finally have 2: "sys_step bt (s\<lparr>ms_waiting := [w]\<rparr>) (s\<lparr>ms_writer := Some w\<rparr>)" .
  have "sys_step bt (s\<lparr>ms_writer := Some w\<rparr>) (s\<lparr>ms_db := apply_write bt w (ms_db s), ms_writer := None\<rparr>)"
    using written [of "s\<lparr>ms_writer := Some w\<rparr>" w bt] by simp
  also have "s\<lparr>ms_db := apply_write bt w (ms_db s), ms_writer := None\<rparr> = s\<lparr>ms_db := apply_write bt w (ms_db s)\<rparr>"
    using assms(4) by (cases s) simp
  finally have 3: "sys_step bt (s\<lparr>ms_writer := Some w\<rparr>) (s\<lparr>ms_db := apply_write bt w (ms_db s)\<rparr>)" .
  note into = rtranclp.rtrancl_into_rtrancl [where r = "sys_step bt"]
  show ?thesis by (rule into [OF into [OF into [OF rtranclp.rtrancl_refl 1] 2] 3])
qed

lemma sys_iterate_alone:
  assumes "iter_step\<^sup>*\<^sup>* r r'" and "ir_go r \<noteq> GDone"
    and "s = \<lparr>ms_db = db, ms_readers = 1, ms_waiting = [], ms_writer = None, ms_runs = [(p, r)]\<rparr>"
  shows "(sys_step bt)\<^sup>*\<^sup>* s (s\<lparr>ms_readers := live (p, r'), ms_runs := [(p, r')]\<rparr>)"
  using assms(1)
proof (induction rule: rtranclp_induct)
  case base
  then show ?case using assms(2,3) by (simp add: live_def)
next
  case (step r1 r2)
  let ?s1 = "s\<lparr>ms_readers := live (p, r1), ms_runs := [(p, r1)]\<rparr>"
  have "sys_step bt ?s1 (?s1\<lparr>ms_readers := ms_readers ?s1 - (if ir_go r2 = GDone \<and> ir_go r1 \<noteq> GDone then 1 else 0),
      ms_runs := (ms_runs ?s1)[0 := (p, r2)]\<rparr>)"
    by (rule iterate [OF _ _ step(2)]) simp_all
  then have "sys_step bt ?s1 (s\<lparr>ms_readers := live (p, r2), ms_runs := [(p, r2)]\<rparr>)"
    using iter_done_stays [OF step(2)] by (auto simp: live_def)
  with step.IH show ?case by simp
qed

text \<open>Nothing but the steps of its own client and goroutine moves an iterator.\<close>

lemma abandoned_sys_step:
  assumes "sys_step bt s s'" and "sys_inv bt bwf s" and "j < length (ms_runs s)" and "ms_runs s ! j = (p, r)" and "abandoned r"
  shows "ms_db s' = ms_db s \<and> ms_writer s' = None \<and> ms_readers s' \<noteq> 0 \<and>
    (ms_waiting s \<noteq> [] \<longrightarrow> ms_waiting s' \<noteq> [] \<and> length (ms_runs s') = length (ms_runs s)) \<and>
    j < length (ms_runs s') \<and> (\<exists>r'. ms_runs s' ! j = (p, r') \<and> abandoned r' \<and> ir_got r' = ir_got r)"
proof -
  have inv: "iter_inv (opened_items bt p) r" "ms_readers s = sum_list (map live (ms_runs s))"
    "ms_writer s \<noteq> None \<longrightarrow> ms_readers s = 0"
    using assms(2-4) by (auto simp: sys_inv_def list_all_length run_ok_def dest!: spec [of _ j])
  have "live (ms_runs s ! j) = 1" using abandoned_not_done [OF inv(1) assms(5)] assms(4) by (simp add: live_def)
  then have readers: "ms_readers s \<noteq> 0" using inv(2) elem_le_sum_list [of j "map live (ms_runs s)"] assms(3)
    by (simp del: sum_list_eq_0_iff)
  from assms(1) show ?thesis
  proof cases
    case (iterate k q t t')
    show ?thesis
    proof (cases "k = j")
      case True
      then have t: "abandoned t'" "ir_got t' = ir_got r" "ir_go t' \<noteq> GDone"
        using iterate assms(4,5) inv(1) abandoned_step [of r t' "opened_items bt p"]
          abandoned_not_done [OF iter_inv_step [of r t' "opened_items bt p"]] by auto
      then show ?thesis using True iterate inv(3) readers assms(3,4) by auto
    next
      case False
      have "2 \<le> ms_readers s" if "ir_go t \<noteq> GDone"
      proof -
        have "live (ms_runs s ! k) = 1" using that iterate by (simp add: live_def)
        moreover have "live (ms_runs s ! j) = 1" by fact
        moreover have "sum_list ((map live (ms_runs s))[k := 0]) = sum_list (map live (ms_runs s)) - live (ms_runs s ! k)"
          using iterate(2) by (simp add: sum_list_update)
        moreover have "(map live (ms_runs s))[k := 0] ! j \<le> sum_list ((map live (ms_runs s))[k := 0])"
          using assms(3) by (intro elem_le_sum_list) simp
        ultimately show ?thesis using inv(2) False assms(3) by simp
      qed
      then show ?thesis using False iterate inv(3) readers assms(3-5) by auto
    qed
  qed (use inv(3) readers assms(3-5) in \<open>auto simp: nth_append\<close>)
qed

lemma abandoned_sys_steps:
  assumes laws: "btree_laws bt bwf" and "(sys_step bt)\<^sup>*\<^sup>* s s'" and "sys_inv bt bwf s" and "ms_waiting s \<noteq> []"
    and "j < length (ms_runs s)" and "ms_runs s ! j = (p, r)" and "abandoned r"
  shows "ms_db s' = ms_db s \<and> ms_waiting s' \<noteq> [] \<and> length (ms_runs s') = length (ms_runs s) \<and>
    (\<exists>r'. ms_runs s' ! j = (p, r') \<and> abandoned r' \<and> ir_got r' = ir_got r)"
  using assms(2)
proof (induction rule: rtranclp_induct)
  case (step s1 s2)
  then obtain r1 where r1: "ms_runs s1 ! j = (p, r1)" "abandoned r1" "ir_got r1 = ir_got r" by blast
  have "sys_inv bt bwf s1" by (rule btree_laws.sys_inv_reachable [OF laws step(1) assms(3)])
  from abandoned_sys_step [OF step(2) this _ r1(1,2)] step.IH assms(5) r1(3) show ?case by auto
qed (use assms in auto)

lemma iter_inv_reachable:
  assumes "iter_step\<^sup>*\<^sup>* (ir_start t calls) r"
  shows "iter_inv (go_rest (ir_go (ir_start t calls))) r"
  using assms by (induction rule: rtranclp_induct) (auto intro: iter_inv_start iter_inv_step)

lemma iter_sim_reachable:
  assumes "iter_step\<^sup>*\<^sup>* (ir_start (traversal bt db start end' rv) calls) r"
  shows "iter_sim start end' m (newMemDBIteratorMtxChoice bt db start end' rv m) calls r"
  using assms
proof (induction rule: rtranclp_induct)
  case base
  show ?case by (rule iter_sim_start)
next
  case (step r1 r2)
  then show ?case using iter_sim_step [OF step(2) iter_inv_reachable [OF step(1)]] by blast
qed

lemma iter_weight_run: "(iter_step ^^ n) r r' \<Longrightarrow> iter_weight r' + n \<le> iter_weight r"
proof (induction n arbitrary: r')
  case (Suc n)
  then obtain r1 where "(iter_step ^^ n) r r1" "iter_step r1 r'" by auto
  with Suc.IH [of r1] iter_step_weight [of r1 r'] show ?case by simp
qed simp

text \<open>The first three steps of an iterator whose first item is sent: the client gets that item.\<close>

definition primed_run :: "item \<Rightarrow> item list \<Rightarrow> slice \<Rightarrow> slice \<Rightarrow> iter_call list \<Rightarrow> iter_run" where
  "primed_run i is sk ab calls =
     \<lparr>ir_go = GVisit is sk ab, ir_ch = [], ir_closed = False, ir_done = False, ir_pc = KIdle, ir_item = Some i,
      ir_calls = calls, ir_got = [i]\<rparr>"

lemma primed_run_reached:
  assumes "visitor sk ab i = Send"
  shows "iter_step\<^sup>*\<^sup>* (ir_start (i # is, sk, ab) calls) (primed_run i is sk ab calls)"
proof -
  let ?r0 = "ir_start (i # is, sk, ab) calls"
  let ?r1 = "?r0\<lparr>ir_go := GSelect i is sk ab\<rparr>"
  let ?r2 = "?r1\<lparr>ir_go := GVisit is sk ab, ir_ch := ir_ch ?r1 @ [i]\<rparr>"
  let ?r3 = "?r2\<lparr>ir_pc := KIdle, ir_ch := [], ir_item := Some i, ir_got := ir_got ?r2 @ [i]\<rparr>"
  have 1: "iter_step ?r0 ?r1" by (rule visit_send) (simp_all add: ir_start_def assms)
  have 2: "iter_step ?r1 ?r2" by (rule select_send) (simp_all add: ir_start_def chBufferSize_def)
  have 3: "iter_step ?r2 ?r3" by (rule prime_recv) (simp_all add: ir_start_def)
  have 4: "?r3 = primed_run i is sk ab calls" by (simp add: ir_start_def primed_run_def)
  note into = converse_rtranclp_into_rtranclp [where r = iter_step]
  have "iter_step\<^sup>*\<^sup>* ?r0 ?r3" by (rule into [OF 1 into [OF 2 into [OF 3 rtranclp.rtrancl_refl]]])
  then show ?thesis unfolding 4 .
qed

text \<open>An open iterator that alone uses the database.\<close>

lemma sys_one_iterator:
  assumes "\<not> blank (op_start p)" and "\<not> blank (op_end p)" and "iter_step\<^sup>*\<^sup>* (start_run bt p calls) r"
  shows "(sys_step bt)\<^sup>*\<^sup>* (sys_start (op_db p))
    \<lparr>ms_db = op_db p, ms_readers = live (p, r), ms_waiting = [], ms_writer = None, ms_runs = [(p, r)]\<rparr>"
proof -
  let ?s = "\<lparr>ms_db = op_db p, ms_readers = 1, ms_waiting = [], ms_writer = None, ms_runs = [(p, start_run bt p calls)]\<rparr>"
  have "sys_step bt (sys_start (op_db p)) ?s"
    using open_iterator [of "sys_start (op_db p)" p bt calls] assms(1,2) by (simp add: sys_start_def)
  moreover have "(sys_step bt)\<^sup>*\<^sup>* ?s (?s\<lparr>ms_readers := live (p, r), ms_runs := [(p, r)]\<rparr>)"
    by (rule sys_iterate_alone [OF assms(3)]) (auto simp: start_run_def ir_start_def split: prod.splits)
  ultimately show ?thesis by (simp add: converse_rtranclp_into_rtranclp)
qed

section \<open>Properties\<close>

text \<open>
  C5. Concurrency is invisible. However the traversing goroutine, the channel and the client
  interleave, the item a client sees between two calls is the one of the sequential iterator after
  the same calls of \<open>Next\<close> and \<open>Close\<close>, and it panics exactly where the sequential one does.
\<close>

theorem MemDB_iterator_interleaving:
  assumes "iter_step\<^sup>*\<^sup>* (ir_start (traversal bt db start end' reverse) calls) r"
  shows "(ir_pc r = KIdle \<longrightarrow> (\<exists>cs i. calls = cs @ ir_calls r \<and>
      seq_calls cs (newMemDBIteratorMtxChoice bt db start end' reverse useMtx) = Ret i \<and> mi_item i = ir_item r)) \<and>
    (ir_pc r = KPanic \<longrightarrow> (\<exists>cs. calls = cs @ ir_calls r \<and>
      seq_calls cs (newMemDBIteratorMtxChoice bt db start end' reverse useMtx) = Panic ''iterator is invalid''))"
  using iter_inv_reachable [OF assms] iter_sim_reachable [OF assms, of useMtx]
  by (auto simp: iter_sim_def iter_inv_def iter_abs_def Let_def split: if_splits)

lemma mem_example_traversal:
  "traversal list_btree mem_example None None False =
     ([newPair (Some [1]) (Some [10]), newPair (Some [1, 2]) (Some []), newPair (Some [3]) (Some [30])], None, None)"
  by (simp add: traversal_def list_btree_def mem_example_def)

theorem MemDB_iterator_interleaving_witness:
  "\<exists>cs i. [NextCall] = cs @ [NextCall] \<and>
     seq_calls cs (newMemDBIteratorMtxChoice list_btree mem_example None None False True) = Ret i \<and>
     mi_item i = Some (newPair (Some [1]) (Some [10]))"
proof -
  have "iter_step\<^sup>*\<^sup>* (ir_start (traversal list_btree mem_example None None False) [NextCall])
      (primed_run (newPair (Some [1]) (Some [10])) [newPair (Some [1, 2]) (Some []), newPair (Some [3]) (Some [30])] None None [NextCall])"
    unfolding mem_example_traversal by (rule primed_run_reached) (simp add: visitor_def)
  from MemDB_iterator_interleaving [OF this, of True] show ?thesis by (simp add: primed_run_def)
qed

text \<open>
  C7. An iterator never hangs and never leaks once it is closed. The goroutine and a client that
  makes finitely many calls take a bounded number of steps; when nothing can move any more the
  client has made all its calls (or has panicked), and if it closed the iterator, or if the channel
  can hold all items, the goroutine has returned.
\<close>

theorem MemDB_iterator_terminates:
  assumes "(iter_step ^^ n) (ir_start (offered, skipEqual, abortLessThan) calls) r"
  shows "n \<le> 3 * length offered + 2 * length calls + 4 \<and>
    ((\<nexists>r'. iter_step r r') \<longrightarrow>
       (ir_pc r = KIdle \<and> ir_calls r = [] \<or> ir_pc r = KPanic) \<and>
       (ir_done r \<or> length (visited skipEqual abortLessThan offered) \<le> chBufferSize \<longrightarrow> ir_go r = GDone))"
proof -
  let ?items = "visited skipEqual abortLessThan offered"
  have inv: "iter_inv ?items r"
    using iter_inv_reachable [OF relpowp_imp_rtranclp [OF assms]] by (simp add: ir_start_def)
  have "n \<le> 3 * length offered + 2 * length calls + 4"
    using iter_weight_run [OF assms] by (simp add: iter_weight_def ir_start_def)
  moreover have "ir_go r = GDone" if "\<nexists>r'. iter_step r r'" and "ir_done r \<or> length ?items \<le> chBufferSize"
  proof (rule ccontr)
    assume "ir_go r \<noteq> GDone"
    with iter_stuck [OF inv that(1)] have full: "\<not> ir_done r" "length (ir_ch r) = chBufferSize" "go_rest (ir_go r) \<noteq> []"
      by simp_all
    then have "ir_got r @ ir_ch r @ go_rest (ir_go r) = ?items" using inv by (simp add: iter_inv_def pending_def)
    from arg_cong [OF this, of length] full that(2) show False by (cases "go_rest (ir_go r)") simp_all
  qed
  ultimately show ?thesis using iter_stuck [OF inv] by blast
qed

theorem MemDB_iterator_terminates_witness:
  "\<exists>r. (iter_step ^^ 6) (ir_start ([], None, None) [CloseCall]) r \<and> (6 :: nat) \<le> 3 * 0 + 2 * 1 + 4 \<and> ir_go r = GDone"
proof -
  let ?r0 = "ir_start ([], None, None) [CloseCall]"
  let ?r1 = "?r0\<lparr>ir_go := GExit\<rparr>"
  let ?r2 = "?r1\<lparr>ir_go := GClosed, ir_closed := True\<rparr>"
  let ?r3 = "?r2\<lparr>ir_go := GDone\<rparr>"
  let ?r4 = "?r3\<lparr>ir_pc := KIdle\<rparr>"
  let ?r5 = "?r4\<lparr>ir_pc := KDrain, ir_calls := [], ir_done := True\<rparr>"
  let ?r6 = "?r5\<lparr>ir_pc := KIdle, ir_item := None\<rparr>"
  have 1: "iter_step ?r0 ?r1" by (rule visit_end) (simp add: ir_start_def)
  have 2: "iter_step ?r1 ?r2" by (rule close_ch) simp
  have 3: "iter_step ?r2 ?r3" by (rule unlock) simp
  have 4: "iter_step ?r3 ?r4" by (rule prime_closed) (simp_all add: ir_start_def)
  have 5: "iter_step ?r4 ?r5" by (rule call_close) (simp_all add: ir_start_def)
  have 6: "iter_step ?r5 ?r6" by (rule drain_end) (simp_all add: ir_start_def)
  note I = relpowp_Suc_I [where P = iter_step]
  have six: "(6 :: nat) = Suc (Suc (Suc (Suc (Suc (Suc 0)))))" by simp
  have run: "(iter_step ^^ 6) ?r0 ?r6"
    unfolding six by (rule I [OF I [OF I [OF I [OF I [OF I [OF relpowp_0_I 1] 2] 3] 4] 5] 6])
  have "\<not> iter_step ?r6 r'" for r'
    by (rule notI, erule iter_step.cases) (auto simp: ir_start_def)
  then have "ir_go ?r6 = GDone" using MemDB_iterator_terminates [OF run] by simp
  with run show ?thesis by (intro exI [of _ ?r6] conjI) simp_all
qed

text \<open>
  C6. Iterators are isolated from writers. In every reachable state of a database with any number
  of iterators and writers: while the goroutine of an iterator runs, the database is the one the
  iterator was opened on and no writer holds the lock; at most \<open>chBufferSize\<close> items wait in the
  channel; and what its client has received is a prefix of the scan of the database at opening,
  all of it when the iterator has become invalid without being closed.
\<close>

theorem MemDB_iterators_isolated:
  assumes "btree_laws bt bwf" and "MemDB_ok bt bwf db" and "(sys_step bt)\<^sup>*\<^sup>* (sys_start db) s" and "(p, r) \<in> set (ms_runs s)"
  shows "(ir_go r \<noteq> GDone \<longrightarrow> ms_db s = op_db p \<and> ms_writer s = None) \<and> length (ir_ch r) \<le> chBufferSize \<and>
    prefix (map item_kv (ir_got r)) (kv_scan (op_reverse p) (op_start p) (op_end p) (MemDB_ents bt (op_db p))) \<and>
    (ir_pc r = KIdle \<and> ir_item r = None \<and> \<not> ir_done r \<longrightarrow>
       map item_kv (ir_got r) = kv_scan (op_reverse p) (op_start p) (op_end p) (MemDB_ents bt (op_db p)))"
proof -
  have inv: "sys_inv bt bwf s"
    by (rule btree_laws.sys_inv_reachable [OF assms(1,3) btree_laws.sys_inv_start [OF assms(1,2)]])
  then have run: "run_ok bt bwf (ms_db s) (p, r)" using assms(4) by (auto simp: sys_inv_def list_all_iff)
  then have scan: "map item_kv (opened_items bt p) = kv_scan (op_reverse p) (op_start p) (op_end p) (MemDB_ents bt (op_db p))"
    using btree_laws.opened_items_scan [OF assms(1), of p] by (simp add: run_ok_def)
  have "ms_writer s = None" if "ir_go r \<noteq> GDone"
    using no_readers_done [OF _ assms(4)] that inv by (auto simp: sys_inv_def simp del: sum_list_eq_0_iff)
  moreover have "prefix (ir_got r) (opened_items bt p)"
    and "ir_pc r = KIdle \<and> ir_item r = None \<and> \<not> ir_done r \<longrightarrow> ir_got r = opened_items bt p"
    and "length (ir_ch r) \<le> chBufferSize"
    using run iter_inv_got [of "opened_items bt p" r] by (simp_all add: run_ok_def)
  ultimately show ?thesis using run map_mono_prefix [of "ir_got r" _ item_kv] by (auto simp: scan [symmetric] run_ok_def)
qed

definition example_open :: "item list opened" where
  "example_open = \<lparr>op_db = mem_example, op_start = None, op_end = None, op_reverse = False\<rparr>"

definition example_run :: iter_run where
  "example_run = primed_run (newPair (Some [1]) (Some [10]))
     [newPair (Some [1, 2]) (Some []), newPair (Some [3]) (Some [30])] None None [NextCall]"

theorem MemDB_iterators_isolated_witness:
  "(sys_step list_btree)\<^sup>*\<^sup>* (sys_start mem_example)
     \<lparr>ms_db = mem_example, ms_readers = 1, ms_waiting = [], ms_writer = None, ms_runs = [(example_open, example_run)]\<rparr> \<and>
   prefix [([1], [10])] (kv_scan False None None (MemDB_ents list_btree mem_example))"
proof -
  have "iter_step\<^sup>*\<^sup>* (start_run list_btree example_open [NextCall]) example_run"
    unfolding start_run_def example_open_def example_run_def opened.simps mem_example_traversal
    by (rule primed_run_reached) (simp add: visitor_def)
  from sys_one_iterator [OF _ _ this] have reach: "(sys_step list_btree)\<^sup>*\<^sup>* (sys_start mem_example)
     \<lparr>ms_db = mem_example, ms_readers = 1, ms_waiting = [], ms_writer = None, ms_runs = [(example_open, example_run)]\<rparr>"
    by (simp add: live_def example_open_def example_run_def primed_run_def blank_def)
  from MemDB_iterators_isolated [OF list_bt.btree_laws_axioms mem_example_ok reach, of example_open example_run] reach show ?thesis
    by (simp add: example_open_def example_run_def primed_run_def item_kv_def)
qed

text \<open>
  C8. An iterator that is left open with more items than the channel holds blocks the database: from
  the moment a writer waits, no write ever happens and no iterator is ever opened, whatever the
  other clients do. This is why every iterator must be closed, and why writing inside a loop over
  a large domain deadlocks.
\<close>

theorem MemDB_abandoned_iterator_blocks:
  assumes "btree_laws bt bwf" and "MemDB_ok bt bwf db" and "(sys_step bt)\<^sup>*\<^sup>* (sys_start db) s"
    and "j < length (ms_runs s)" and "ms_runs s ! j = (p, r)" and "abandoned r" and "ms_waiting s \<noteq> []"
    and "(sys_step bt)\<^sup>*\<^sup>* s s'"
  shows "ms_db s' = ms_db s \<and> ms_waiting s' \<noteq> [] \<and> length (ms_runs s') = length (ms_runs s)"
  using abandoned_sys_steps [OF assms(1,8) btree_laws.sys_inv_reachable [OF assms(1,3) btree_laws.sys_inv_start [OF assms(1,2)]]
      assms(7,4,5,6)] by blast

definition large_count :: nat where
  "large_count = 68"

definition large_items :: "nat \<Rightarrow> item list" where
  "large_items n = map (\<lambda>m. newPair (Some [of_nat m]) (Some [])) [n..<large_count]"

definition large_db :: "item list MemDB" where
  "large_db = \<lparr>mem_btree = large_items 1\<rparr>"

definition large_open :: "item list opened" where
  "large_open = \<lparr>op_db = large_db, op_start = None, op_end = None, op_reverse = False\<rparr>"

definition large_run :: iter_run where
  "large_run = primed_run (newPair (Some [1]) (Some [])) (large_items 2) None None []"

definition large_sys :: "item list memsys" where
  "large_sys = \<lparr>ms_db = large_db, ms_readers = 1, ms_waiting = [WDelete (Some [1])], ms_writer = None,
     ms_runs = [(large_open, large_run)]\<rparr>"

lemma large_items_Cons: "large_items 1 = newPair (Some [1]) (Some []) # large_items 2"
proof -
  have "[1..<large_count] = 1 # [Suc 1..<large_count]" by (rule upt_conv_Cons) (simp add: large_count_def)
  then show ?thesis unfolding large_items_def Suc_1 by simp
qed

lemma large_db_ok: "MemDB_ok list_btree (sorted_wrt item_Less) large_db"
proof -
  have "(of_nat m :: byte) < of_nat n" if "m < n" "n < large_count" for m n
    using that by (simp add: large_count_def word_less_nat_alt unsigned_of_nat take_bit_eq_mod)
  then have "sorted_wrt (\<lambda>m n. (of_nat m :: byte) < of_nat n) [1..<large_count]"
    by (intro sorted_wrt_mono_rel [OF _ sorted_wrt_upt [of 1 large_count]]) simp
  then have "sorted_wrt item_Less (large_items 1)" by (simp add: large_items_def sorted_wrt_map item_Less_iff)
  moreover have "list_all item_ok (large_items 1)" by (simp add: large_items_def list_all_iff item_ok_def)
  ultimately show ?thesis by (simp add: MemDB_ok_def large_db_def list_btree_def)
qed

lemma large_run_abandoned: "abandoned large_run"
  by (simp add: abandoned_def large_run_def primed_run_def pending_def visited_None chBufferSize_def large_items_def)
     (simp add: large_count_def)

lemma large_sys_reached: "(sys_step list_btree)\<^sup>*\<^sup>* (sys_start large_db) large_sys"
proof -
  have tr: "traversal list_btree large_db None None False = (newPair (Some [1]) (Some []) # large_items 2, None, None)"
    unfolding traversal_def large_db_def large_items_Cons by (simp add: list_btree_def)
  have "iter_step\<^sup>*\<^sup>* (start_run list_btree large_open []) large_run"
    unfolding start_run_def large_open_def large_run_def opened.simps tr
    by (rule primed_run_reached) (simp add: visitor_def)
  from sys_one_iterator [OF _ _ this] have "(sys_step list_btree)\<^sup>*\<^sup>* (sys_start large_db) (large_sys\<lparr>ms_waiting := []\<rparr>)"
    by (simp add: live_def large_open_def large_run_def large_sys_def primed_run_def blank_def)
  moreover have "sys_step list_btree (large_sys\<lparr>ms_waiting := []\<rparr>) large_sys"
    using lock [of "WDelete (Some [1])" list_btree "large_sys\<lparr>ms_waiting := []\<rparr>"] by (simp add: large_sys_def)
  ultimately show ?thesis by (rule rtranclp.rtrancl_into_rtrancl)
qed

theorem MemDB_abandoned_iterator_blocks_witness:
  "(sys_step list_btree)\<^sup>*\<^sup>* (sys_start large_db) large_sys \<and>
   {s'. (sys_step list_btree)\<^sup>*\<^sup>* large_sys s'} \<subseteq> {s'. ms_db s' = large_db \<and> length (ms_runs s') = 1}"
  using MemDB_abandoned_iterator_blocks [OF list_bt.btree_laws_axioms large_db_ok large_sys_reached, of 0 large_open large_run]
    large_run_abandoned large_sys_reached by (auto simp: large_sys_def)

text \<open>
  C33. The read lock is not held until \<open>Close\<close>: when the channel can hold all items of the domain,
  the goroutine may finish before the client has read them, and a write then changes the database
  under an iterator that is still open and at its first item.
\<close>

theorem MemDB_lock_released_before_Close:
  assumes "btree_laws bt bwf" and "MemDB_ok bt bwf db" and "\<not> blank start" and "\<not> blank end'" and "write_ok w"
    and "length (kv_scan reverse start end' (MemDB_ents bt db)) \<le> chBufferSize"
  shows "\<exists>s p r. (sys_step bt)\<^sup>*\<^sup>* (sys_start db) s \<and> ms_runs s = [(p, r)] \<and> ir_pc r = KIdle \<and> \<not> ir_done r \<and>
    iter_abs start end' True r = newMemDBIterator bt db start end' reverse \<and> ms_db s = apply_write bt w db"
proof -
  let ?p = "\<lparr>op_db = db, op_start = start, op_end = end', op_reverse = reverse\<rparr>"
  let ?r0 = "start_run bt ?p []"
  have inv: "iter_inv (opened_items bt ?p) ?r0"
    using run_ok_start [of bt bwf ?p "[]"] assms(2-4) by (simp add: run_ok_def)
  have "map item_kv (pending ?r0) = kv_scan reverse start end' (MemDB_ents bt db)"
    using btree_laws.opened_items_scan [OF assms(1), of ?p] assms(2-4)
    by (simp add: opened_items_def pending_def start_run_def ir_start_def)
  then have "length (pending ?r0) \<le> chBufferSize" using assms(6) by (metis length_map)
  from go_alone [OF this] obtain c where go: "iter_step\<^sup>*\<^sup>* ?r0 (?r0\<lparr>ir_go := GDone, ir_ch := pending ?r0, ir_closed := c\<rparr>)"
    (is "iter_step\<^sup>*\<^sup>* ?r0 ?r1") by blast
  have inv1: "iter_inv (opened_items bt ?p) ?r1"
    using iter_inv_reachable [of _ "[]" ?r1] go by (simp add: start_run_def opened_items_def)
  have pc1: "ir_pc ?r1 = KPrime" "ir_go ?r1 = GDone" "\<not> ir_done ?r1" "ir_closed ?r1"
    using inv1 by (simp_all add: start_run_def ir_start_def iter_inv_def)
  from prime_after_close [OF pc1] obtain r2 where r2: "iter_step ?r1 r2" "ir_pc r2 = KIdle" "ir_go r2 = GDone" "\<not> ir_done r2" .
  have "iter_abs start end' True r2 = iter_abs start end' True ?r1"
    using iter_abs_step [OF r2(1) inv1, of start end' True] pc1(1) r2(2) by (auto simp: iter_visible_def)
  also have "\<dots> = iter_abs start end' True ?r0"
    using pc1 by (simp add: iter_abs_def pending_def Let_def start_run_def ir_start_def)
  also have "\<dots> = newMemDBIterator bt db start end' reverse"
    by (simp add: start_run_def iter_abs_start newMemDBIterator_def)
  finally have abs: "iter_abs start end' True r2 = newMemDBIterator bt db start end' reverse" .
  let ?s = "\<lparr>ms_db = db, ms_readers = 0, ms_waiting = [], ms_writer = None, ms_runs = [(?p, r2)]\<rparr>"
  have run: "(sys_step bt)\<^sup>*\<^sup>* (sys_start db) ?s"
    using sys_one_iterator [of ?p bt "[]" r2] assms(3,4) rtranclp.rtrancl_into_rtrancl [OF go r2(1)] r2(3) by (simp add: live_def)
  have "(sys_step bt)\<^sup>*\<^sup>* (sys_start db) (?s\<lparr>ms_db := apply_write bt w db\<rparr>)"
    using rtranclp_trans [OF run sys_write_alone [OF assms(5), of ?s bt]] by simp
  then show ?thesis using r2(2,4) abs
    by (intro exI [of _ "?s\<lparr>ms_db := apply_write bt w db\<rparr>"] exI [of _ ?p] exI [of _ r2]) simp
qed

theorem MemDB_lock_released_before_Close_witness:
  "\<exists>s p r. (sys_step list_btree)\<^sup>*\<^sup>* (sys_start mem_example) s \<and> ms_runs s = [(p, r)] \<and> ir_pc r = KIdle \<and> \<not> ir_done r \<and>
     iter_abs None None True r = newMemDBIterator list_btree mem_example None None False \<and>
     ms_db s = apply_write list_btree (WDelete (Some [3])) mem_example"
  by (rule MemDB_lock_released_before_Close [OF list_bt.btree_laws_axioms mem_example_ok])
     (simp_all add: blank_def chBufferSize_def kv_scan_def kv_range_def IsKeyInDomain_iff MemDB_ents_def mem_example_def
       list_btree_def)

end
