(* ===== verification/MemDB_Server.thy ===== *)
theory MemDB_Server
  imports RemoteDB_Concurrent MemDB_Concurrent
begin

text \<open>
  The gRPC server over a \<open>MemDB\<close> as it runs: the method of each stream, the iterator that it reads with
  its goroutine and its channel, and the lock that the goroutine shares with the writers. A writer
  that holds the lock while a goroutine traverses the tree is a data race, after which the goroutine
  may see any items: the tree of \<open>github.com/google/btree\<close> is documented as not safe for concurrent
  mutation. The theory shows that the lock rules such races out, so that a stream delivers the content of the
  database at the moment at which its iterator was made.
\<close>

section \<open>One stream\<close>

text \<open>
  The method of a stream: at the head of the loop of \<open>handleIterator\<close> or waiting there for \<open>Next\<close> to return, in the
  call of \<open>Send\<close>, in the deferred \<open>Close\<close> with what the method returns, or returned.
\<close>

datatype mem_handler =
    WLoop
  | WSend PIterator
  | WClose "error option"
  | WReturned "error option"

text \<open>The iterator is kept as what it was asked for, whether it uses the lock, and its run.\<close>

record 't mem_stream =
  ws_opened :: "'t opened"
  ws_useMtx :: bool
  ws_run :: iter_run
  ws_handler :: mem_handler
  ws_flight :: "message list"
  ws_taken :: "message list"
  ws_broken :: "error option"

text \<open>The fields of the iterator between two of its calls, with what is in the channel.\<close>

definition run_iterator :: "'t mem_stream \<Rightarrow> memDBIterator" where
  "run_iterator st =
     \<lparr>mi_ch = ir_ch (ws_run st), mi_item = ir_item (ws_run st), mi_start = op_start (ws_opened st), mi_end = op_end (ws_opened st),
      mi_useMtx = ws_useMtx st\<rparr>"

definition run_idle :: "'t mem_stream \<Rightarrow> bool" where
  "run_idle st \<longleftrightarrow> ir_pc (ws_run st) = KIdle \<and> ir_calls (ws_run st) = []"

definition run_call :: "iter_call \<Rightarrow> 't mem_stream \<Rightarrow> 't mem_stream" where
  "run_call c st = st\<lparr>ws_run := (ws_run st)\<lparr>ir_calls := [c]\<rparr>\<rparr>"

inductive mem_handle_step :: "transport \<Rightarrow> (message list \<Rightarrow> message \<Rightarrow> bool) \<Rightarrow> 't mem_stream \<Rightarrow> 't mem_stream \<Rightarrow> bool"
  for net :: transport and room :: "message list \<Rightarrow> message \<Rightarrow> bool" where
  w_message: "ws_handler st = WLoop \<Longrightarrow> run_idle st \<Longrightarrow> next_message memDBIterator_iface (run_iterator st) = Ret (Some m, i) \<Longrightarrow>
    mem_handle_step net room st (st\<lparr>ws_handler := WSend m\<rparr>)"
| w_finished: "ws_handler st = WLoop \<Longrightarrow> run_idle st \<Longrightarrow> next_message memDBIterator_iface (run_iterator st) = Ret (None, i) \<Longrightarrow>
    mem_handle_step net room st (run_call CloseCall (st\<lparr>ws_handler := WClose None\<rparr>))"
| w_sent: "ws_handler st = WSend m \<Longrightarrow> ws_broken st = None \<Longrightarrow> room (ws_flight st) (nt_wire net (MIterator m)) \<Longrightarrow>
    mem_handle_step net room st
      (run_call NextCall (st\<lparr>ws_handler := WLoop, ws_flight := ws_flight st @ [nt_wire net (MIterator m)]\<rparr>))"
| w_send_failed: "ws_handler st = WSend m \<Longrightarrow> ws_broken st = Some err \<Longrightarrow>
    mem_handle_step net room st (run_call CloseCall (st\<lparr>ws_handler := WClose (Some err)\<rparr>))"
| w_returned: "ws_handler st = WClose e \<Longrightarrow> run_idle st \<Longrightarrow> mem_handle_step net room st (st\<lparr>ws_handler := WReturned e\<rparr>)"

text \<open>What a data race does to the goroutine: the items that it has still to visit become any others.\<close>

inductive race_step :: "go_state \<Rightarrow> go_state \<Rightarrow> bool" where
  "race_step (GVisit is skipEqual abortLessThan) (GVisit is' skipEqual abortLessThan)"
| "race_step (GSelect i is skipEqual abortLessThan) (GSelect i is' skipEqual abortLessThan)"

section \<open>The server\<close>

text \<open>
  The database with its lock, its writers and the iterators opened inside the process; the streams; and the
  errors of the methods that got no iterator.
\<close>

record 't mem_server =
  sv_mem :: "'t memsys"
  sv_streams :: "'t mem_stream list"
  sv_refused :: "error list"

text \<open>The streams whose goroutine holds the read lock.\<close>

definition holds_lock :: "'t mem_stream \<Rightarrow> bool" where
  "holds_lock st \<longleftrightarrow> ws_useMtx st \<and> ir_go (ws_run st) \<noteq> GDone"

definition new_mem_stream :: "'t btree_ops \<Rightarrow> 't MemDB \<Rightarrow> bool \<Rightarrow> Entity \<Rightarrow> bool \<Rightarrow> 't mem_stream" where
  "new_mem_stream bt db reverse q useMtx =
     (let p = \<lparr>op_db = db, op_start = en_Start q, op_end = en_End q, op_reverse = reverse\<rparr>
      in \<lparr>ws_opened = p, ws_useMtx = useMtx, ws_run = start_run bt p [], ws_handler = WLoop, ws_flight = [], ws_taken = [],
          ws_broken = None\<rparr>)"

text \<open>
  The events: a request arrives and the database is asked for an iterator; the method of a stream
  moves; its iterator moves, the goroutine or a call that the method has made; the goroutine races with
  a writer; the client receives; the stream breaks; or a writer or an iterator inside the process moves.
\<close>

datatype mem_event =
    MOpen bool Entity
  | MServe nat
  | MRun nat
  | MRace nat
  | MRecv nat
  | MBreak nat error
  | MLocal

inductive mem_server_step ::
  "transport \<Rightarrow> 't btree_ops \<Rightarrow> (message list \<Rightarrow> message \<Rightarrow> bool) \<Rightarrow> mem_event \<Rightarrow> 't mem_server \<Rightarrow> 't mem_server \<Rightarrow> bool"
  for net :: transport and bt :: "'t btree_ops" and room :: "message list \<Rightarrow> message \<Rightarrow> bool" where
  m_open: "m = sv_mem v \<Longrightarrow>
    (if reverse then MemDB_ReverseIterator bt (ms_db m) (en_Start q) (en_End q)
     else MemDB_Iterator bt (ms_db m) (en_Start q) (en_End q)) = Ret (Some i, None) \<Longrightarrow>
    mi_useMtx i \<longrightarrow> ms_writer m = None \<and> (ms_waiting m = [] \<or> ms_readers m = 0) \<Longrightarrow>
    mem_server_step net bt room (MOpen reverse q) v
      (v\<lparr>sv_mem := m\<lparr>ms_readers := ms_readers m + (if mi_useMtx i then 1 else 0)\<rparr>,
         sv_streams := sv_streams v @ [new_mem_stream bt (ms_db m) reverse q (mi_useMtx i)]\<rparr>)"
| m_refused: "m = sv_mem v \<Longrightarrow>
    (if reverse then MemDB_ReverseIterator bt (ms_db m) (en_Start q) (en_End q)
     else MemDB_Iterator bt (ms_db m) (en_Start q) (en_End q)) = Ret (x, Some err) \<Longrightarrow>
    mem_server_step net bt room (MOpen reverse q) v (v\<lparr>sv_refused := sv_refused v @ [err]\<rparr>)"
| m_serve: "j < length (sv_streams v) \<Longrightarrow> mem_handle_step net room (sv_streams v ! j) st \<Longrightarrow>
    mem_server_step net bt room (MServe j) v (v\<lparr>sv_streams := (sv_streams v)[j := st]\<rparr>)"
| m_run: "j < length (sv_streams v) \<Longrightarrow> st = sv_streams v ! j \<Longrightarrow> iter_step (ws_run st) r \<Longrightarrow> m = sv_mem v \<Longrightarrow>
    mem_server_step net bt room (MRun j) v
      (v\<lparr>sv_mem := m\<lparr>ms_readers := ms_readers m - (if holds_lock st \<and> ir_go r = GDone then 1 else 0)\<rparr>,
         sv_streams := (sv_streams v)[j := st\<lparr>ws_run := r\<rparr>]\<rparr>)"
| m_race: "j < length (sv_streams v) \<Longrightarrow> st = sv_streams v ! j \<Longrightarrow> ms_writer (sv_mem v) \<noteq> None \<Longrightarrow>
    race_step (ir_go (ws_run st)) g \<Longrightarrow>
    mem_server_step net bt room (MRace j) v (v\<lparr>sv_streams := (sv_streams v)[j := st\<lparr>ws_run := (ws_run st)\<lparr>ir_go := g\<rparr>\<rparr>]\<rparr>)"
| m_recv: "j < length (sv_streams v) \<Longrightarrow> st = sv_streams v ! j \<Longrightarrow> ws_broken st = None \<Longrightarrow> ws_flight st = x # xs \<Longrightarrow>
    mem_server_step net bt room (MRecv j) v
      (v\<lparr>sv_streams := (sv_streams v)[j := st\<lparr>ws_flight := xs, ws_taken := ws_taken st @ [x]\<rparr>]\<rparr>)"
| m_break: "j < length (sv_streams v) \<Longrightarrow> st = sv_streams v ! j \<Longrightarrow> ws_broken st = None \<Longrightarrow>
    mem_server_step net bt room (MBreak j err) v (v\<lparr>sv_streams := (sv_streams v)[j := st\<lparr>ws_broken := Some err\<rparr>]\<rparr>)"
| m_local: "sys_step bt (sv_mem v) m \<Longrightarrow> mem_server_step net bt room MLocal v (v\<lparr>sv_mem := m\<rparr>)"

definition mem_server_start :: "'t MemDB \<Rightarrow> 't mem_server" where
  "mem_server_start db = \<lparr>sv_mem = sys_start db, sv_streams = [], sv_refused = []\<rparr>"

inductive mem_server_run ::
  "transport \<Rightarrow> 't btree_ops \<Rightarrow> (message list \<Rightarrow> message \<Rightarrow> bool) \<Rightarrow> mem_event list \<Rightarrow> 't mem_server \<Rightarrow> 't mem_server \<Rightarrow> bool"
  for net :: transport and bt :: "'t btree_ops" and room :: "message list \<Rightarrow> message \<Rightarrow> bool" where
  mrun_nil [simp, intro!]: "mem_server_run net bt room [] v v"
| mrun_snoc: "mem_server_run net bt room evs v v' \<Longrightarrow> mem_server_step net bt room ev v' v'' \<Longrightarrow>
    mem_server_run net bt room (evs @ [ev]) v v''"

text \<open>The events in which stream \<open>j\<close> moves on.\<close>

definition stream_events :: "nat \<Rightarrow> mem_event list \<Rightarrow> mem_event list" where
  "stream_events j evs = filter (\<lambda>ev. ev = MServe j \<or> ev = MRun j \<or> ev = MRecv j) evs"

section \<open>What one stream delivers\<close>

definition item_message :: "'t opened \<Rightarrow> item \<Rightarrow> message" where
  "item_message p i = pair_message (op_start p, op_end p) (item_kv i)"

text \<open>
  How far the method, its calls and what the iterator has received are: while the iterator stands at an item, that item
  is not sent yet; once \<open>Next\<close> is called, it is.
\<close>

fun handle_ok :: "('t opened \<Rightarrow> item \<Rightarrow> message) \<Rightarrow> 't opened \<Rightarrow> item list \<Rightarrow> message list \<Rightarrow> iter_run \<Rightarrow> mem_handler \<Rightarrow> bool" where
  "handle_ok f p items sent r WLoop \<longleftrightarrow> \<not> ir_done r \<and>
     (ir_pc r = KPrime \<and> ir_calls r = [] \<and> sent = [] \<or>
      ir_pc r = KIdle \<and> ir_calls r = [] \<and> sent = map (f p) (if ir_item r = None then ir_got r else butlast (ir_got r)) \<or>
      ir_pc r = KIdle \<and> ir_calls r = [NextCall] \<and> ir_item r \<noteq> None \<and> sent = map (f p) (ir_got r) \<or>
      ir_pc r = KNext \<and> ir_calls r = [] \<and> sent = map (f p) (ir_got r))"
| "handle_ok f p items sent r (WSend m) \<longleftrightarrow> \<not> ir_done r \<and> ir_pc r = KIdle \<and> ir_calls r = [] \<and>
     (\<exists>x. ir_item r = Some x \<and> m = pair_msg (op_start p, op_end p) (item_kv x)) \<and> sent = map (f p) (butlast (ir_got r))"
| "handle_ok f p items sent r (WClose e) \<longleftrightarrow> prefix sent (map (f p) items) \<and> (e = None \<longrightarrow> sent = map (f p) items) \<and>
     (\<not> ir_done r \<and> ir_pc r = KIdle \<and> ir_calls r = [CloseCall] \<or> ir_done r \<and> ir_pc r = KDrain \<and> ir_calls r = [] \<or>
      ir_done r \<and> ir_pc r = KIdle \<and> ir_calls r = [] \<and> ir_closed r)"
| "handle_ok f p items sent r (WReturned e) \<longleftrightarrow> prefix sent (map (f p) items) \<and> (e = None \<longrightarrow> sent = map (f p) items) \<and>
     ir_done r \<and> ir_pc r = KIdle \<and> ir_calls r = [] \<and> ir_closed r"

definition item_last :: "iter_run \<Rightarrow> bool" where
  "item_last r \<longleftrightarrow> (\<forall>x. ir_item r = Some x \<and> \<not> ir_done r \<longrightarrow> ir_got r \<noteq> [] \<and> last (ir_got r) = x)"

lemma item_last_step: "iter_step r r' \<Longrightarrow> item_last r \<Longrightarrow> item_last r'"
  by (induction rule: iter_step.induct) (auto simp: item_last_def)

lemma handle_ok_loop_step:
  assumes "iter_step r r'" and "ir_pc r = KPrime \<Longrightarrow> ir_item r = None \<and> ir_got r = []" and "handle_ok f p items sent r WLoop"
  shows "handle_ok f p items sent r' WLoop"
  using assms by (induction rule: iter_step.induct) (simp_all, auto)

lemma handle_ok_step:
  assumes "iter_step r r'" and "iter_inv items r" and "handle_ok f p items sent r h"
  shows "handle_ok f p items sent r' h"
proof (cases h)
  case WLoop
  with assms show ?thesis using handle_ok_loop_step [OF assms(1)] by (simp only: iter_inv_def) blast
next
  case (WSend m)
  from assms(1,3) [unfolded WSend] show ?thesis unfolding WSend by (induction rule: iter_step.induct) simp_all
next
  case (WClose e)
  from assms(1,3) [unfolded WClose] show ?thesis unfolding WClose by (induction rule: iter_step.induct) auto
next
  case (WReturned e)
  from assms(1,3) [unfolded WReturned] show ?thesis unfolding WReturned by (induction rule: iter_step.induct) simp_all
qed

lemma run_ok_calls [simp]: "run_ok bt bwf db (p, r\<lparr>ir_calls := cs\<rparr>) \<longleftrightarrow> run_ok bt bwf db (p, r)"
  by (simp add: run_ok_def iter_inv_def pending_def)

definition wstream_ok :: "'t btree_ops \<Rightarrow> ('t \<Rightarrow> bool) \<Rightarrow> 't MemDB \<Rightarrow> 't mem_stream \<Rightarrow> bool" where
  "wstream_ok bt bwf db st \<longleftrightarrow>
     ws_useMtx st \<and> run_ok bt bwf db (ws_opened st, ws_run st) \<and> item_last (ws_run st) \<and>
     handle_ok item_message (ws_opened st) (opened_items bt (ws_opened st)) (ws_taken st @ ws_flight st) (ws_run st) (ws_handler st)"

lemma wstream_run_step:
  assumes "iter_step (ws_run st) r" and "wstream_ok bt bwf db st"
  shows "wstream_ok bt bwf db (st\<lparr>ws_run := r\<rparr>)"
  using assms run_ok_step [OF assms(1)] item_last_step [OF assms(1)] handle_ok_step [OF assms(1)]
  by (auto simp: wstream_ok_def run_ok_def)

lemma wstream_prefix:
  assumes "wstream_ok bt bwf db st"
  shows "prefix (ws_taken st @ ws_flight st) (map (item_message (ws_opened st)) (opened_items bt (ws_opened st)))"
proof -
  have "prefix (ir_got (ws_run st)) (opened_items bt (ws_opened st))"
    using assms iter_inv_got(1) by (auto simp: wstream_ok_def run_ok_def)
  moreover from this have "prefix (butlast (ir_got (ws_run st))) (opened_items bt (ws_opened st))"
    by (meson prefix_order.trans prefixeq_butlast)
  ultimately show ?thesis
    using assms by (cases "ws_handler st") (auto simp: wstream_ok_def intro: map_mono_prefix)
qed

context btree_laws
begin

lemma opened_items_ok:
  assumes "MemDB_ok bt bwf (op_db p)" and "\<not> blank (op_start p)" and "\<not> blank (op_end p)"
  shows "list_all item_ok (opened_items bt p)"
  using iterator_rest(2) [OF assms, of "op_reverse p" True]
  by (auto simp: opened_items_def start_run_def ir_start_def newMemDBIteratorMtxChoice_def memDBIterator_ok_def Let_def
      split: prod.splits list.splits)

lemma run_iterator_ok:
  assumes "wstream_ok bt bwf db st" and "\<not> ir_done (ws_run st)"
  shows "memDBIterator_ok (run_iterator st)"
proof -
  have "list_all item_ok (ir_got (ws_run st) @ pending (ws_run st))"
    using assms opened_items_ok [of "ws_opened st"] by (auto simp: wstream_ok_def run_ok_def iter_inv_def)
  then show ?thesis
    using assms by (cases "ir_item (ws_run st)")
      (auto simp: memDBIterator_ok_def run_iterator_def pending_def wstream_ok_def item_last_def list_all_iff)
qed

lemma run_iterator_message:
  assumes "wstream_ok bt bwf db st" and "\<not> ir_done (ws_run st)"
    and "next_message memDBIterator_iface (run_iterator st) = Ret (x, i)"
  shows "case ir_item (ws_run st) of
      None \<Rightarrow> x = None
    | Some y \<Rightarrow> x = Some (pair_msg (op_start (ws_opened st), op_end (ws_opened st)) (item_kv y))"
proof (cases "ir_item (ws_run st)")
  case None
  then have "memDBIterator_rest (run_iterator st) = []" by (simp add: memDBIterator_rest_def run_iterator_def)
  with mem_it.next_message_end [OF run_iterator_ok [OF assms(1,2)]] assms(3) None show ?thesis by auto
next
  case (Some y)
  then have "memDBIterator_rest (run_iterator st) = item_kv y # map item_kv (ir_ch (ws_run st))"
    by (simp add: memDBIterator_rest_def run_iterator_def)
  moreover have "I_Domain memDBIterator_iface (run_iterator st) = (op_start (ws_opened st), op_end (ws_opened st))"
    by (simp add: memDBIterator_defs run_iterator_def)
  ultimately show ?thesis
    using mem_it.next_message_pair [OF run_iterator_ok [OF assms(1,2)]] assms(3) Some by auto
qed

lemma wstream_handle_step:
  assumes "grpc_laws net" and "mem_handle_step net room st st'" and "wstream_ok bt bwf db st"
  shows "wstream_ok bt bwf db st' \<and> holds_lock st' = holds_lock st"
  using assms(2,3)
proof (induction rule: mem_handle_step.induct)
  case (w_message st m i)
  with run_iterator_message [OF w_message.prems _ w_message(3)] show ?case
    by (auto simp: wstream_ok_def run_idle_def holds_lock_def split: option.splits)
next
  case (w_finished st i)
  then have "\<not> ir_done (ws_run st)" by (simp add: wstream_ok_def)
  with run_iterator_message [OF w_finished.prems _ w_finished(3)] have item: "ir_item (ws_run st) = None"
    by (auto split: option.splits)
  with w_finished have "ir_got (ws_run st) = opened_items bt (ws_opened st)"
    using iter_inv_got(2) by (auto simp: wstream_ok_def run_ok_def run_idle_def)
  with w_finished item show ?case by (auto simp: wstream_ok_def run_idle_def run_call_def holds_lock_def item_last_def)
next
  case (w_sent st m)
  then obtain x where x: "ir_item (ws_run st) = Some x" "m = pair_msg (op_start (ws_opened st), op_end (ws_opened st)) (item_kv x)"
    "ir_got (ws_run st) = butlast (ir_got (ws_run st)) @ [x]"
    by (auto simp: wstream_ok_def item_last_def)
  then have "map (item_message (ws_opened st)) (ir_got (ws_run st)) =
      map (item_message (ws_opened st)) (butlast (ir_got (ws_run st))) @ [item_message (ws_opened st) x]"
    by (metis list.simps(8,9) map_append)
  moreover have "nt_wire net (MIterator m) = item_message (ws_opened st) x"
    using grpc_laws.wire [OF assms(1), of "MIterator m"] x(2) by (simp add: item_message_def pair_message_def)
  ultimately show ?case using w_sent x by (auto simp: wstream_ok_def run_call_def holds_lock_def item_last_def)
next
  case (w_send_failed st m err)
  with wstream_prefix [OF w_send_failed.prems] show ?case
    by (auto simp: wstream_ok_def run_call_def holds_lock_def item_last_def)
next
  case (w_returned st e)
  then show ?case by (auto simp: wstream_ok_def run_idle_def holds_lock_def)
qed

end

section \<open>The invariant of the server\<close>

definition lock_count :: "'t mem_stream \<Rightarrow> nat" where
  "lock_count st = (if holds_lock st then 1 else 0)"

definition server_inv :: "'t btree_ops \<Rightarrow> ('t \<Rightarrow> bool) \<Rightarrow> 't mem_server \<Rightarrow> bool" where
  "server_inv bt bwf v \<longleftrightarrow>
     (let m = sv_mem v in
        MemDB_ok bt bwf (ms_db m) \<and>
        ms_readers m = sum_list (map live (ms_runs m)) + sum_list (map lock_count (sv_streams v)) \<and>
        (ms_writer m \<noteq> None \<longrightarrow> ms_readers m = 0) \<and> list_all write_ok (ms_waiting m) \<and> pred_option write_ok (ms_writer m) \<and>
        list_all (wstream_ok bt bwf (ms_db m)) (sv_streams v))"

lemma lock_count_update:
  assumes "j < length sts" and "lock_count st = lock_count (sts ! j)"
  shows "sum_list (map lock_count (sts[j := st])) = sum_list (map lock_count sts)"
  using assms elem_le_sum_list [of j "map lock_count sts"] by (simp add: map_update sum_list_update)

lemma server_inv_streams:
  assumes "server_inv bt bwf v" and "j < length (sv_streams v)" and "wstream_ok bt bwf (ms_db (sv_mem v)) st"
    and "holds_lock st = holds_lock (sv_streams v ! j)"
  shows "server_inv bt bwf (v\<lparr>sv_streams := (sv_streams v)[j := st]\<rparr>)"
  using assms lock_count_update [OF assms(2), of st]
  by (auto simp: server_inv_def Let_def lock_count_def list_all_iff simp del: sum_list_eq_0_iff
      dest!: subsetD [OF set_update_subset_insert])

lemma server_inv_nth: "server_inv bt bwf v \<Longrightarrow> j < length (sv_streams v) \<Longrightarrow> wstream_ok bt bwf (ms_db (sv_mem v)) (sv_streams v ! j)"
  by (simp add: server_inv_def Let_def list_all_length)

text \<open>A writer has the tree for itself.\<close>

lemma writer_alone:
  assumes "server_inv bt bwf v" and "st \<in> set (sv_streams v)" and "ms_readers (sv_mem v) = 0"
  shows "ir_go (ws_run st) = GDone"
proof -
  have "lock_count st = 0" using assms by (auto simp: server_inv_def Let_def)
  moreover have "ws_useMtx st" using assms by (auto simp: server_inv_def Let_def list_all_iff wstream_ok_def)
  ultimately show ?thesis by (simp add: lock_count_def holds_lock_def split: if_splits)
qed

lemma server_inv_run:
  assumes "server_inv bt bwf v" and "j < length (sv_streams v)" and "st = sv_streams v ! j" and "iter_step (ws_run st) r"
    and "m = sv_mem v"
  shows "server_inv bt bwf (v\<lparr>sv_mem := m\<lparr>ms_readers := ms_readers m - (if holds_lock st \<and> ir_go r = GDone then 1 else 0)\<rparr>,
    sv_streams := (sv_streams v)[j := st\<lparr>ws_run := r\<rparr>]\<rparr>)"
proof -
  have ok: "wstream_ok bt bwf (ms_db m) (st\<lparr>ws_run := r\<rparr>)"
    using wstream_run_step [OF assms(4)] server_inv_nth [OF assms(1,2)] assms(3,5) by simp
  have "lock_count (sv_streams v ! j) \<le> sum_list (map lock_count (sv_streams v))"
    using elem_le_sum_list [of j "map lock_count (sv_streams v)"] assms(2) by simp
  moreover have "lock_count (st\<lparr>ws_run := r\<rparr>) = lock_count st - (if holds_lock st \<and> ir_go r = GDone then 1 else 0)"
    using iter_done_stays [OF assms(4)] by (auto simp: lock_count_def holds_lock_def)
  ultimately have "sum_list (map lock_count ((sv_streams v)[j := st\<lparr>ws_run := r\<rparr>])) =
      sum_list (map lock_count (sv_streams v)) - (if holds_lock st \<and> ir_go r = GDone then 1 else 0)"
    using assms(2,3) by (auto simp: map_update sum_list_update lock_count_def simp del: sum_list_eq_0_iff)
  moreover have "holds_lock st \<Longrightarrow> 1 \<le> sum_list (map lock_count (sv_streams v))"
    using elem_le_sum_list [of j "map lock_count (sv_streams v)"] assms(2,3) by (simp add: lock_count_def del: sum_list_eq_0_iff)
  ultimately show ?thesis
    using assms(1,5) ok
    by (auto simp: server_inv_def Let_def list_all_iff simp del: sum_list_eq_0_iff dest!: subsetD [OF set_update_subset_insert])
qed

lemma opened_useMtx:
  assumes "(if reverse then MemDB_ReverseIterator bt db start end' else MemDB_Iterator bt db start end') = Ret (Some i, None)"
  shows "mi_useMtx i" and "\<not> blank start" and "\<not> blank end'"
  using assms
  by (auto simp: MemDB_Iterator_def MemDB_ReverseIterator_def newMemDBIterator_def newMemDBIteratorMtxChoice_def Let_def
      split: if_splits prod.splits list.splits)

context btree_laws
begin

lemma server_inv_open:
  assumes "server_inv bt bwf v" and "m = sv_mem v" and "\<not> blank (en_Start q)" and "\<not> blank (en_End q)" and "ms_writer m = None"
  shows "server_inv bt bwf (v\<lparr>sv_mem := m\<lparr>ms_readers := ms_readers m + 1\<rparr>,
    sv_streams := sv_streams v @ [new_mem_stream bt (ms_db m) reverse q True]\<rparr>)"
proof -
  let ?st = "new_mem_stream bt (ms_db m) reverse q True"
  have "run_ok bt bwf (ms_db m) (ws_opened ?st, ws_run ?st)"
    using run_ok_start [of bt bwf "ws_opened ?st" "[]"] assms by (simp add: new_mem_stream_def Let_def server_inv_def)
  then have "wstream_ok bt bwf (ms_db m) ?st"
    by (simp add: wstream_ok_def new_mem_stream_def Let_def item_last_def start_run_def ir_start_def)
  moreover have "lock_count ?st = 1"
    by (simp add: lock_count_def holds_lock_def new_mem_stream_def Let_def start_run_def ir_start_def split: prod.splits)
  ultimately show ?thesis using assms by (simp add: server_inv_def Let_def)
qed

lemma server_inv_local:
  assumes "sys_step bt (sv_mem v) m" and "server_inv bt bwf v"
  shows "server_inv bt bwf (v\<lparr>sv_mem := m\<rparr>)"
  using assms(1)
proof cases
  case (open_iterator p calls)
  then show ?thesis
    using assms(2) by (simp add: server_inv_def Let_def live_def start_run_def ir_start_def split: prod.splits)
next
  case (iterate j p r r')
  moreover have "live (p, r) \<le> sum_list (map live (ms_runs (sv_mem v)))"
    using elem_le_sum_list [of j "map live (ms_runs (sv_mem v))"] iterate by simp
  ultimately show ?thesis
    using assms(2) live_update [OF iterate(2-4)] by (auto simp: server_inv_def Let_def live_def simp del: sum_list_eq_0_iff)
next
  case (written w)
  then have "wstream_ok bt bwf (apply_write bt w (ms_db (sv_mem v))) st" if "st \<in> set (sv_streams v)" for st
    using that assms(2) writer_alone [OF assms(2) that]
    by (auto simp: server_inv_def Let_def list_all_iff wstream_ok_def run_ok_def)
  with written assms(2) show ?thesis by (simp add: server_inv_def Let_def list_all_iff apply_write_ok)
qed (use assms(2) in \<open>auto simp: server_inv_def Let_def\<close>)

lemma server_inv_step:
  assumes "grpc_laws net" and "mem_server_step net bt room ev v v'" and "server_inv bt bwf v"
  shows "server_inv bt bwf v'"
  using assms(2,3)
proof (induction rule: mem_server_step.induct)
  case (m_open m v reverse q i)
  from server_inv_open [OF m_open.prems m_open(1)] opened_useMtx [OF m_open(2)] m_open(3) show ?case by simp
next
  case (m_serve j v st)
  from wstream_handle_step [OF assms(1) m_serve(2) server_inv_nth [OF m_serve.prems m_serve(1)]]
  show ?case using server_inv_streams [OF m_serve.prems m_serve(1)] by blast
next
  case (m_run j v st r m)
  then show ?case by (intro server_inv_run)
next
  case (m_race j v st g)
  then have "ir_go (ws_run st) = GDone" by (intro writer_alone) (auto simp: server_inv_def Let_def)
  with m_race show ?case by (simp add: race_step.simps)
next
  case (m_recv j v st x xs)
  then show ?case using server_inv_nth [of bt bwf v j] by (intro server_inv_streams) (auto simp: wstream_ok_def holds_lock_def)
next
  case (m_break j v st err)
  then show ?case using server_inv_nth [of bt bwf v j] by (intro server_inv_streams) (auto simp: wstream_ok_def holds_lock_def)
next
  case (m_local v m)
  then show ?case by (rule server_inv_local)
qed (simp add: server_inv_def)

lemma server_inv_reachable:
  assumes "grpc_laws net" and "mem_server_run net bt room evs v v'" and "server_inv bt bwf v"
  shows "server_inv bt bwf v'"
  using assms(2,3) by (induction rule: mem_server_run.induct) (auto intro: server_inv_step [OF assms(1)])

end

text \<open>A stream stays the one that was opened.\<close>

lemma opened_step:
  assumes "mem_server_step net bt room ev v v'" and "j < length (sv_streams v)"
  shows "j < length (sv_streams v') \<and> ws_opened (sv_streams v' ! j) = ws_opened (sv_streams v ! j)"
  using assms
  by (induction rule: mem_server_step.induct)
     (auto simp: nth_append nth_list_update run_call_def elim!: mem_handle_step.cases)

lemma opened_run:
  assumes "mem_server_run net bt room evs v v'" and "j < length (sv_streams v)"
  shows "j < length (sv_streams v') \<and> ws_opened (sv_streams v' ! j) = ws_opened (sv_streams v ! j)"
  using assms by (induction rule: mem_server_run.induct) (auto dest: opened_step)

section \<open>A stream ends\<close>

text \<open>Every event of a stream decreases this number; a message that is not sent yet counts five.\<close>

fun whandler_weight :: "nat \<Rightarrow> mem_handler \<Rightarrow> nat" where
  "whandler_weight n WLoop = 5 * n + 5"
| "whandler_weight n (WSend m) = 5 * n + 4"
| "whandler_weight n (WClose e) = 2"
| "whandler_weight n (WReturned e) = 0"

definition wstream_weight :: "'t btree_ops \<Rightarrow> 't mem_stream \<Rightarrow> nat" where
  "wstream_weight bt st =
     whandler_weight (length (opened_items bt (ws_opened st)) - length (ws_taken st @ ws_flight st)) (ws_handler st) +
     iter_weight (ws_run st) + length (ws_flight st)"

lemma unsent_item:
  assumes "wstream_ok bt bwf db st" and "ws_handler st = WSend m"
  shows "length (ws_taken st @ ws_flight st) < length (opened_items bt (ws_opened st))"
proof -
  have "prefix (ir_got (ws_run st)) (opened_items bt (ws_opened st))"
    using assms(1) iter_inv_got(1) by (auto simp: wstream_ok_def run_ok_def)
  then have "length (ir_got (ws_run st)) \<le> length (opened_items bt (ws_opened st))" by (rule prefix_length_le)
  moreover have "length (ws_taken st @ ws_flight st) = length (ir_got (ws_run st)) - 1" "ir_got (ws_run st) \<noteq> []"
    using assms by (auto simp: wstream_ok_def item_last_def simp del: length_append)
  ultimately show ?thesis by (cases "ir_got (ws_run st)") auto
qed

lemma handle_step_weight:
  assumes "mem_handle_step net room st st'" and "wstream_ok bt bwf db st"
  shows "wstream_weight bt st' < wstream_weight bt st"
  using assms
proof (induction rule: mem_handle_step.induct)
  case (w_sent st m)
  then have "ir_calls (ws_run st) = []" by (simp add: wstream_ok_def)
  with w_sent unsent_item [OF w_sent.prems w_sent(1)] show ?case by (auto simp: wstream_weight_def run_call_def iter_weight_def)
next
  case (w_send_failed st m err)
  then have "ir_calls (ws_run st) = []" by (simp add: wstream_ok_def)
  with w_send_failed unsent_item [OF w_send_failed.prems w_send_failed(1)] show ?case
    by (simp add: wstream_weight_def run_call_def iter_weight_def)
qed (auto simp: wstream_weight_def run_call_def iter_weight_def wstream_ok_def run_idle_def)

lemma server_step_weight:
  assumes "mem_server_step net bt room ev v v'" and "server_inv bt bwf v" and "j < length (sv_streams v)"
  shows "wstream_weight bt (sv_streams v' ! j) + length (stream_events j [ev]) \<le> wstream_weight bt (sv_streams v ! j)"
  using assms
proof (induction rule: mem_server_step.induct)
  case (m_serve k v st)
  with handle_step_weight [OF m_serve(2) server_inv_nth [OF m_serve.prems(1) m_serve(1)]] show ?case
    by (auto simp: stream_events_def nth_list_update)
next
  case (m_run k v st r m)
  with iter_step_weight [OF m_run(3)] show ?case by (auto simp: stream_events_def nth_list_update wstream_weight_def)
next
  case (m_race k v st g)
  then have "ir_go (ws_run st) = GDone" by (intro writer_alone) (auto simp: server_inv_def Let_def)
  with m_race show ?case by (simp add: race_step.simps)
next
  case (m_recv k v st x xs)
  then show ?case by (auto simp: stream_events_def nth_list_update wstream_weight_def)
qed (auto simp: stream_events_def nth_list_update nth_append wstream_weight_def)

context btree_laws
begin

lemma server_run_weight:
  assumes "grpc_laws net" and "mem_server_run net bt room evs v v'" and "server_inv bt bwf v" and "j < length (sv_streams v)"
  shows "wstream_weight bt (sv_streams v' ! j) + length (stream_events j evs) \<le> wstream_weight bt (sv_streams v ! j)"
  using assms(2-4)
proof (induction rule: mem_server_run.induct)
  case (mrun_snoc evs v v' ev v'')
  have "server_inv bt bwf v'" "j < length (sv_streams v')"
    using server_inv_reachable [OF assms(1) mrun_snoc(1)] opened_run [OF mrun_snoc(1)] mrun_snoc.prems by auto
  from server_step_weight [OF mrun_snoc(2) this] mrun_snoc.IH mrun_snoc.prems show ?case by (simp add: stream_events_def)
qed (simp add: stream_events_def)

text \<open>No method waits for ever: the stream itself, its iterator or its client can move.\<close>

lemma handle_progress:
  assumes "wstream_ok bt bwf db st" and "\<nexists>r. iter_step (ws_run st) r" and "\<And>m. ws_broken st \<noteq> None \<or> room (ws_flight st) m"
    and "\<forall>e. ws_handler st \<noteq> WReturned e"
  shows "\<exists>st'. mem_handle_step net room st st'"
proof -
  have "iter_inv (opened_items bt (ws_opened st)) (ws_run st)" using assms(1) by (simp add: wstream_ok_def run_ok_def)
  from iter_stuck [OF this assms(2)] have idle: "run_idle st"
    using assms(1) by (cases "ws_handler st") (auto simp: run_idle_def wstream_ok_def)
  show ?thesis
  proof (cases "ws_handler st")
    case WLoop
    with assms(1) have "\<not> ir_done (ws_run st)" by (simp add: wstream_ok_def)
    note ok = run_iterator_ok [OF assms(1) this]
    obtain x i where "next_message memDBIterator_iface (run_iterator st) = Ret (x, i)"
      using mem_it.next_message_end [OF ok] mem_it.next_message_pair [OF ok] by (cases "memDBIterator_rest (run_iterator st)") blast+
    then show ?thesis using w_message [OF WLoop idle] w_finished [OF WLoop idle] by (cases x) blast+
  next
    case (WSend m)
    then show ?thesis using w_sent [OF WSend] w_send_failed [OF WSend] assms(3) by (cases "ws_broken st") blast+
  next
    case (WClose e)
    then show ?thesis using w_returned [OF WClose idle] by blast
  qed (use assms(4) in blast)
qed

lemma server_progress:
  assumes "server_inv bt bwf v" and "j < length (sv_streams v)" and "\<And>m. room [] m"
    and "\<forall>e. ws_handler (sv_streams v ! j) \<noteq> WReturned e"
  shows "\<exists>ev v'. ev \<in> {MServe j, MRun j, MRecv j} \<and> mem_server_step net bt room ev v v'"
proof (cases "\<exists>r. iter_step (ws_run (sv_streams v ! j)) r")
  case True
  then show ?thesis using m_run [OF assms(2) refl _ refl] by blast
next
  case stuck: False
  show ?thesis
  proof (cases "ws_broken (sv_streams v ! j) = None \<and> ws_flight (sv_streams v ! j) \<noteq> []")
    case True
    then show ?thesis using m_recv [OF assms(2) refl] by (metis insertCI neq_Nil_conv)
  next
    case False
    have "\<exists>st'. mem_handle_step net room (sv_streams v ! j) st'"
      by (rule handle_progress [OF server_inv_nth [OF assms(1,2)] stuck _ assms(4)]) (use False assms(3) in auto)
    then show ?thesis using m_serve [OF assms(2)] by blast
  qed
qed

end

section \<open>Properties\<close>

lemma server_inv_start: "MemDB_ok bt bwf db \<Longrightarrow> server_inv bt bwf (mem_server_start db)"
  by (simp add: server_inv_def mem_server_start_def sys_start_def)

lemma opened_stream:
  assumes "mem_server_step net bt room (MOpen reverse q) v v'" and "\<not> blank (en_Start q)" and "\<not> blank (en_End q)"
  shows "length (sv_streams v') = Suc (length (sv_streams v))"
    and "sv_streams v' ! length (sv_streams v) = new_mem_stream bt (ms_db (sv_mem v)) reverse q True"
  using assms(1)
  by (cases rule: mem_server_step.cases;
      use assms(2,3) opened_useMtx in \<open>fastforce simp: MemDB_Iterator_def MemDB_ReverseIterator_def split: if_splits\<close>)+

lemma new_mem_stream_weight:
  "wstream_weight bt (new_mem_stream bt db reverse q m) =
     5 * length (opened_items bt (ws_opened (new_mem_stream bt db reverse q m))) +
     3 * length (fst (traversal bt db (en_Start q) (en_End q) reverse)) + 9"
  by (simp add: wstream_weight_def new_mem_stream_def Let_def iter_weight_def start_run_def ir_start_def split: prod.splits)

lemma opened_messages:
  assumes "btree_laws bt bwf" and "MemDB_ok bt bwf (op_db p)" and "\<not> blank (op_start p)" and "\<not> blank (op_end p)"
  shows "map (item_message p) (opened_items bt p) =
    scan_messages (op_reverse p) (op_start p) (op_end p) (MemDB_ents bt (op_db p))"
  using btree_laws.opened_items_scan [OF assms, symmetric] by (simp add: scan_messages_def item_message_def [abs_def] comp_def)

text \<open>
  C22. A stream of a server over a \<open>MemDB\<close> delivers the content of its range at the moment at which its iterator was made,
  however the method, the goroutine of the iterator, the client, other streams, iterators inside the process
  and writers interleave, and although a writer that met a goroutine in the tree could change everything that it reads. As
  long as the goroutine has not returned, the database is the one of that moment and no writer has the lock. What
  the client has received and what is on its way is at every moment a prefix of the messages of the range, and all
  of them when the method has returned without an error; the iterator is then closed. The stream makes
  at most a number of steps that is linear in the items that the tree offers, and it is never stuck
  before its method has returned, provided the transport takes a message when none is on its way.
\<close>

theorem MemDB_stream_snapshot:
  assumes "btree_laws bt bwf" and "grpc_laws net" and "MemDB_ok bt bwf db"
    and "mem_server_run net bt room evs0 (mem_server_start db) v0" and "mem_server_step net bt room (MOpen reverse q) v0 v1"
    and "\<not> blank (en_Start q)" and "\<not> blank (en_End q)" and "mem_server_run net bt room evs v1 v2"
    and "j = length (sv_streams v0)"
  shows "let st = sv_streams v2 ! j; d = ms_db (sv_mem v0); sent = ws_taken st @ ws_flight st;
             ms = scan_messages reverse (en_Start q) (en_End q) (MemDB_ents bt d)
         in (ir_go (ws_run st) \<noteq> GDone \<longrightarrow> ms_db (sv_mem v2) = d \<and> ms_writer (sv_mem v2) = None) \<and>
            prefix sent ms \<and>
            (\<forall>e. ws_handler st = WReturned e \<longrightarrow> ir_closed (ws_run st) \<and> (e = None \<longrightarrow> sent = ms)) \<and>
            length (stream_events j evs) \<le>
              5 * length ms + 3 * length (fst (traversal bt d (en_Start q) (en_End q) reverse)) + 9 \<and>
            ((\<forall>m. room [] m) \<and> (\<forall>e. ws_handler st \<noteq> WReturned e) \<longrightarrow>
               (\<exists>ev v3. ev \<in> {MServe j, MRun j, MRecv j} \<and> mem_server_step net bt room ev v2 v3))"
proof -
  let ?st = "sv_streams v2 ! j" and ?d = "ms_db (sv_mem v0)"
  let ?new = "new_mem_stream bt ?d reverse q True"
  let ?ms = "scan_messages reverse (en_Start q) (en_End q) (MemDB_ents bt ?d)"
  note reach = btree_laws.server_inv_reachable [OF assms(1,2)] and step = btree_laws.server_inv_step [OF assms(1,2,5)]
  have v0: "server_inv bt bwf v0" using reach [OF assms(4)] server_inv_start [OF assms(3)] by simp
  have v1: "server_inv bt bwf v1" "j < length (sv_streams v1)" "sv_streams v1 ! j = ?new"
    using step v0 opened_stream [OF assms(5-7)] assms(9) by simp_all
  have v2: "server_inv bt bwf v2" "j < length (sv_streams v2)" "ws_opened ?st = ws_opened ?new"
    using reach [OF assms(8) v1(1)] opened_run [OF assms(8) v1(2)] v1(3) by simp_all
  have ok: "wstream_ok bt bwf (ms_db (sv_mem v2)) ?st" by (rule server_inv_nth [OF v2(1,2)])
  have ms: "map (item_message (ws_opened ?st)) (opened_items bt (ws_opened ?st)) = ?ms"
    using opened_messages [OF assms(1), of "ws_opened ?st"] v0 assms(6,7) v2(3)
    by (simp add: new_mem_stream_def Let_def server_inv_def)
  then have "length (opened_items bt (ws_opened ?new)) = length ?ms" using v2(3) by (metis length_map)
  then have "length (stream_events j evs) \<le>
      5 * length ?ms + 3 * length (fst (traversal bt ?d (en_Start q) (en_End q) reverse)) + 9"
    using btree_laws.server_run_weight [OF assms(1,2,8) v1(1,2)] v1(3) new_mem_stream_weight [of bt ?d reverse q True] by simp
  moreover have "ms_db (sv_mem v2) = ?d \<and> ms_writer (sv_mem v2) = None" if "ir_go (ws_run ?st) \<noteq> GDone"
  proof -
    have "ms_readers (sv_mem v2) \<noteq> 0" using writer_alone [OF v2(1), of ?st] v2(2) that by auto
    then show ?thesis using v2 ok that by (auto simp: server_inv_def Let_def wstream_ok_def run_ok_def new_mem_stream_def)
  qed
  moreover have "ir_closed (ws_run ?st) \<and> (e = None \<longrightarrow> ws_taken ?st @ ws_flight ?st = ?ms)" if "ws_handler ?st = WReturned e" for e
    using ok that ms by (simp add: wstream_ok_def)
  ultimately show ?thesis
    using wstream_prefix [OF ok] ms btree_laws.server_progress [OF assms(1) v2(1,2), of room net] by (auto simp: Let_def)
qed

lemma run_alone:
  assumes "iter_step\<^sup>*\<^sup>* (ws_run st) r" and "sv_streams v = [st]" and "ir_go r \<noteq> GDone"
  shows "\<exists>evs. mem_server_run net bt room evs v (v\<lparr>sv_streams := [st\<lparr>ws_run := r\<rparr>]\<rparr>)"
  using assms(1,3)
proof (induction rule: rtranclp_induct)
  case base
  have "v\<lparr>sv_streams := [st\<lparr>ws_run := ws_run st\<rparr>]\<rparr> = v" using assms(2) by (cases v) simp
  then show ?case by (metis mrun_nil)
next
  case (step r1 r2)
  then obtain evs where run: "mem_server_run net bt room evs v (v\<lparr>sv_streams := [st\<lparr>ws_run := r1\<rparr>]\<rparr>)"
    using iter_done_stays [OF step(2)] by blast
  have "mem_server_step net bt room (MRun 0) (v\<lparr>sv_streams := [st\<lparr>ws_run := r1\<rparr>]\<rparr>) (v\<lparr>sv_streams := [st\<lparr>ws_run := r2\<rparr>]\<rparr>)"
    using m_run [of 0 "v\<lparr>sv_streams := [st\<lparr>ws_run := r1\<rparr>]\<rparr>" _ r2 _ net bt room, OF _ refl _ refl] step(2,4) by simp
  then show ?case using mrun_snoc [OF run] by blast
qed

text \<open>A stream over the example that has sent its first pair while a call of \<open>Delete\<close> waits for the lock.\<close>

definition wait_example :: "item list mem_server" where
  "wait_example =
     (let p = \<lparr>op_db = mem_example, op_start = None, op_end = None, op_reverse = False\<rparr>;
          i = newPair (Some [1]) (Some [10])
      in \<lparr>sv_mem = \<lparr>ms_db = mem_example, ms_readers = 1, ms_waiting = [WDelete (Some [3])], ms_writer = None, ms_runs = []\<rparr>,
          sv_streams = [\<lparr>ws_opened = p, ws_useMtx = True,
            ws_run = primed_run i [newPair (Some [1, 2]) (Some []), newPair (Some [3]) (Some [30])] None None [NextCall],
            ws_handler = WLoop, ws_flight = [item_message p i], ws_taken = [], ws_broken = None\<rparr>],
          sv_refused = []\<rparr>)"

lemma wait_example_reached:
  obtains v1 evs where
    "mem_server_step plain_net list_btree (\<lambda>fl m. fl = []) (MOpen False new_Entity) (mem_server_start mem_example) v1"
    and "mem_server_run plain_net list_btree (\<lambda>fl m. fl = []) evs v1 wait_example"
proof -
  let ?room = "\<lambda>fl m. fl = ([] :: message list)" and ?v0 = "mem_server_start mem_example"
  let ?m = "sys_start mem_example" and ?i = "newPair (Some [1]) (Some [10])"
  let ?is = "[newPair (Some [1, 2]) (Some []), newPair (Some [3]) (Some [30])]"
  let ?st = "new_mem_stream list_btree mem_example False new_Entity True" and ?p = "ws_opened (sv_streams wait_example ! 0)"
  let ?v1 = "\<lparr>sv_mem = ?m\<lparr>ms_readers := 1\<rparr>, sv_streams = [?st], sv_refused = []\<rparr>"
  let ?r = "primed_run ?i ?is None None []"
  let ?v2 = "?v1\<lparr>sv_streams := [?st\<lparr>ws_run := ?r\<rparr>]\<rparr>"
  let ?msg = "pair_msg (None, None) ([1], [10])"
  let ?v3 = "?v1\<lparr>sv_streams := [?st\<lparr>ws_run := ?r, ws_handler := WSend ?msg\<rparr>]\<rparr>"
  let ?v4 = "?v1\<lparr>sv_streams := sv_streams wait_example\<rparr>"
  have p: "ws_opened ?st = ?p" "?p = \<lparr>op_db = mem_example, op_start = None, op_end = None, op_reverse = False\<rparr>"
    by (simp_all add: new_mem_stream_def wait_example_def Let_def new_Entity_def)
  have wire: "nt_wire plain_net (MIterator ?msg) = item_message ?p ?i"
    using plain.wire [of "MIterator ?msg"] by (simp add: item_message_def pair_message_def p(2) item_kv_def)
  obtain i where "MemDB_Iterator list_btree mem_example None None = Ret (Some i, None)"
    by (simp add: MemDB_Iterator_def)
  then have 1: "mem_server_step plain_net list_btree ?room (MOpen False new_Entity) ?v0 ?v1"
    using m_open [of ?m ?v0 False list_btree new_Entity i plain_net ?room]
      opened_useMtx(1) [of False list_btree mem_example None None i]
    by (simp add: mem_server_start_def sys_start_def new_Entity_def)
  have "iter_step\<^sup>*\<^sup>* (ws_run ?st) ?r"
    using primed_run_reached [of None None ?i ?is "[]"]
    by (simp add: new_mem_stream_def Let_def start_run_def new_Entity_def traversal_def mem_example_def list_btree_def visitor_def)
  then obtain evs where 2: "mem_server_run plain_net list_btree ?room evs ?v1 ?v2"
    using run_alone [of ?st ?r ?v1 plain_net list_btree ?room] by (auto simp: primed_run_def)
  have "next_message memDBIterator_iface (run_iterator (sv_streams ?v2 ! 0)) = Ret (Some ?msg, run_iterator (sv_streams ?v2 ! 0))"
    using p by (simp add: next_message_def memDBIterator_defs run_iterator_def primed_run_def pair_msg_def)
  then have 3: "mem_server_step plain_net list_btree ?room (MServe 0) ?v2 ?v3"
    using m_serve [of 0 ?v2 plain_net ?room _ list_btree, OF _ w_message]
    by (simp add: run_idle_def primed_run_def new_mem_stream_def Let_def)
  have 4: "mem_server_step plain_net list_btree ?room (MServe 0) ?v3 ?v4"
    using m_serve [of 0 ?v3 plain_net ?room _ list_btree, OF _ w_sent [where m = ?msg]] wire p
    by (simp add: run_call_def primed_run_def new_mem_stream_def Let_def wait_example_def)
  have 5: "mem_server_step plain_net list_btree ?room MLocal ?v4 wait_example"
    using m_local [of list_btree ?v4 _ plain_net ?room, OF lock [of "WDelete (Some [3])"]]
    by (simp add: wait_example_def sys_start_def Let_def)
  show thesis by (rule that [OF 1 mrun_snoc [OF mrun_snoc [OF mrun_snoc [OF 2 3] 4] 5]])
qed

theorem MemDB_stream_snapshot_witness:
  "\<exists>v1 evs. mem_server_step plain_net list_btree (\<lambda>fl m. fl = []) (MOpen False new_Entity) (mem_server_start mem_example) v1 \<and>
    mem_server_run plain_net list_btree (\<lambda>fl m. fl = []) evs v1 wait_example \<and>
    ms_waiting (sv_mem wait_example) = [WDelete (Some [3])] \<and> ms_db (sv_mem wait_example) = mem_example \<and>
    prefix (ws_taken (sv_streams wait_example ! 0) @ ws_flight (sv_streams wait_example ! 0))
      (scan_messages False None None [([1], [10]), ([1, 2], []), ([3], [30])]) \<and>
    length (stream_events 0 evs) \<le> 33 \<and>
    (\<exists>ev v3. ev \<in> {MServe 0, MRun 0, MRecv 0} \<and>
       mem_server_step plain_net list_btree (\<lambda>fl m. fl = []) ev wait_example v3)"
proof -
  obtain v1 evs where v1: "mem_server_step plain_net list_btree (\<lambda>fl m. fl = []) (MOpen False new_Entity) (mem_server_start mem_example) v1"
    and run: "mem_server_run plain_net list_btree (\<lambda>fl m. fl = []) evs v1 wait_example"
    by (rule wait_example_reached)
  have "length (scan_messages False None None (MemDB_ents list_btree mem_example)) = 3"
    "length (fst (traversal list_btree mem_example None None False)) = 3"
    by (simp add: scan_messages_def mem_example_scan, simp add: traversal_def list_btree_def mem_example_def)
  with MemDB_stream_snapshot [OF list_bt.btree_laws_axioms plain.grpc_laws_axioms mem_example_ok mrun_nil v1 _ _ run refl] v1 run
  show ?thesis
    by (intro exI [of _ v1] exI [of _ evs])
      (simp add: mem_server_start_def sys_start_def Let_def new_Entity_def mem_example_ents, simp add: wait_example_def Let_def primed_run_def)
qed

end
