(* ===== verification/Spec2Isabelle.thy ===== *)
theory Spec2Isabelle
  imports PrefixDB Populate Registry MemDB_Server
begin

text \<open>
  A verification of tm-db, the key-value store library of Tendermint: one interface, \<open>DB\<close>, with
  iterators and batches, six storage backends, a database that gives a namespace of another one,
  and a database behind a gRPC server.

  \<^bold>\<open>How the parts interact.\<close> \<open>types.go\<close> declares the interfaces. Each backend file registers a
  constructor with \<open>db.go\<close> when the program starts, and \<open>NewDB\<close> makes a database by the name of its
  backend. \<open>PrefixDB\<close> wraps any database. \<open>remotedb\<close> implements the interface by calls over gRPC to
  \<open>grpcdb\<close>, which holds one database made by \<open>NewDB\<close>.

  \<^bold>\<open>Conventions.\<close> A Go \<open>[]byte\<close> is \<open>slice\<close>, an optional byte list with \<open>None\<close> for nil. A method that may
  panic or loop returns \<open>'a res\<close>: \<open>Ret\<close>, \<open>Panic\<close>, or \<open>None\<close> for not returning. Errors are values of
  \<open>error\<close>. A Go interface is a record of methods (\<open>Iterator\<close>, \<open>Batch\<close>, \<open>DB\<close>), and every type that
  implements it has a record \<open>T_iface\<close>; methods take the state of the receiver and return the new one.
  The method \<open>m\<close> of type \<open>T\<close> is the definition \<open>T_m\<close>. Packages that are not part of the repository
  are records of operations that the definitions take as an argument; a locale \<open>..._laws\<close> states
  what the package documents, and an ordered list implements each of them, so that no
  theorem is about an empty set of packages.

  \<^bold>\<open>The theories.\<close>
  \<^item> \<open>Prelude\<close>: slices, results, the functions of \<open>bytes\<close>, \<open>fmt\<close>, \<open>strings\<close> and \<open>path/filepath\<close> that are
    used, and the lemmas on them; \<open>bytes.Compare\<close> is shown to be the lexicographic order.
  \<^item> \<open>Util\<close> (\<open>util.go\<close>): \<open>cp\<close>, \<open>cpIncr\<close>, \<open>IsKeyInDomain\<close>, \<open>FileExists\<close>. Shows that \<open>cpIncr\<close> is the
    big-endian increment, nil exactly on overflow, and which keys lie between a prefix and its
    increment: those with the prefix, and for a prefix that ends in 0xFF some others, the gap keys.
  \<^item> \<open>Test_Helpers\<close> (\<open>test_helpers.go\<close>): the random strings of the tests.
  \<^item> \<open>Ordered_KV\<close>: the abstract content of a database, a strictly ordered list of pairs, with
    \<open>kv_set\<close>, \<open>kv_del\<close>, \<open>kv_scan\<close> and batches of them.
  \<^item> \<open>Interfaces\<close> (\<open>types.go\<close>): the errors and the interfaces; calls as data (\<open>call\<close>, \<open>db_call\<close>,
    \<open>db_calls\<close>) and what the ordered list answers (\<open>spec_calls\<close>). The documented behaviour is the
    locales \<open>iterator_walk\<close>, \<open>iterator_contract\<close>, \<open>kv_db\<close>, \<open>kv_batch\<close>, their union \<open>kv_store\<close>,
    and \<open>kv_calls\<close>. What holds for every database is proved there once: reads after writes, scans against \<open>Get\<close>, the life of a batch,
    and that any sequence of calls answers as the list does.
  \<^item> \<open>MemDB\<close> (\<open>memdb.go\<close>, \<open>memdb_iterator.go\<close>, \<open>memdb_batch.go\<close>): every method, one at a time, over
    the B-tree of \<open>google/btree\<close> (\<open>btree_laws\<close>).
  \<^item> \<open>MemDB_Concurrent\<close>: the same iterator as it runs, with its goroutine, its channel of 64 items,
    the context that \<open>Close\<close> cancels, and the read-write mutex between iterators and writers. Shows
    that no interleaving is visible to a client, that running iterators are isolated from
    writers, that every run ends within a bound and closed iterators leave no goroutine
    behind, and what an iterator that is never closed does to the database.
  \<^item> \<open>PrefixDB\<close> (\<open>prefixdb.go\<close>, \<open>prefixdb_iterator.go\<close>, \<open>prefixdb_batch.go\<close>): over any database that
    keeps the contract. Shows that it keeps the contract itself, with the stripped namespace as
    content, as long as no gap key is stored in the source; that forward scans need no such
    condition and reverse scans do; that nested prefixes join, under the same condition on the first
    and on the joined prefix.
  \<^item> \<open>Cursor\<close>: what the disk backends use of an engine's iterator, and walks over it.
  \<^item> \<open>GoLevelDB\<close>, \<open>CLevelDB\<close>, \<open>RocksDB\<close>, \<open>BoltDB\<close>, \<open>BadgerDB\<close> (the files of these names): every method
    of the database, its iterator and its batch. Each is shown to keep the contract: by \<open>kv_store\<close>
    for the first four, and for Badger, whose scans turn empty values into nil, by \<open>kv_calls\<close>.
    The batches of Bolt and Badger have properties of their own, atomicity and a single flush.
  \<^item> \<open>Registry\<close> (\<open>db.go\<close> and the \<open>init\<close> functions): the map of constructors, with the build tags.
  \<^item> \<open>Proto\<close> (\<open>remotedb/proto/defs.pb.go\<close>): the messages, their zero values and \<open>Reset\<close>, their getters,
    \<open>Equal\<close> over an interface value (nil, a pointer, a struct, another type), and the encoding of
    numbers. What is left of a message after encoding and decoding is \<open>norm_Entity\<close> and its like.
    Shows that \<open>Equal\<close> is equality up to nil for empty bytes.
  \<^item> \<open>Wire\<close>: the fields that the messages declare, and a decoder of the protobuf encoding, which says when
    the unknown fields of a message (\<open>XXX_unrecognized\<close>) are well-formed and not declared.
  \<^item> \<open>GrpcServer\<close> (\<open>remotedb/grpcdb/server.go\<close>): every method over any database; \<open>GetStream\<close>, which
    runs two goroutines, is the step relation \<open>gs_step\<close>.
  \<^item> \<open>RemoteDB\<close> (\<open>remotedb/remotedb.go\<close>, \<open>iterator.go\<close>, \<open>batch.go\<close>, \<open>grpcdb/client.go\<close> and the stubs of
    \<open>defs.pb.go\<close>): client, stubs, handlers and server composed over a connection (\<open>grpc_laws\<close>).
    A connection delivers a message if its strings are text and its unknown fields are those that \<open>Wire\<close>
    accepts (\<open>encodable\<close>); to open a stream, to send the request and to close the sending side can fail.
    Shows what a session answers, and where it differs from a local database.
  \<^item> \<open>RemoteDB_Concurrent\<close>: the same server with several clients. \<open>serve_step\<close> is the goroutine of an
    iterator's stream, \<open>remote_step\<close> the server with its streams, the clients that receive and the
    calls in between; a client may close its iterator early, and a stream may break, after which \<open>Send\<close>
    fails. The databases are those of the contract, whose iterators are values. \<open>gx_step\<close> is a session of \<open>GetStream\<close> from the client's stub to the server's two
    goroutines and back. Shows that a stream delivers what the stream of \<open>RemoteDB\<close>, made as a whole,
    holds, that it ends within a bound, that an iterator closed early leaves the server's method behind until the stream
    breaks, and that a session of \<open>GetStream\<close> simulates \<open>gs_step\<close> and answers the keys in order.
  \<^item> \<open>MemDB_Server\<close>: the server over a \<open>MemDB\<close> with everything that runs in it: \<open>mem_handle_step\<close> is the method of a
    stream, \<open>iter_step\<close> of \<open>MemDB_Concurrent\<close> its iterator, \<open>sys_step\<close> the lock, the writers and the iterators inside
    the process, and \<open>race_step\<close> what a writer would do to a goroutine that it meets in the tree.
    Shows that a stream delivers the content at the moment at which its iterator was made, which rests on the
    read lock, that it is never stuck and that its steps are bounded.
  \<^item> \<open>Populate\<close> (the \<open>NewPopulated\<close> functions of \<open>defs.pb.go\<close>): random messages in the state monad, over
    any source of numbers that keeps to its ranges (\<open>randy_laws\<close>). Shows that the messages are
    well-formed, that their unknown fields decode, and that they arrive over a connection as \<open>Equal\<close>.
  \<^item> This theory: \<open>NewDB\<close> composed with all backends.

  \<^bold>\<open>Loops and bounds.\<close> Loops over an interface that may not end (\<open>iter_loop\<close>, the loops of \<open>Next\<close> of
  \<open>PrefixDB\<close>, of \<open>Print\<close> and of \<open>handleIterator\<close>) are \<open>partial_function (option)\<close>; the theorems say that they
  return. All other loops are recursive functions with a proof of termination; no fuel is used. The step relations have explicit bounds on the length of a run.
  Bytes are 8-bit words and the numbers of \<open>Proto\<close> 64-bit words; Bolt and Badger have size limits
  for keys and values, which are the parameter \<open>fits\<close> of their contracts.

  \<^bold>\<open>Not modelled.\<close> The descriptors and registrations of \<open>defs.pb.go\<close> are data for the protobuf runtime, and
  \<open>String\<close> and the \<open>XXX_\<close> methods only hand the message to it. The runtime of gRPC is a parameter: what it does to a message,
  which errors it reports and how many messages it takes; a limit on the size of a message is not part of it. A unary call is one step and its context is
  never cancelled. The streams of iterators may break at any moment; \<open>gs_step\<close> has a \<open>Send\<close> that fails, while
  the session \<open>gx_step\<close> runs over a stream that does not break. A call of \<open>RemoteDB\<close> that only reads
  leaves the state of the server as it was.
  \<open>ForceCompact\<close> and \<open>Stats\<close> return what the packages say. The mutex of \<open>PrefixDB\<close> and the concurrency of
  the engines are left out: their methods run one at a time.
  An iterator without mutex (\<open>IteratorNoMtx\<close>) has no guarantee against writers and is modelled
  only for a client that does not write. The addresses of slices are not modelled, so that the
  rule that callers must not change slices they passed is taken for granted. The two \<open>doc.go\<close> files
  hold comments only.
\<close>

section \<open>Databases made by NewDB\<close>

text \<open>A database answers a sequence of calls as the list \<open>m\<close> of pairs does, exactly or up to a view of the answers.\<close>

definition answers_as :: "(answer \<Rightarrow> answer) \<Rightarrow> ('s, 'i, 'b) DB \<Rightarrow> 's \<Rightarrow> kv list \<Rightarrow> call list \<Rightarrow> bool" where
  "answers_as view db s m cs =
     (case db_calls db s cs of
        Some (Inr (s', as)) \<Rightarrow> map view as = map view (snd (spec_calls m cs))
      | _ \<Rightarrow> False)"

context kv_calls
begin

lemma call_answers: "ok s \<Longrightarrow> list_all call_ok cs \<Longrightarrow> answers_as view db s (ents s) cs"
  using all_calls [of s cs] by (auto simp: answers_as_def)

end

context kv_store
begin

lemma store_answers: "ok s \<Longrightarrow> list_all (call_fits fits) cs \<Longrightarrow> answers_as (\<lambda>a. a) db s (ents s) cs"
  by (rule calls.call_answers)

end

text \<open>What \<open>NewDB\<close> returns when it succeeds: the database of the constructor with that name.\<close>

lemma NewDB_made:
  assumes "NewDB (run_inits (init_functions tags bg mkdirAll bb lv leveldb_OpenFile bt rk numCPU) Map.empty) ks name backend dir =
      (Some a, err)"
  shows "err = None \<and> (case a of
      AMemDB d \<Rightarrow> backend = ''memdb'' \<and> d = NewMemDB bt
    | AGoLevelDB d \<Rightarrow> backend = ''goleveldb'' \<and> NewGoLevelDB leveldb_OpenFile name dir = (Some d, None)
    | ACLevelDB d \<Rightarrow> backend = ''cleveldb'' \<and> tag_cleveldb tags \<and> NewCLevelDB lv name dir = (Some d, None)
    | ARocksDB d \<Rightarrow> backend = ''rocksdb'' \<and> tag_rocksdb tags \<and> NewRocksDB rk numCPU name dir = (Some d, None)
    | ABoltDB d \<Rightarrow> backend = ''boltdb'' \<and> tag_boltdb tags \<and> NewBoltDB bb name dir = (Some d, None)
    | ABadgerDB d \<Rightarrow> backend = ''badgerdb'' \<and> tag_badgerdb tags \<and> NewBadgerDB bg mkdirAll name dir = (Some d, None))"
  using assms unfolding NewDB_def run_inits_lookup
  by (auto simp: lift_creator_def badgerDBCreator_def prod_eq_iff simp del: list.inject split: if_splits option.splits prod.splits)

text \<open>
  C1. The whole program. Over third-party databases that work as documented, whatever database
  \<open>NewDB\<close> returns for a backend name is the one of that backend, and it answers every sequence of
  calls (within the size limits of Bolt and Badger) as the ordered list of its pairs: all backends
  are interchangeable, Badger up to nil for empty values in scans.
\<close>

theorem NewDB_answers_as_ordered_map:
  assumes "btree_laws bt bwf"
    and "goleveldb_laws ld cok1 items1 pos1 dok1 dents1 wops1" and "\<And>path opts d. leveldb_OpenFile path opts = Inl d \<Longrightarrow> dok1 d"
    and "levigo_laws lv cok2 items2 pos2 dok2 dents2 wops2"
    and "gorocksdb_laws rk cok3 items3 pos3 dok3 dents3 wops3"
    and "bbolt_laws bb dok4 dents4 tx4 tok4 tents4 cok4 items4 pos4 fits4" and "list_all (call_fits fits4) cs"
    and "badger_laws bg dok5 dents5 txn5 tok5 tents5 mok5 pair5 cok5 crev5 items5 left5 wops5 enc5 fits5 small5"
    and "list_all (badger_call_ok fits5 small5) cs"
    and "NewDB (run_inits (init_functions tags bg mkdirAll bb lv leveldb_OpenFile bt rk numCPU) Map.empty) ks name backend dir =
      (Some a, err)"
  shows "case a of
      AMemDB d \<Rightarrow> backend = ''memdb'' \<and> answers_as (\<lambda>a. a) (MemDB_iface bt) d [] cs
    | AGoLevelDB d \<Rightarrow> backend = ''goleveldb'' \<and> answers_as (\<lambda>a. a) (GoLevelDB_iface ld) d (dents1 (gl_db d)) cs
    | ACLevelDB d \<Rightarrow> backend = ''cleveldb'' \<and> answers_as (\<lambda>a. a) (CLevelDB_iface lv) d (dents2 (cl_db d)) cs
    | ARocksDB d \<Rightarrow> backend = ''rocksdb'' \<and> answers_as (\<lambda>a. a) (RocksDB_iface rk) d (dents3 (rd_db d)) cs
    | ABoltDB d \<Rightarrow> backend = ''boltdb'' \<and> answers_as (\<lambda>a. a) (BoltDB_iface bb) d (dents4 (bd_db d)) cs
    | ABadgerDB d \<Rightarrow> backend = ''badgerdb'' \<and> answers_as scan_view (BadgerDB_iface bg) d (dents5 (bgd_db d)) cs"
proof (cases a)
  case (AMemDB d)
  then show ?thesis
    using NewDB_made [OF assms(10)] btree_laws.New_ok [OF assms(1)]
      kv_store.store_answers [OF btree_laws.MemDB_store [OF assms(1)], of d cs] by simp
next
  case (AGoLevelDB d)
  then have "dok1 (gl_db d)"
    using NewDB_made [OF assms(10)] assms(3)
    by (auto simp: NewGoLevelDB_def NewGoLevelDBWithOpts_def Let_def split: sum.splits)
  from kv_store.store_answers [OF goleveldb_laws.GoLevelDB_store [OF assms(2)] this, of cs] AGoLevelDB
  show ?thesis using NewDB_made [OF assms(10)] by simp
next
  case (ACLevelDB d)
  then show ?thesis
    using NewDB_made [OF assms(10)] kv_store.store_answers [OF levigo_laws.CLevelDB_store [OF assms(4)], of d cs]
      NewCLevelDB_ok [OF assms(4)] by auto
next
  case (ARocksDB d)
  then show ?thesis
    using NewDB_made [OF assms(10)] kv_store.store_answers [OF gorocksdb_laws.RocksDB_store [OF assms(5)], of d cs]
      NewRocksDB_ok [OF assms(5)] by auto
next
  case (ABoltDB d)
  then show ?thesis
    using NewDB_made [OF assms(10)] kv_store.store_answers [OF bbolt_laws.BoltDB_store [OF assms(6)], of d cs]
      NewBoltDB_ok [OF assms(6)] assms(7) by auto
next
  case (ABadgerDB d)
  then show ?thesis
    using NewDB_made [OF assms(10)] kv_calls.call_answers [OF badger_laws.BadgerDB_calls [OF assms(8)], of d cs]
      NewBadgerDB_ok [OF assms(8)] assms(9) by auto
qed

definition all_tags :: build_tags where
  "all_tags = \<lparr>tag_badgerdb = True, tag_boltdb = True, tag_cleveldb = True, tag_rocksdb = True\<rparr>"

theorem NewDB_answers_as_ordered_map_witness:
  "NewDB (run_inits (init_functions all_tags list_badger (\<lambda>path. None) list_bbolt list_levigo
       (\<lambda>path (opts :: unit option). Inl ([] :: kv list)) list_btree list_gorocksdb 4) Map.empty)
     [] ''app'' ''boltdb'' ''data'' = (Some (ABoltDB \<lparr>bd_db = []\<rparr>), None) \<and>
   answers_as (\<lambda>a. a) (BoltDB_iface list_bbolt) \<lparr>bd_db = []\<rparr> []
     [CSet True (Some [2]) (Some [9]), CGet (Some [2]), CScan True None None]"
proof -
  let ?cs = "[CSet True (Some [2]) (Some [9]), CGet (Some [2]), CScan True None None]"
  have bolt: "NewBoltDB list_bbolt ''app'' ''data'' = (Some \<lparr>bd_db = []\<rparr>, None)"
    by (simp add: NewBoltDB_def NewBoltDBWithOpts_def list_bbolt_def list_bbolt_commit_def)
  have new: "NewDB (run_inits (init_functions all_tags list_badger (\<lambda>path. None) list_bbolt list_levigo
       (\<lambda>path (opts :: unit option). Inl ([] :: kv list)) list_btree list_gorocksdb 4) Map.empty)
     [] ''app'' ''boltdb'' ''data'' = (Some (ABoltDB \<lparr>bd_db = []\<rparr>), None)"
    unfolding NewDB_def run_inits_lookup by (simp add: all_tags_def lift_creator_def bolt)
  have fits: "list_all (call_fits bolt_fits) ?cs" "list_all (badger_call_ok badger_fits list_badger_small) ?cs"
    by (simp_all add: set_fits_def bolt_fits_def badger_fits_def badger_prefix_def set_error_def)
  from NewDB_answers_as_ordered_map [OF list_bt.btree_laws_axioms list_ld.goleveldb_laws_axioms _ list_lv.levigo_laws_axioms
      list_rk.gorocksdb_laws_axioms list_bb.bbolt_laws_axioms fits(1) list_bg.badger_laws_axioms fits(2) new] new
  show ?thesis by (simp add: kv_wf_def)
qed

end
